(* ===== verification/Prelude.thy ===== *)
theory Prelude
  imports Main "HOL-Library.Word"
begin

text \<open>
  Shared vocabulary of the development. Rust's fixed-width integers are words of that
  width, \<open>usize\<close> is a natural number (a length or an index of a value in memory, bounded
  by \<open>usize_max\<close> where the source saturates or checks it). The theory holds Rust's checked
  and saturating arithmetic, \<open>Option\<close> and slice helpers, the \<open>?\<close> operator on
  results that travel with the mutated state, and the locales of step machines that the
  components instantiate.
\<close>

unbundle bit_operations_syntax

named_theorems rust_arith \<open>checked and saturating arithmetic read as natural numbers\<close>
named_theorems op_defs \<open>definitions of the operations of the component at hand\<close>

type_synonym u8 = "8 word"
type_synonym u16 = "16 word"
type_synonym u32 = "32 word"
type_synonym u64 = "64 word"
type_synonym u128 = "128 word"
type_synonym usize = nat
type_synonym byte = "8 word"

abbreviation usize_max :: nat where
  "usize_max \<equiv> 18446744073709551615"

section \<open>Rust integer arithmetic\<close>

definition checked_add :: "'a::len word \<Rightarrow> 'a word \<Rightarrow> 'a word option" where
  "checked_add a b = (if unat a + unat b < 2 ^ LENGTH('a) then Some (a + b) else None)"

definition checked_sub :: "'a::len word \<Rightarrow> 'a word \<Rightarrow> 'a word option" where
  "checked_sub a b = (if b \<le> a then Some (a - b) else None)"

definition checked_mul :: "'a::len word \<Rightarrow> 'a word \<Rightarrow> 'a word option" where
  "checked_mul a b = (if unat a * unat b < 2 ^ LENGTH('a) then Some (a * b) else None)"

definition saturating_add :: "'a::len word \<Rightarrow> 'a word \<Rightarrow> 'a word" where
  "saturating_add a b = (case checked_add a b of Some c \<Rightarrow> c | None \<Rightarrow> - 1)"

definition saturating_sub :: "'a::len word \<Rightarrow> 'a word \<Rightarrow> 'a word" where
  "saturating_sub a b = (case checked_sub a b of Some c \<Rightarrow> c | None \<Rightarrow> 0)"

definition saturating_mul :: "'a::len word \<Rightarrow> 'a word \<Rightarrow> 'a word" where
  "saturating_mul a b = (case checked_mul a b of Some c \<Rightarrow> c | None \<Rightarrow> - 1)"

lemma unat_word_less [simp]: "unat (a :: 'a::len word) < 2 ^ LENGTH('a)"
  by (rule unsigned_less)

lemma unat_minus_one_word: "unat (- 1 :: 'a::len word) = 2 ^ LENGTH('a) - 1"
  by (simp add: unsigned_minus_1_eq_mask mask_eq_exp_minus_1)

lemma checked_add_Some_iff [rust_arith]:
  "checked_add a b = Some c \<longleftrightarrow> unat c = unat a + unat (b :: 'a::len word)"
proof
  assume "checked_add a b = Some c"
  then show "unat c = unat a + unat b"
    by (auto simp: checked_add_def unat_word_ariths split: if_splits)
next
  assume eq: "unat c = unat a + unat b"
  moreover have "unat c < 2 ^ LENGTH('a)" by simp
  ultimately have "unat a + unat b < 2 ^ LENGTH('a)" by simp
  moreover from this eq have "c = a + b"
    by (simp add: word_unat_eq_iff unat_word_ariths)
  ultimately show "checked_add a b = Some c" by (simp add: checked_add_def)
qed

lemma checked_add_None_iff [rust_arith]:
  "checked_add a b = None \<longleftrightarrow> 2 ^ LENGTH('a) \<le> unat a + unat (b :: 'a::len word)"
  by (auto simp: checked_add_def)

lemma checked_mul_Some_iff [rust_arith]:
  "checked_mul a b = Some c \<longleftrightarrow> unat c = unat a * unat (b :: 'a::len word)"
proof
  assume "checked_mul a b = Some c"
  then show "unat c = unat a * unat b"
    by (auto simp: checked_mul_def unat_word_ariths split: if_splits)
next
  assume eq: "unat c = unat a * unat b"
  moreover have "unat c < 2 ^ LENGTH('a)" by simp
  ultimately have "unat a * unat b < 2 ^ LENGTH('a)" by simp
  moreover from this eq have "c = a * b"
    by (simp add: word_unat_eq_iff unat_word_ariths)
  ultimately show "checked_mul a b = Some c" by (simp add: checked_mul_def)
qed

lemma checked_sub_Some_iff [rust_arith]:
  "checked_sub a b = Some c \<longleftrightarrow> unat a = unat c + unat (b :: 'a::len word)"
proof
  assume "checked_sub a b = Some c"
  then show "unat a = unat c + unat b"
    by (auto simp: checked_sub_def unat_sub word_le_nat_alt split: if_splits)
next
  assume eq: "unat a = unat c + unat b"
  then have "b \<le> a" by (simp add: word_le_nat_alt)
  moreover from this eq have "c = a - b"
    by (simp add: word_unat_eq_iff unat_sub)
  ultimately show "checked_sub a b = Some c" by (simp add: checked_sub_def)
qed

lemma unat_saturating_add [rust_arith]:
  "unat (saturating_add a b) = min (unat a + unat b) (2 ^ LENGTH('a) - 1)"
  for a b :: "'a::len word"
proof (cases "checked_add a b")
  case None
  then have "2 ^ LENGTH('a) \<le> unat a + unat b" by (simp add: checked_add_None_iff)
  with None show ?thesis by (simp add: saturating_add_def unat_minus_one_word)
next
  case (Some c)
  moreover from Some have "unat c = unat a + unat b" by (simp add: checked_add_Some_iff)
  moreover have "unat c < 2 ^ LENGTH('a)" by simp
  ultimately show ?thesis by (simp add: saturating_add_def)
qed

lemma unat_saturating_mul [rust_arith]:
  "unat (saturating_mul a b) = min (unat a * unat b) (2 ^ LENGTH('a) - 1)"
  for a b :: "'a::len word"
proof (cases "checked_mul a b")
  case None
  then have "2 ^ LENGTH('a) \<le> unat a * unat b" by (auto simp: checked_mul_def split: if_splits)
  with None show ?thesis by (simp add: saturating_mul_def unat_minus_one_word)
next
  case (Some c)
  moreover from Some have "unat c = unat a * unat b" by (simp add: checked_mul_Some_iff)
  moreover have "unat c < 2 ^ LENGTH('a)" by simp
  ultimately show ?thesis by (simp add: saturating_mul_def)
qed

lemma unat_saturating_sub [rust_arith]:
  "unat (saturating_sub a b) = unat a - unat b"
  for a b :: "'a::len word"
  by (auto simp: saturating_sub_def checked_sub_def unat_sub word_le_nat_alt)

lemma unat_of_nat_less: "n < 2 ^ LENGTH('a) \<Longrightarrow> unat (of_nat n :: 'a::len word) = n"
  by (simp add: unat_of_nat)

lemma distinct_of_nat:
  assumes "n \<le> 2 ^ LENGTH('a)"
  shows "distinct (map of_nat [m..<n] :: 'a::len word list)"
proof -
  have "unat (of_nat i :: 'a word) = i" if "i < n" for i
    using less_le_trans [OF that assms] by (rule unat_of_nat_less)
  then have "inj_on (of_nat :: nat \<Rightarrow> 'a word) (set [m..<n])"
    by (intro inj_on_inverseI [where g = unat]) simp
  then show ?thesis by (simp add: distinct_map)
qed

lemma distinct_numbers: "n \<le> 2 ^ 64 \<Longrightarrow> distinct (map of_nat [m..<n] :: u64 list)"
  by (rule distinct_of_nat) simp

lemma of_nat_eq_word_iff:
  "m < 2 ^ LENGTH('a) \<Longrightarrow> of_nat m = (w :: 'a::len word) \<longleftrightarrow> m = unat w"
  by (simp add: word_unat_eq_iff unat_of_nat_less)

section \<open>Options and slices\<close>

definition is_some :: "'a option \<Rightarrow> bool" where
  "is_some x = (case x of None \<Rightarrow> False | Some _ \<Rightarrow> True)"

definition is_some_and :: "('a \<Rightarrow> bool) \<Rightarrow> 'a option \<Rightarrow> bool" where
  "is_some_and p x = (case x of None \<Rightarrow> False | Some v \<Rightarrow> p v)"

definition is_none_or :: "('a \<Rightarrow> bool) \<Rightarrow> 'a option \<Rightarrow> bool" where
  "is_none_or p x = (case x of None \<Rightarrow> True | Some v \<Rightarrow> p v)"

lemma is_some_simps [simp]:
  "is_some None = False" "is_some (Some v) = True" "is_some (map_option f x) = is_some x"
  by (simp_all add: is_some_def split: option.split)

lemma is_some_iff: "is_some x \<longleftrightarrow> (\<exists>v. x = Some v)"
  by (cases x) simp_all

lemma not_is_some_iff: "\<not> is_some x \<longleftrightarrow> x = None"
  by (cases x) simp_all

lemma is_some_and_simps [simp]:
  "is_some_and p None = False" "is_some_and p (Some v) = p v"
  by (simp_all add: is_some_and_def)

lemma is_none_or_simps [simp]:
  "is_none_or p None = True" "is_none_or p (Some v) = p v"
  by (simp_all add: is_none_or_def)

text \<open>\<open>flatten\<close> of an iterator over options, and \<open>Iterator::position\<close>.\<close>

fun flatten :: "'a option list \<Rightarrow> 'a list" where
  "flatten [] = []"
| "flatten (None # xs) = flatten xs"
| "flatten (Some x # xs) = x # flatten xs"

fun position :: "('a \<Rightarrow> bool) \<Rightarrow> 'a list \<Rightarrow> nat option" where
  "position p [] = None"
| "position p (x # xs) = (if p x then Some 0 else map_option Suc (position p xs))"

lemma set_flatten [simp]: "set (flatten xs) = {x. Some x \<in> set xs}"
  by (induction xs rule: flatten.induct) auto

lemma flatten_map_None [simp]: "flatten (map (\<lambda>_. None) xs) = []"
  by (induction xs) auto

lemma flatten_replicate_None [simp]: "flatten (replicate n None) = []"
  by (induction n) auto

lemma position_Some:
  "position p xs = Some i \<Longrightarrow> i < length xs \<and> p (xs ! i) \<and> (\<forall>j < i. \<not> p (xs ! j))"
proof (induction xs arbitrary: i)
  case Nil
  then show ?case by simp
next
  case (Cons x xs)
  then show ?case
    by (auto split: if_splits simp: nth_Cons split: nat.splits)
qed

lemma position_None: "position p xs = None \<longleftrightarrow> (\<forall>x \<in> set xs. \<not> p x)"
  by (induction xs) auto

lemma find_unique:
  assumes "y \<in> set xs" "P y" "\<And>x. x \<in> set xs \<Longrightarrow> P x \<Longrightarrow> x = y"
  shows "find P xs = Some y"
proof (cases "find P xs")
  case None
  then show ?thesis using assms(1,2) by (simp add: find_None_iff)
next
  case (Some x)
  then have "x \<in> set xs" "P x" by (auto simp: find_Some_iff)
  then show ?thesis using Some assms(3) by simp
qed

text \<open>The entries of a slot array hold each identifier at most once.\<close>

definition distinct_slots :: "('a \<Rightarrow> 'k) \<Rightarrow> 'a option list \<Rightarrow> bool" where
  "distinct_slots key xs = distinct (map key (flatten xs))"

lemma distinct_slots_replicate [simp]: "distinct_slots key (replicate n None)"
  by (simp add: distinct_slots_def)

lemma distinct_slots_map_None [simp]: "distinct_slots key (map (\<lambda>_. None) xs)"
  by (simp add: distinct_slots_def)

lemma flatten_append [simp]: "flatten (xs @ ys) = flatten xs @ flatten ys"
  by (induction xs rule: flatten.induct) auto

lemma distinct_slots_update:
  assumes "distinct_slots key xs" and "\<forall>y. Some y \<in> set xs \<longrightarrow> key y \<noteq> key v"
  shows "distinct_slots key (xs[i := Some v])"
proof (cases "i < length xs")
  case True
  then have split: "xs = take i xs @ xs ! i # drop (Suc i) xs"
    by (simp add: id_take_nth_drop)
  have upd: "xs[i := Some v] = take i xs @ Some v # drop (Suc i) xs"
    using True by (simp add: upd_conv_take_nth_drop)
  have "distinct (map key (flatten (take i xs @ xs ! i # drop (Suc i) xs)))"
    using assms(1) split by (simp add: distinct_slots_def)
  moreover have "\<forall>y. Some y \<in> set (take i xs @ drop (Suc i) xs) \<longrightarrow> key y \<noteq> key v"
    using assms(2) by (auto dest: in_set_takeD in_set_dropD)
  ultimately show ?thesis
    unfolding distinct_slots_def upd by (cases "xs ! i") auto
next
  case False
  with assms(1) show ?thesis by (simp add: list_update_beyond)
qed

section \<open>Results that travel with the state\<close>

text \<open>
  A method \<open>&mut self -> Result<T, E>\<close> is a function from the state to a result and the
  state it leaves behind, errors included: Rust does not roll a mutation back when a later
  \<open>?\<close> returns early. \<open>try_then\<close> is that \<open>?\<close>.
\<close>

type_synonym ('s, 'e, 'a) outcome = "('e + 'a) \<times> 's"

definition try_then :: "('s, 'e, 'a) outcome \<Rightarrow> ('a \<Rightarrow> 's \<Rightarrow> ('s, 'e, 'b) outcome) \<Rightarrow> ('s, 'e, 'b) outcome" where
  "try_then r k = (case r of (Inl e, s) \<Rightarrow> (Inl e, s) | (Inr x, s) \<Rightarrow> k x s)"

definition ok_or :: "'e \<Rightarrow> 'a option \<Rightarrow> 'e + 'a" where
  "ok_or e x = (case x of None \<Rightarrow> Inl e | Some v \<Rightarrow> Inr v)"

definition is_ok :: "'e + 'a \<Rightarrow> bool" where
  "is_ok r = (case r of Inl _ \<Rightarrow> False | Inr _ \<Rightarrow> True)"

definition try_res :: "'e + 'a \<Rightarrow> ('a \<Rightarrow> 'e + 'b) \<Rightarrow> 'e + 'b" where
  "try_res r k = (case r of Inl e \<Rightarrow> Inl e | Inr x \<Rightarrow> k x)"

lemma is_ok_simps [simp]: "is_ok (Inl e) = False" "is_ok (Inr x) = True"
  by (simp_all add: is_ok_def)

lemma is_ok_iff: "is_ok r \<longleftrightarrow> (\<exists>v. r = Inr v)"
  by (cases r) auto

lemma try_then_simps [simp]:
  "try_then (Inl e, s) k = (Inl e, s)" "try_then (Inr x, s) k = k x s"
  by (simp_all add: try_then_def)

lemma try_res_simps [simp]: "try_res (Inl e) k = Inl e" "try_res (Inr x) k = k x"
  by (simp_all add: try_res_def)

lemma ok_or_simps [simp]: "ok_or e None = Inl e" "ok_or e (Some v) = Inr v"
  by (simp_all add: ok_or_def)

lemma try_then_split:
  "P (try_then r k) \<longleftrightarrow>
     (\<forall>e s. r = (Inl e, s) \<longrightarrow> P (Inl e, s)) \<and> (\<forall>x s. r = (Inr x, s) \<longrightarrow> P (k x s))"
  by (cases r) (auto simp: try_then_def split: sum.splits)

lemma try_then_split_asm:
  "P (try_then r k) \<longleftrightarrow>
     \<not> ((\<exists>e s. r = (Inl e, s) \<and> \<not> P (Inl e, s)) \<or> (\<exists>x s. r = (Inr x, s) \<and> \<not> P (k x s)))"
  by (cases r) (auto simp: try_then_def split: sum.splits)

lemmas try_then_splits = try_then_split try_then_split_asm

lemma try_res_Inr_iff: "try_res r k = Inr y \<longleftrightarrow> (\<exists>x. r = Inr x \<and> k x = Inr y)"
  by (cases r) auto

lemma ok_or_Inr_iff [simp]: "ok_or e x = Inr v \<longleftrightarrow> x = Some v"
  by (cases x) auto

lemma try_then_keeps:
  assumes "P (snd r)" and "\<And>x s. r = (Inr x, s) \<Longrightarrow> P s \<Longrightarrow> P (snd (k x s))"
  shows "P (snd (try_then r k))"
  using assms by (cases r) (auto simp: try_then_def split: sum.splits)

lemma try_then_InrD:
  "try_then r k = (Inr y, t) \<Longrightarrow> \<exists>x s. r = (Inr x, s) \<and> k x s = (Inr y, t)"
  by (cases r) (auto simp: try_then_def split: sum.splits)

section \<open>Step machines\<close>

text \<open>
  A component is a deterministic machine: \<open>step\<close> applies one operation. The locales state
  what a component promises of one operation and derive what holds after any sequence of
  operations, in whatever order its callers interleave them.
\<close>

locale guarded_invariant =
  fixes step :: "'op \<Rightarrow> 's \<Rightarrow> 's" and allowed :: "'op \<Rightarrow> bool" and inv :: "'s \<Rightarrow> bool"
  assumes step_inv: "inv s \<Longrightarrow> allowed x \<Longrightarrow> inv (step x s)"
begin

lemma run_inv: "inv s \<Longrightarrow> list_all allowed xs \<Longrightarrow> inv (fold step xs s)"
  by (induction xs arbitrary: s) (auto intro: step_inv)

end

locale kept_invariant =
  fixes step :: "'op \<Rightarrow> 's \<Rightarrow> 's" and inv :: "'s \<Rightarrow> bool"
  assumes step_kept: "inv s \<Longrightarrow> inv (step x s)"

sublocale kept_invariant \<subseteq> always: guarded_invariant step "\<lambda>_. True" inv
  by unfold_locales (rule step_kept)

context kept_invariant
begin

lemma run_kept: "inv s \<Longrightarrow> inv (fold step xs s)"
  by (rule always.run_inv) (simp_all add: list_all_iff)

end

text \<open>A quantity that no allowed operation raises, in the states of the invariant.\<close>

locale guarded_rank = kept_invariant +
  fixes allowed :: "'op \<Rightarrow> bool" and rank :: "'s \<Rightarrow> nat"
  assumes step_rank: "inv s \<Longrightarrow> allowed x \<Longrightarrow> rank (step x s) \<le> rank s"

sublocale guarded_rank \<subseteq> below: guarded_invariant step allowed "\<lambda>s. inv s \<and> rank s \<le> n" for n
  by unfold_locales (auto intro: step_kept order_trans [OF step_rank])

context guarded_rank
begin

lemma run_rank: "inv s \<Longrightarrow> list_all allowed xs \<Longrightarrow> rank (fold step xs s) \<le> rank s"
  using below.run_inv [of s "rank s" xs] by simp

end

text \<open>
  A machine that answers each operation. It implements another one when related states
  give equal answers and stay related.
\<close>

fun answers :: "('op \<Rightarrow> 's \<Rightarrow> 'r \<times> 's) \<Rightarrow> 'op list \<Rightarrow> 's \<Rightarrow> 'r list" where
  "answers exec [] s = []"
| "answers exec (x # xs) s = (case exec x s of (r, t) \<Rightarrow> r # answers exec xs t)"

definition final_state :: "('op \<Rightarrow> 's \<Rightarrow> 'r \<times> 's) \<Rightarrow> 'op list \<Rightarrow> 's \<Rightarrow> 's" where
  "final_state exec xs s = fold (\<lambda>x. snd \<circ> exec x) xs s"

lemma final_state_simps [simp]:
  "final_state exec [] s = s"
  "final_state exec (x # xs) s = final_state exec xs (snd (exec x s))"
  by (simp_all add: final_state_def)

locale simulation =
  fixes concrete :: "'op \<Rightarrow> 'c \<Rightarrow> 'r \<times> 'c" and abstract :: "'op \<Rightarrow> 'a \<Rightarrow> 'r \<times> 'a"
    and related :: "'c \<Rightarrow> 'a \<Rightarrow> bool"
  assumes step_related: "related c a \<Longrightarrow> related (snd (concrete x c)) (snd (abstract x a))"
    and step_answer: "related c a \<Longrightarrow> fst (concrete x c) = fst (abstract x a)"
begin

lemma run_related: "related c a \<Longrightarrow> related (final_state concrete xs c) (final_state abstract xs a)"
  by (induction xs arbitrary: c a) (auto dest: step_related)

lemma run_answers: "related c a \<Longrightarrow> answers concrete xs c = answers abstract xs a"
proof (induction xs arbitrary: c a)
  case Nil
  then show ?case by simp
next
  case (Cons x xs)
  then show ?case
    using step_related [OF Cons.prems, of x] step_answer [OF Cons.prems, of x]
    by (simp add: case_prod_beta)
qed

end

end
