(* ===== verification/Time_Ids.thy ===== *)
theory Time_Ids
  imports Prelude
begin

text \<open>
  Host-monotonic time (\<open>fr-core/src/time.rs\<close>) and the typed identifiers and
  generations (\<open>fr-core/src/ids.rs\<close>). An instant is a \<open>u64\<close> microsecond count with
  the order of its count; adding a duration is checked. The two macros of \<open>ids.rs\<close>
  generate one type per identifier kind; here one datatype per macro carries a phantom
  kind, so identifiers of different kinds do not unify, as in the source.
\<close>

section \<open>Instants and durations\<close>

datatype HostInstant = HostInstant (as_micros: u64)

datatype HostDuration = HostDuration (dur_micros: u64)

instantiation HostInstant :: linorder
begin

definition less_eq_HostInstant :: "HostInstant \<Rightarrow> HostInstant \<Rightarrow> bool" where
  "less_eq_HostInstant a b = (as_micros a \<le> as_micros b)"

definition less_HostInstant :: "HostInstant \<Rightarrow> HostInstant \<Rightarrow> bool" where
  "less_HostInstant a b = (as_micros a < as_micros b)"

instance
  by standard (auto simp: less_eq_HostInstant_def less_HostInstant_def intro: HostInstant.expand)

end

instantiation HostDuration :: linorder
begin

definition less_eq_HostDuration :: "HostDuration \<Rightarrow> HostDuration \<Rightarrow> bool" where
  "less_eq_HostDuration a b = (dur_micros a \<le> dur_micros b)"

definition less_HostDuration :: "HostDuration \<Rightarrow> HostDuration \<Rightarrow> bool" where
  "less_HostDuration a b = (dur_micros a < dur_micros b)"

instance
  by standard (auto simp: less_eq_HostDuration_def less_HostDuration_def intro: HostDuration.expand)

end

definition instant_checked_add :: "HostInstant \<Rightarrow> HostDuration \<Rightarrow> HostInstant option" where
  "instant_checked_add t d = map_option HostInstant (checked_add (as_micros t) (dur_micros d))"

definition checked_duration_since :: "HostInstant \<Rightarrow> HostInstant \<Rightarrow> HostDuration option" where
  "checked_duration_since t earlier =
     map_option HostDuration (checked_sub (as_micros t) (as_micros earlier))"

definition from_millis_checked :: "u64 \<Rightarrow> HostDuration option" where
  "from_millis_checked millis = map_option HostDuration (checked_mul millis 1000)"

text \<open>Readings as natural numbers carry the arithmetic of the proofs.\<close>

definition micros :: "HostInstant \<Rightarrow> nat" where
  "micros t = unat (as_micros t)"

definition span :: "HostDuration \<Rightarrow> nat" where
  "span d = unat (dur_micros d)"

lemma micros_less_iff: "a < b \<longleftrightarrow> micros a < micros b"
  by (simp add: less_HostInstant_def micros_def word_less_nat_alt)

lemma micros_le_iff: "a \<le> b \<longleftrightarrow> micros a \<le> micros b"
  by (simp add: less_eq_HostInstant_def micros_def word_le_nat_alt)

lemma micros_eq_iff: "a = b \<longleftrightarrow> micros a = micros b"
  by (cases a; cases b) (simp add: micros_def word_unat_eq_iff)

lemma micros_min: "micros (min a b) = min (micros a) (micros b)"
  by (auto simp: min_def micros_le_iff)

lemma micros_max: "micros (max a b) = max (micros a) (micros b)"
  by (auto simp: max_def micros_le_iff)

lemmas micros_order = micros_less_iff micros_le_iff micros_min micros_max

lemma instant_checked_add_Some_iff:
  "instant_checked_add t d = Some u \<longleftrightarrow> micros u = micros t + span d"
  by (cases u) (auto simp: instant_checked_add_def micros_def span_def checked_add_Some_iff)

lemma instant_checked_add_None_iff:
  "instant_checked_add t d = None \<longleftrightarrow> 2 ^ 64 \<le> micros t + span d"
  by (simp add: instant_checked_add_def micros_def span_def checked_add_None_iff)

lemma checked_duration_since_Some_iff:
  "checked_duration_since t e = Some d \<longleftrightarrow> micros t = span d + micros e"
  by (cases d) (auto simp: checked_duration_since_def micros_def span_def checked_sub_Some_iff)

section \<open>Identifiers and generations\<close>

datatype 'kind opaque_id = Opaque (id_raw: u128)

datatype 'kind generation = Generation (gen_raw: u64)

datatype host_boot_kind = Host_Boot_Kind
datatype os_session_kind = Os_Session_Kind
datatype remote_session_kind = Remote_Session_Kind
datatype input_lease_kind = Input_Lease_Kind
datatype input_ticket_kind = Input_Ticket_Kind

datatype display_geometry_kind = Display_Geometry_Kind
datatype codec_configuration_kind = Codec_Configuration_Kind
datatype recovery_kind = Recovery_Kind
datatype viewport_mapping_kind = Viewport_Mapping_Kind
datatype audio_kind = Audio_Kind

type_synonym HostBootId = "host_boot_kind opaque_id"
type_synonym OsSessionId = "os_session_kind opaque_id"
type_synonym RemoteSessionId = "remote_session_kind opaque_id"
type_synonym InputLeaseId = "input_lease_kind opaque_id"
type_synonym InputTicketId = "input_ticket_kind opaque_id"

type_synonym DisplayGeometryGeneration = "display_geometry_kind generation"
type_synonym CodecConfigurationGeneration = "codec_configuration_kind generation"
type_synonym RecoveryGeneration = "recovery_kind generation"
type_synonym ViewportMappingGeneration = "viewport_mapping_kind generation"
type_synonym AudioGeneration = "audio_kind generation"

definition gen_initial :: "'k generation" where
  "gen_initial = Generation 0"

definition gen_next :: "'k generation \<Rightarrow> 'k generation option" where
  "gen_next g = map_option Generation (checked_add (gen_raw g) 1)"

definition supersedes :: "'k generation \<Rightarrow> 'k generation \<Rightarrow> bool" where
  "supersedes g h = (gen_raw h < gen_raw g)"

lemma supersedes_irrefl [simp]: "\<not> supersedes g g"
  by (simp add: supersedes_def)

lemma supersedes_trans: "supersedes a b \<Longrightarrow> supersedes b c \<Longrightarrow> supersedes a c"
  by (simp add: supersedes_def)

lemma gen_next_supersedes: "gen_next g = Some h \<Longrightarrow> supersedes h g"
  by (auto simp: gen_next_def supersedes_def checked_add_Some_iff word_less_nat_alt)

lemma gen_next_None_iff: "gen_next g = None \<longleftrightarrow> gen_raw g = - 1"
proof -
  have "gen_next g = None \<longleftrightarrow> 2 ^ 64 \<le> unat (gen_raw g) + 1"
    by (simp add: gen_next_def checked_add_None_iff)
  also have "\<dots> \<longleftrightarrow> unat (gen_raw g) = 2 ^ 64 - 1"
    using unat_word_less [of "gen_raw g"] by auto
  also have "\<dots> \<longleftrightarrow> gen_raw g = - 1"
    using unat_minus_one_word [where 'a = 64] by (simp add: word_unat_eq_iff)
  finally show ?thesis .
qed

end
