(* ===== verification/Authority.thy ===== *)
theory Authority
  imports Time_Ids
begin

text \<open>
  The session authority of \<open>fr-core/src/authority.rs\<close>: the single owner of observation,
  view readiness and control for one remote session. Every method of \<open>SessionAuthority\<close>
  is a function from the authority to its result and the authority it leaves behind. The
  \<open>Arc<()>\<close> of the native owner is its address, a natural number the allocator supplies
  when the owner is claimed.
\<close>

section \<open>Data\<close>

record AuthorityPolicy =
  authorization_lifetime :: HostDuration
  ticket_lifetime :: HostDuration

datatype Phase =
    Identified
  | CapabilitiesChecked
  | WaitingApproval
  | ViewOpening
  | Viewing
  | Refused
  | Closed

datatype AuthorityError =
    InvalidState Phase
  | ObservationExpired
  | NoLease
  | StaleLease
  | LeaseExpired
  | ViewUnready
  | ControllerBusy
  | ControllerCleanupRequired
  | TicketInvalid
  | TicketExpired
  | TicketCapacity
  | ChallengeMismatch
  | ChallengePending
  | ChallengeExpired
  | ClockRegression
  | DeadlineOverflow
  | ReleasePending
  | StaleGeneration

datatype ViewReadiness = Unready | Ready | Stale

definition MAX_VIEW_SUSPENSION :: HostDuration where
  "MAX_VIEW_SUSPENSION = HostDuration 10000000"

datatype ControlStatus =
    Live HostInstant
  | Suspended HostInstant bool

record Suspension =
  su_since :: HostInstant
  su_released :: bool

record Challenge =
  ch_nonce :: u128
  ch_deadline :: HostInstant

record Ticket =
  tk_id :: InputTicketId
  tk_expires_at :: HostInstant

record Lease =
  le_id :: InputLeaseId
  le_authorized_until :: HostInstant
  le_tickets :: "Ticket option list"

definition MAX_LIVE_INPUT_TICKETS :: nat where
  "MAX_LIVE_INPUT_TICKETS = 8"

record SessionAuthority =
  sa_session :: RemoteSessionId
  sa_policy :: AuthorityPolicy
  sa_phase :: Phase
  sa_observation_until :: "HostInstant option"
  sa_readiness :: ViewReadiness
  sa_view_until :: "HostInstant option"
  sa_presented_sequence :: "u64 option"
  sa_bounded_view :: bool
  sa_lease :: "Lease option"
  sa_suspension :: "Suspension option"
  sa_recovery :: "RecoveryGeneration option"
  sa_native_owner :: "nat option"
  sa_observation_challenge :: "Challenge option"
  sa_control_challenge :: "Challenge option"
  sa_last_checked :: "HostInstant option"
  sa_clock_faulted :: bool

type_synonym 'a authority_result = "(SessionAuthority, AuthorityError, 'a) outcome"

definition plan_defaults :: AuthorityPolicy where
  "plan_defaults = \<lparr>authorization_lifetime = the (from_millis_checked 3000),
                    ticket_lifetime = the (from_millis_checked 1000)\<rparr>"

definition authority_new :: "RemoteSessionId \<Rightarrow> AuthorityPolicy \<Rightarrow> SessionAuthority" where
  "authority_new session policy = \<lparr>
     sa_session = session,
     sa_policy = policy,
     sa_phase = Identified,
     sa_observation_until = None,
     sa_readiness = Unready,
     sa_view_until = None,
     sa_presented_sequence = None,
     sa_bounded_view = False,
     sa_lease = None,
     sa_suspension = None,
     sa_recovery = None,
     sa_native_owner = None,
     sa_observation_challenge = None,
     sa_control_challenge = None,
     sa_last_checked = None,
     sa_clock_faulted = False\<rparr>"

section \<open>Clearing and lapsing\<close>

definition clear_authority :: "SessionAuthority \<Rightarrow> SessionAuthority" where
  "clear_authority s = s\<lparr>
     sa_observation_until := None,
     sa_readiness := Unready,
     sa_view_until := None,
     sa_presented_sequence := None,
     sa_lease := None,
     sa_suspension := None,
     sa_native_owner := None,
     sa_observation_challenge := None,
     sa_control_challenge := None\<rparr>"

definition close :: "SessionAuthority \<Rightarrow> SessionAuthority" where
  "close s = (clear_authority s)\<lparr>sa_phase := Closed\<rparr>"

definition refuse :: "SessionAuthority \<Rightarrow> SessionAuthority" where
  "refuse s = (clear_authority s)\<lparr>sa_phase := Refused\<rparr>"

definition drop_observation :: "SessionAuthority \<Rightarrow> SessionAuthority" where
  "drop_observation s =
     (let s' = clear_authority s in
      if sa_phase s' \<in> {ViewOpening, Viewing} then s'\<lparr>sa_phase := CapabilitiesChecked\<rparr> else s')"

definition invalidate_for_suspend :: "SessionAuthority \<Rightarrow> SessionAuthority" where
  "invalidate_for_suspend s = drop_observation s"

definition clear_tickets :: "Lease \<Rightarrow> Lease" where
  "clear_tickets l = l\<lparr>le_tickets := map (\<lambda>_. None) (le_tickets l)\<rparr>"

definition lapse_view :: "HostInstant \<Rightarrow> SessionAuthority \<Rightarrow> SessionAuthority" where
  "lapse_view at s =
     (let s1 = s\<lparr>sa_view_until := None, sa_presented_sequence := None\<rparr>;
          s2 = (if sa_readiness s1 = Ready
                then (let s' = s1\<lparr>sa_readiness := Stale\<rparr> in
                      if sa_bounded_view s' \<and> is_some (sa_lease s') \<and> \<not> is_some (sa_suspension s')
                      then s'\<lparr>sa_suspension := Some \<lparr>su_since = at, su_released = False\<rparr>\<rparr>
                      else s')
                else s1)
      in s2\<lparr>sa_lease := map_option clear_tickets (sa_lease s2)\<rparr>)"

definition mark_view_stale :: "SessionAuthority \<Rightarrow> SessionAuthority" where
  "mark_view_stale s =
     lapse_view (case sa_last_checked s of None \<Rightarrow> HostInstant 0 | Some t \<Rightarrow> t) s"

text \<open>The view deadline that has been reached at \<open>now\<close>, if any.\<close>

definition passed_view_deadline :: "HostInstant \<Rightarrow> SessionAuthority \<Rightarrow> HostInstant option" where
  "passed_view_deadline now s =
     (case sa_view_until s of None \<Rightarrow> None | Some until \<Rightarrow> if until \<le> now then Some until else None)"

definition lapse_passed_view :: "HostInstant \<Rightarrow> SessionAuthority \<Rightarrow> SessionAuthority" where
  "lapse_passed_view now s =
     (case passed_view_deadline now s of None \<Rightarrow> s | Some until \<Rightarrow> lapse_view until s)"

section \<open>Clock and deadline checks\<close>

definition check_time :: "HostInstant \<Rightarrow> SessionAuthority \<Rightarrow> unit authority_result" where
  "check_time now s =
     (if sa_clock_faulted s \<or> is_some_and (\<lambda>previous. now < previous) (sa_last_checked s)
      then (Inl ClockRegression, close (s\<lparr>sa_clock_faulted := True\<rparr>))
      else (Inr (), lapse_passed_view now (s\<lparr>sa_last_checked := Some now\<rparr>)))"

definition check_observation_live :: "HostInstant \<Rightarrow> SessionAuthority \<Rightarrow> AuthorityError + unit" where
  "check_observation_live now s =
     (if sa_phase s \<notin> {ViewOpening, Viewing} then Inl (InvalidState (sa_phase s))
      else if is_some_and (\<lambda>until. now < until) (sa_observation_until s) then Inr ()
      else Inl ObservationExpired)"

definition future_deadline :: "HostInstant \<Rightarrow> HostDuration \<Rightarrow> AuthorityError + HostInstant" where
  "future_deadline now lifetime =
     (case instant_checked_add now lifetime of
        None \<Rightarrow> Inl DeadlineOverflow
      | Some deadline \<Rightarrow> if now < deadline then Inr deadline else Inl DeadlineOverflow)"

definition deadline_from :: "HostInstant \<Rightarrow> SessionAuthority \<Rightarrow> AuthorityError + HostInstant" where
  "deadline_from now s = future_deadline now (authorization_lifetime (sa_policy s))"

definition check_challenge_slot :: "Challenge option \<Rightarrow> HostInstant \<Rightarrow> AuthorityError + unit" where
  "check_challenge_slot challenge now =
     (if is_some_and (\<lambda>pending. now < ch_deadline pending) challenge
      then Inl ChallengePending else Inr ())"

definition consume_challenge ::
  "Challenge option \<Rightarrow> u128 \<Rightarrow> HostInstant \<Rightarrow> (AuthorityError + Challenge) \<times> Challenge option" where
  "consume_challenge slot nonce now =
     (case slot of
        None \<Rightarrow> (Inl ChallengeMismatch, slot)
      | Some challenge \<Rightarrow>
          if ch_nonce challenge \<noteq> nonce then (Inl ChallengeMismatch, slot)
          else if ch_deadline challenge \<le> now then (Inl ChallengeExpired, None)
          else (Inr challenge, None))"

definition serialized_time :: "HostInstant \<Rightarrow> SessionAuthority \<Rightarrow> HostInstant" where
  "serialized_time sampled s =
     (case sa_last_checked s of None \<Rightarrow> sampled | Some latest \<Rightarrow> max latest sampled)"

definition lease_id :: "SessionAuthority \<Rightarrow> InputLeaseId option" where
  "lease_id s = map_option le_id (sa_lease s)"

text \<open>A pure check that fails returns early and leaves the state as it is.\<close>

definition need :: "AuthorityError + 'a \<Rightarrow> SessionAuthority \<Rightarrow> 'a authority_result" where
  "need r s = (r, s)"

definition live_at :: "HostInstant \<Rightarrow> SessionAuthority \<Rightarrow> unit authority_result" where
  "live_at now s = try_then (check_time now s) (\<lambda>_ s. need (check_observation_live now s) s)"

section \<open>Lifecycle, observation and view\<close>

definition mark_capabilities_checked :: "SessionAuthority \<Rightarrow> unit authority_result" where
  "mark_capabilities_checked s =
     (if sa_phase s \<noteq> Identified then (Inl (InvalidState (sa_phase s)), s)
      else (Inr (), s\<lparr>sa_phase := CapabilitiesChecked\<rparr>))"

definition require_approval :: "SessionAuthority \<Rightarrow> unit authority_result" where
  "require_approval s =
     (if sa_phase s \<noteq> CapabilitiesChecked then (Inl (InvalidState (sa_phase s)), s)
      else (Inr (), s\<lparr>sa_phase := WaitingApproval\<rparr>))"

definition authorize_observation :: "HostInstant \<Rightarrow> SessionAuthority \<Rightarrow> unit authority_result" where
  "authorize_observation now s =
     try_then (check_time now s) (\<lambda>_ s.
     if sa_phase s \<notin> {CapabilitiesChecked, WaitingApproval}
     then (Inl (InvalidState (sa_phase s)), s)
     else try_then (need (deadline_from now s) s) (\<lambda>until s.
     (Inr (), (clear_authority s)\<lparr>sa_observation_until := Some until, sa_phase := ViewOpening\<rparr>)))"

definition authorize_observation_delivery :: "HostInstant \<Rightarrow> SessionAuthority \<Rightarrow> unit authority_result" where
  "authorize_observation_delivery now s = live_at now s"

definition observation_deadline :: "HostInstant \<Rightarrow> SessionAuthority \<Rightarrow> HostInstant authority_result" where
  "observation_deadline now s =
     try_then (authorize_observation_delivery now s) (\<lambda>_ s.
     need (ok_or ObservationExpired (sa_observation_until s)) s)"

definition mark_view_ready :: "HostInstant \<Rightarrow> SessionAuthority \<Rightarrow> unit authority_result" where
  "mark_view_ready now s =
     try_then (live_at now (s\<lparr>sa_presented_sequence := None\<rparr>)) (\<lambda>_ s.
     if sa_bounded_view s then (Inl ViewUnready, s)
     else (Inr (), s\<lparr>sa_phase := Viewing, sa_readiness := Ready\<rparr>))"

definition require_view_evidence :: "HostInstant \<Rightarrow> SessionAuthority \<Rightarrow> unit authority_result" where
  "require_view_evidence now s =
     try_then (live_at now s) (\<lambda>_ s.
     if is_some (sa_lease s) \<and> \<not> sa_bounded_view s then (Inl ControllerBusy, s)
     else (Inr (), mark_view_stale (s\<lparr>sa_bounded_view := True\<rparr>)))"

text \<open>The suspension and readiness tests of \<open>mark_view_ready_until\<close> before it revives a view.\<close>

definition revival_check :: "HostInstant \<Rightarrow> SessionAuthority \<Rightarrow> AuthorityError + unit" where
  "revival_check now s =
     (case sa_suspension s of
        Some suspension \<Rightarrow>
          (case instant_checked_add (su_since suspension) MAX_VIEW_SUSPENSION of
             None \<Rightarrow> Inl DeadlineOverflow
           | Some limit \<Rightarrow>
               if limit \<le> now then Inl ViewUnready
               else if \<not> su_released suspension then Inl ReleasePending
               else Inr ())
      | None \<Rightarrow>
          if sa_bounded_view s \<and> sa_readiness s \<noteq> Ready \<and> is_some (sa_lease s)
          then Inl ViewUnready else Inr ())"

definition mark_view_ready_until ::
  "HostInstant \<Rightarrow> HostInstant \<Rightarrow> SessionAuthority \<Rightarrow> unit authority_result" where
  "mark_view_ready_until until now s =
     try_then (live_at now (s\<lparr>sa_presented_sequence := None\<rparr>)) (\<lambda>_ s.
     if until \<le> now then (Inl ViewUnready, s)
     else try_then (need (revival_check now s) s) (\<lambda>_ s.
     if is_some_and (\<lambda>previous. until < previous) (sa_view_until s) then (Inl ViewUnready, s)
     else (Inr (), s\<lparr>sa_suspension := None, sa_bounded_view := True,
                     sa_view_until := Some until, sa_phase := Viewing, sa_readiness := Ready\<rparr>)))"

definition mark_presented_ready_until ::
  "u64 \<Rightarrow> HostInstant \<Rightarrow> HostInstant \<Rightarrow> SessionAuthority \<Rightarrow> unit authority_result" where
  "mark_presented_ready_until sequence until now s =
     try_then (mark_view_ready_until until now s) (\<lambda>_ s.
     (Inr (), s\<lparr>sa_presented_sequence := Some sequence\<rparr>))"

definition advance_recovery :: "RecoveryGeneration \<Rightarrow> SessionAuthority \<Rightarrow> unit authority_result" where
  "advance_recovery generation s =
     (if sa_readiness s = Ready then (Inl (InvalidState (sa_phase s)), s)
      else if is_some_and (\<lambda>current. \<not> supersedes generation current) (sa_recovery s)
      then (Inl StaleGeneration, s)
      else (Inr (), s\<lparr>sa_recovery := Some generation, sa_presented_sequence := None,
                      sa_lease := map_option clear_tickets (sa_lease s)\<rparr>))"

definition confirm_suspension_release :: "InputLeaseId \<Rightarrow> SessionAuthority \<Rightarrow> unit authority_result" where
  "confirm_suspension_release lease s =
     (if lease_id s \<noteq> Some lease then (Inl StaleLease, s)
      else (Inr (), s\<lparr>sa_suspension :=
              map_option (\<lambda>suspension. suspension\<lparr>su_released := True\<rparr>) (sa_suspension s)\<rparr>))"

section \<open>Control status\<close>

definition control_status :: "HostInstant \<Rightarrow> SessionAuthority \<Rightarrow> ControlStatus authority_result" where
  "control_status sampled s =
     (if sa_clock_faulted s then (Inl ClockRegression, s)
      else let now = serialized_time sampled s; s = lapse_passed_view now s in
      try_then (need (check_observation_live now s) s) (\<lambda>_ s.
      try_then (need (ok_or NoLease (sa_lease s)) s) (\<lambda>lease s.
      try_then (need (ok_or ObservationExpired (sa_observation_until s)) s) (\<lambda>observation s.
      let lease_until = min (le_authorized_until lease) observation in
      if lease_until \<le> now then (Inl LeaseExpired, s)
      else if sa_phase s = Viewing \<and> sa_readiness s = Ready
      then (Inr (Live (case sa_view_until s of None \<Rightarrow> lease_until | Some view \<Rightarrow> min lease_until view)), s)
      else try_then (need (ok_or ViewUnready (sa_suspension s)) s) (\<lambda>suspension s.
      try_then (need (ok_or DeadlineOverflow
                       (instant_checked_add (su_since suspension) MAX_VIEW_SUSPENSION)) s) (\<lambda>limit s.
      if limit \<le> now then (Inl ViewUnready, s)
      else (Inr (Suspended (min lease_until limit) (su_released suspension)), s)))))))"

section \<open>Challenges and the lease\<close>

definition issue_observation_challenge ::
  "u128 \<Rightarrow> HostInstant \<Rightarrow> SessionAuthority \<Rightarrow> HostInstant authority_result" where
  "issue_observation_challenge nonce now s =
     try_then (live_at now s) (\<lambda>_ s.
     try_then (need (check_challenge_slot (sa_observation_challenge s) now) s) (\<lambda>_ s.
     try_then (need (deadline_from now s) s) (\<lambda>deadline s.
     (Inr deadline, s\<lparr>sa_observation_challenge :=
                       Some \<lparr>ch_nonce = nonce, ch_deadline = deadline\<rparr>\<rparr>))))"

definition respond_observation_challenge ::
  "u128 \<Rightarrow> HostInstant \<Rightarrow> SessionAuthority \<Rightarrow> HostInstant authority_result" where
  "respond_observation_challenge nonce now s =
     try_then (live_at now s) (\<lambda>_ s.
     case consume_challenge (sa_observation_challenge s) nonce now of
       (Inl e, slot) \<Rightarrow> (Inl e, s\<lparr>sa_observation_challenge := slot\<rparr>)
     | (Inr challenge, slot) \<Rightarrow>
         (Inr (ch_deadline challenge),
          s\<lparr>sa_observation_challenge := slot, sa_observation_until := Some (ch_deadline challenge)\<rparr>))"

definition grant_lease :: "InputLeaseId \<Rightarrow> HostInstant \<Rightarrow> SessionAuthority \<Rightarrow> unit authority_result" where
  "grant_lease lease now s =
     try_then (live_at now s) (\<lambda>_ s.
     if sa_phase s \<noteq> Viewing then (Inl (InvalidState (sa_phase s)), s)
     else if sa_readiness s \<noteq> Ready then (Inl ViewUnready, s)
     else case sa_lease s of
       Some existing \<Rightarrow>
         (Inl (if now < le_authorized_until existing then ControllerBusy
               else ControllerCleanupRequired), s)
     | None \<Rightarrow>
         try_then (need (deadline_from now s) s) (\<lambda>until s.
         (Inr (), s\<lparr>sa_lease := Some \<lparr>le_id = lease, le_authorized_until = until,
                                     le_tickets = replicate MAX_LIVE_INPUT_TICKETS None\<rparr>,
                    sa_control_challenge := None\<rparr>)))"

definition issue_control_challenge ::
  "u128 \<Rightarrow> HostInstant \<Rightarrow> SessionAuthority \<Rightarrow> HostInstant authority_result" where
  "issue_control_challenge nonce now s =
     try_then (live_at now s) (\<lambda>_ s.
     try_then (need (ok_or NoLease (sa_lease s)) s) (\<lambda>lease s.
     if le_authorized_until lease \<le> now then (Inl LeaseExpired, s)
     else try_then (need (check_challenge_slot (sa_control_challenge s) now) s) (\<lambda>_ s.
     try_then (need (deadline_from now s) s) (\<lambda>deadline s.
     (Inr deadline, s\<lparr>sa_control_challenge :=
                       Some \<lparr>ch_nonce = nonce, ch_deadline = deadline\<rparr>\<rparr>)))))"

definition respond_control_challenge ::
  "InputLeaseId \<Rightarrow> u128 \<Rightarrow> HostInstant \<Rightarrow> SessionAuthority \<Rightarrow> HostInstant authority_result" where
  "respond_control_challenge lease_name nonce now s =
     try_then (live_at now s) (\<lambda>_ s.
     try_then (need (ok_or NoLease (sa_lease s)) s) (\<lambda>lease s.
     if le_id lease \<noteq> lease_name then (Inl StaleLease, s)
     else if le_authorized_until lease \<le> now
     then (Inl LeaseExpired, s\<lparr>sa_control_challenge := None\<rparr>)
     else case consume_challenge (sa_control_challenge s) nonce now of
       (Inl e, slot) \<Rightarrow> (Inl e, s\<lparr>sa_control_challenge := slot\<rparr>)
     | (Inr challenge, slot) \<Rightarrow>
         (Inr (ch_deadline challenge),
          s\<lparr>sa_control_challenge := slot,
            sa_lease := Some (lease\<lparr>le_authorized_until := ch_deadline challenge\<rparr>)\<rparr>)))"

definition revoke_lease :: "SessionAuthority \<Rightarrow> SessionAuthority" where
  "revoke_lease s = s\<lparr>sa_lease := None, sa_suspension := None, sa_native_owner := None,
                      sa_control_challenge := None, sa_presented_sequence := None\<rparr>"

section \<open>Tickets and submission\<close>

definition issue_ticket_checked ::
  "InputLeaseId \<Rightarrow> InputTicketId \<Rightarrow> HostInstant \<Rightarrow> bool \<Rightarrow> SessionAuthority \<Rightarrow> HostInstant authority_result" where
  "issue_ticket_checked lease_name ticket now require_presented s =
     try_then (live_at now s) (\<lambda>_ s.
     if sa_readiness s \<noteq> Ready \<or> (require_presented \<and> \<not> is_some (sa_presented_sequence s))
     then (Inl ViewUnready, s)
     else try_then (need (ok_or NoLease (sa_lease s)) s) (\<lambda>lease s.
     if le_id lease \<noteq> lease_name then (Inl StaleLease, s)
     else if le_authorized_until lease \<le> now then (Inl LeaseExpired, s)
     else if id_raw ticket = 0 \<or> (\<exists>t \<in> set (flatten (le_tickets lease)). tk_id t = ticket)
     then (Inl TicketInvalid, s)
     else try_then (need (future_deadline now (ticket_lifetime (sa_policy s))) s) (\<lambda>uncapped s.
     try_then (need (ok_or ObservationExpired (sa_observation_until s)) s) (\<lambda>observation s.
     let expires_at = min (min uncapped (le_authorized_until lease)) observation in
     case position (is_none_or (\<lambda>t. tk_expires_at t \<le> now)) (le_tickets lease) of
       None \<Rightarrow> (Inl TicketCapacity, s)
     | Some slot \<Rightarrow>
         (Inr expires_at,
          s\<lparr>sa_lease := Some (lease\<lparr>le_tickets :=
             (le_tickets lease)[slot := Some \<lparr>tk_id = ticket, tk_expires_at = expires_at\<rparr>]\<rparr>)\<rparr>)))))"

definition issue_input_ticket ::
  "InputLeaseId \<Rightarrow> InputTicketId \<Rightarrow> HostInstant \<Rightarrow> SessionAuthority \<Rightarrow> HostInstant authority_result" where
  "issue_input_ticket lease ticket now s = issue_ticket_checked lease ticket now False s"

definition issue_presented_input_ticket ::
  "InputLeaseId \<Rightarrow> InputTicketId \<Rightarrow> HostInstant \<Rightarrow> SessionAuthority \<Rightarrow> HostInstant authority_result" where
  "issue_presented_input_ticket lease ticket now s = issue_ticket_checked lease ticket now True s"

definition invalidate_input_tickets :: "InputLeaseId \<Rightarrow> SessionAuthority \<Rightarrow> unit authority_result" where
  "invalidate_input_tickets lease_name s =
     try_then (need (ok_or NoLease (sa_lease s)) s) (\<lambda>lease s.
     if le_id lease \<noteq> lease_name then (Inl StaleLease, s)
     else (Inr (), s\<lparr>sa_lease := Some (clear_tickets lease)\<rparr>))"

definition find_ticket :: "InputTicketId \<Rightarrow> Lease \<Rightarrow> Ticket option" where
  "find_ticket ticket lease = find (\<lambda>t. tk_id t = ticket) (flatten (le_tickets lease))"

definition authorize_submission ::
  "InputLeaseId \<Rightarrow> InputTicketId \<Rightarrow> HostInstant \<Rightarrow> SessionAuthority \<Rightarrow> unit authority_result" where
  "authorize_submission lease_name ticket now s =
     try_then (check_time now s) (\<lambda>_ s.
     if sa_phase s \<noteq> Viewing then (Inl (InvalidState (sa_phase s)), s)
     else try_then (need (check_observation_live now s) s) (\<lambda>_ s.
     if sa_readiness s \<noteq> Ready then (Inl ViewUnready, s)
     else try_then (need (ok_or NoLease (sa_lease s)) s) (\<lambda>lease s.
     if le_id lease \<noteq> lease_name then (Inl StaleLease, s)
     else if le_authorized_until lease \<le> now then (Inl LeaseExpired, s)
     else try_then (need (ok_or TicketInvalid (find_ticket ticket lease)) s) (\<lambda>t s.
     if tk_expires_at t \<le> now then (Inl TicketExpired, s) else (Inr (), s)))))"

definition submission_deadline ::
  "InputLeaseId \<Rightarrow> InputTicketId \<Rightarrow> HostInstant \<Rightarrow> SessionAuthority \<Rightarrow> HostInstant authority_result" where
  "submission_deadline lease_name ticket now s =
     try_then (authorize_submission lease_name ticket now s) (\<lambda>_ s.
     try_then (need (ok_or NoLease (sa_lease s)) s) (\<lambda>lease s.
     try_then (need (ok_or TicketInvalid (find_ticket ticket lease)) s) (\<lambda>t s.
     try_then (need (ok_or ObservationExpired (sa_observation_until s)) s) (\<lambda>observation s.
     let until = min (min (tk_expires_at t) (le_authorized_until lease)) observation in
     (Inr (case sa_view_until s of None \<Rightarrow> until | Some view \<Rightarrow> min until view), s)))))"

definition has_live_control :: "HostInstant \<Rightarrow> SessionAuthority \<Rightarrow> bool \<times> SessionAuthority" where
  "has_live_control now s =
     (let (r, s) = check_time now s in
      (is_ok r \<and> is_ok (check_observation_live now s) \<and> sa_phase s = Viewing \<and> sa_readiness s = Ready
         \<and> is_some_and (\<lambda>lease. now < le_authorized_until lease) (sa_lease s), s))"

definition lease_deadline :: "SessionAuthority \<Rightarrow> AuthorityError + HostInstant" where
  "lease_deadline s =
     (if sa_phase s \<noteq> Viewing \<or> sa_readiness s \<noteq> Ready then Inl ViewUnready
      else try_res (ok_or ObservationExpired (sa_observation_until s)) (\<lambda>observation.
      try_res (ok_or NoLease (sa_lease s)) (\<lambda>lease.
      Inr (min (le_authorized_until lease) observation))))"

definition control_deadline :: "SessionAuthority \<Rightarrow> AuthorityError + HostInstant" where
  "control_deadline s =
     try_res (lease_deadline s) (\<lambda>until.
     Inr (case sa_view_until s of None \<Rightarrow> until | Some view \<Rightarrow> min until view))"

definition expire_tickets :: "HostInstant \<Rightarrow> Lease \<Rightarrow> Lease" where
  "expire_tickets now lease = lease\<lparr>le_tickets :=
     map (\<lambda>t. if is_some_and (\<lambda>t. tk_expires_at t \<le> now) t then None else t) (le_tickets lease)\<rparr>"

definition drop_expired_challenge :: "HostInstant \<Rightarrow> Challenge option \<Rightarrow> Challenge option" where
  "drop_expired_challenge now c = (if is_some_and (\<lambda>c. ch_deadline c \<le> now) c then None else c)"

text \<open>The four expiry blocks of \<open>apply_resume_boundary\<close>, in its order.\<close>

definition drop_passed_observation :: "HostInstant \<Rightarrow> SessionAuthority \<Rightarrow> SessionAuthority" where
  "drop_passed_observation now s =
     (if is_some_and (\<lambda>until. until \<le> now) (sa_observation_until s) then drop_observation s else s)"

definition drop_expired_challenges :: "HostInstant \<Rightarrow> SessionAuthority \<Rightarrow> SessionAuthority" where
  "drop_expired_challenges now s = s\<lparr>
     sa_observation_challenge := drop_expired_challenge now (sa_observation_challenge s),
     sa_control_challenge := drop_expired_challenge now (sa_control_challenge s)\<rparr>"

definition revoke_expired_lease :: "HostInstant \<Rightarrow> SessionAuthority \<Rightarrow> SessionAuthority" where
  "revoke_expired_lease now s =
     (if is_some_and (\<lambda>lease. le_authorized_until lease \<le> now) (sa_lease s) then revoke_lease s else s)"

definition expire_lease_tickets :: "HostInstant \<Rightarrow> SessionAuthority \<Rightarrow> SessionAuthority" where
  "expire_lease_tickets now s = s\<lparr>sa_lease := map_option (expire_tickets now) (sa_lease s)\<rparr>"

definition apply_resume_boundary :: "HostInstant \<Rightarrow> SessionAuthority \<Rightarrow> bool \<times> SessionAuthority" where
  "apply_resume_boundary now s =
     (case check_time now s of
        (Inl _, s) \<Rightarrow> (False, s)
      | (Inr _, s) \<Rightarrow>
          has_live_control now
            (expire_lease_tickets now
              (revoke_expired_lease now
                (drop_expired_challenges now
                  (drop_passed_observation now s)))))"

definition claim_native_owner :: "InputLeaseId \<Rightarrow> nat \<Rightarrow> SessionAuthority \<Rightarrow> nat authority_result" where
  "claim_native_owner lease address s =
     (if lease_id s \<noteq> Some lease then (Inl StaleLease, s)
      else if is_some (sa_native_owner s) then (Inl ControllerBusy, s)
      else (Inr address, s\<lparr>sa_native_owner := Some address\<rparr>))"

definition is_native_owner :: "nat \<Rightarrow> SessionAuthority \<Rightarrow> bool" where
  "is_native_owner owner s = (sa_native_owner s = Some owner)"

end
