(* ===== verification/Authority_Safety.thy ===== *)
theory Authority_Safety
  imports Authority
begin

text \<open>
  The invariant of the session authority. An operation is a value of \<open>authority_op\<close>, one
  constructor per public method, and \<open>authority_step\<close> applies it. Every operation is a
  sequence of a few guarded state changes; \<open>effect\<close> lists them, \<open>step_effects\<close> shows it,
  and a property of all operations is then proved change by change. The invariant has a
  shape part (which fields can be set together) and a deadline part (no deadline lies
  further than one lifetime beyond the latest checked clock sample, and a pending
  challenge only extends what it renews).
\<close>

section \<open>Operations and steps\<close>

datatype (plugins only: size code) authority_op =
    OpMarkCapabilitiesChecked
  | OpRequireApproval
  | OpAuthorizeObservation HostInstant
  | OpAuthorizeObservationDelivery HostInstant
  | OpObservationDeadline HostInstant
  | OpMarkViewReady HostInstant
  | OpRequireViewEvidence HostInstant
  | OpMarkViewReadyUntil HostInstant HostInstant
  | OpMarkPresentedReadyUntil u64 HostInstant HostInstant
  | OpMarkViewStale
  | OpAdvanceRecovery RecoveryGeneration
  | OpConfirmSuspensionRelease InputLeaseId
  | OpControlStatus HostInstant
  | OpIssueObservationChallenge u128 HostInstant
  | OpRespondObservationChallenge u128 HostInstant
  | OpGrantLease InputLeaseId HostInstant
  | OpIssueControlChallenge u128 HostInstant
  | OpRespondControlChallenge InputLeaseId u128 HostInstant
  | OpIssueInputTicket InputLeaseId InputTicketId HostInstant
  | OpIssuePresentedInputTicket InputLeaseId InputTicketId HostInstant
  | OpInvalidateInputTickets InputLeaseId
  | OpAuthorizeSubmission InputLeaseId InputTicketId HostInstant
  | OpSubmissionDeadline InputLeaseId InputTicketId HostInstant
  | OpRevokeLease
  | OpHasLiveControl HostInstant
  | OpApplyResumeBoundary HostInstant
  | OpInvalidateForSuspend
  | OpClose
  | OpRefuse
  | OpClaimNativeOwner InputLeaseId nat

fun authority_step :: "authority_op \<Rightarrow> SessionAuthority \<Rightarrow> SessionAuthority" where
  "authority_step OpMarkCapabilitiesChecked s = snd (mark_capabilities_checked s)"
| "authority_step OpRequireApproval s = snd (require_approval s)"
| "authority_step (OpAuthorizeObservation now) s = snd (authorize_observation now s)"
| "authority_step (OpAuthorizeObservationDelivery now) s = snd (authorize_observation_delivery now s)"
| "authority_step (OpObservationDeadline now) s = snd (observation_deadline now s)"
| "authority_step (OpMarkViewReady now) s = snd (mark_view_ready now s)"
| "authority_step (OpRequireViewEvidence now) s = snd (require_view_evidence now s)"
| "authority_step (OpMarkViewReadyUntil until now) s = snd (mark_view_ready_until until now s)"
| "authority_step (OpMarkPresentedReadyUntil q until now) s = snd (mark_presented_ready_until q until now s)"
| "authority_step OpMarkViewStale s = mark_view_stale s"
| "authority_step (OpAdvanceRecovery g) s = snd (advance_recovery g s)"
| "authority_step (OpConfirmSuspensionRelease l) s = snd (confirm_suspension_release l s)"
| "authority_step (OpControlStatus now) s = snd (control_status now s)"
| "authority_step (OpIssueObservationChallenge n now) s = snd (issue_observation_challenge n now s)"
| "authority_step (OpRespondObservationChallenge n now) s = snd (respond_observation_challenge n now s)"
| "authority_step (OpGrantLease l now) s = snd (grant_lease l now s)"
| "authority_step (OpIssueControlChallenge n now) s = snd (issue_control_challenge n now s)"
| "authority_step (OpRespondControlChallenge l n now) s = snd (respond_control_challenge l n now s)"
| "authority_step (OpIssueInputTicket l t now) s = snd (issue_input_ticket l t now s)"
| "authority_step (OpIssuePresentedInputTicket l t now) s = snd (issue_presented_input_ticket l t now s)"
| "authority_step (OpInvalidateInputTickets l) s = snd (invalidate_input_tickets l s)"
| "authority_step (OpAuthorizeSubmission l t now) s = snd (authorize_submission l t now s)"
| "authority_step (OpSubmissionDeadline l t now) s = snd (submission_deadline l t now s)"
| "authority_step OpRevokeLease s = revoke_lease s"
| "authority_step (OpHasLiveControl now) s = snd (has_live_control now s)"
| "authority_step (OpApplyResumeBoundary now) s = snd (apply_resume_boundary now s)"
| "authority_step OpInvalidateForSuspend s = invalidate_for_suspend s"
| "authority_step OpClose s = close s"
| "authority_step OpRefuse s = refuse s"
| "authority_step (OpClaimNativeOwner l a) s = snd (claim_native_owner l a s)"

lemma try_need [simp]:
  "try_then (need r s) k = (case r of Inl e \<Rightarrow> (Inl e, s) | Inr x \<Rightarrow> k x s)"
  by (simp add: need_def try_then_def)

section \<open>Clock checks\<close>

lemma clear_tickets_simps [simp]:
  "le_id (clear_tickets l) = le_id l"
  "le_authorized_until (clear_tickets l) = le_authorized_until l"
  "flatten (le_tickets (clear_tickets l)) = []"
  by (simp_all add: clear_tickets_def)

lemma lapse_view_simps [simp]:
  "sa_session (lapse_view at s) = sa_session s"
  "sa_policy (lapse_view at s) = sa_policy s"
  "sa_phase (lapse_view at s) = sa_phase s"
  "sa_observation_until (lapse_view at s) = sa_observation_until s"
  "sa_view_until (lapse_view at s) = None"
  "sa_presented_sequence (lapse_view at s) = None"
  "sa_readiness (lapse_view at s) = (if sa_readiness s = Ready then Stale else sa_readiness s)"
  "sa_bounded_view (lapse_view at s) = sa_bounded_view s"
  "sa_lease (lapse_view at s) = map_option clear_tickets (sa_lease s)"
  "sa_recovery (lapse_view at s) = sa_recovery s"
  "sa_native_owner (lapse_view at s) = sa_native_owner s"
  "sa_observation_challenge (lapse_view at s) = sa_observation_challenge s"
  "sa_control_challenge (lapse_view at s) = sa_control_challenge s"
  "sa_last_checked (lapse_view at s) = sa_last_checked s"
  "sa_clock_faulted (lapse_view at s) = sa_clock_faulted s"
  by (auto simp: lapse_view_def Let_def)

lemma lapse_passed_view_simps [simp]:
  "sa_session (lapse_passed_view now s) = sa_session s"
  "sa_policy (lapse_passed_view now s) = sa_policy s"
  "sa_phase (lapse_passed_view now s) = sa_phase s"
  "sa_observation_until (lapse_passed_view now s) = sa_observation_until s"
  "sa_bounded_view (lapse_passed_view now s) = sa_bounded_view s"
  "sa_recovery (lapse_passed_view now s) = sa_recovery s"
  "sa_native_owner (lapse_passed_view now s) = sa_native_owner s"
  "sa_observation_challenge (lapse_passed_view now s) = sa_observation_challenge s"
  "sa_control_challenge (lapse_passed_view now s) = sa_control_challenge s"
  "sa_last_checked (lapse_passed_view now s) = sa_last_checked s"
  "sa_clock_faulted (lapse_passed_view now s) = sa_clock_faulted s"
  by (simp_all add: lapse_passed_view_def split: option.split)

text \<open>A successful clock check leaves no view deadline at or before the sample.\<close>

lemma lapse_passed_view_until:
  "sa_view_until (lapse_passed_view now s) = Some v \<Longrightarrow> now < v"
  by (auto simp: lapse_passed_view_def passed_view_deadline_def split: option.splits if_splits)

lemma check_time_InrD:
  assumes "check_time now s = (Inr u, t)"
  shows "sa_last_checked t = Some now" "\<not> sa_clock_faulted t" "\<not> sa_clock_faulted s"
    "t = lapse_passed_view now (s\<lparr>sa_last_checked := Some now\<rparr>)"
    "\<forall>p. sa_last_checked s = Some p \<longrightarrow> p \<le> now"
  using assms by (auto simp: check_time_def split: if_splits)

lemma live_at_InrD:
  assumes "live_at now s = (Inr u, t)"
  shows "check_time now s = (Inr (), t)" "sa_phase t \<in> {ViewOpening, Viewing}"
    "\<exists>o_until. sa_observation_until t = Some o_until \<and> now < o_until"
proof -
  show "check_time now s = (Inr (), t)"
    using assms by (auto simp: live_at_def need_def split: try_then_splits)
  show "sa_phase t \<in> {ViewOpening, Viewing}"
    "\<exists>o_until. sa_observation_until t = Some o_until \<and> now < o_until"
    using assms
    by (auto simp: live_at_def need_def check_observation_live_def is_some_and_def
        split: try_then_splits if_splits option.splits)
qed

lemma live_facts:
  assumes "live_at now s = (Inr u, t)"
  shows "\<not> sa_clock_faulted t \<and> sa_last_checked t = Some now
    \<and> (sa_phase t = ViewOpening \<or> sa_phase t = Viewing)
    \<and> (\<exists>o_until. sa_observation_until t = Some o_until \<and> now < o_until)"
  using live_at_InrD [OF assms] check_time_InrD [OF live_at_InrD(1) [OF assms]] by auto

text \<open>A property that a clock check keeps is kept by every operation that starts with one.\<close>

locale clocked =
  fixes P :: "SessionAuthority \<Rightarrow> bool"
  assumes check_time_keeps: "P s \<Longrightarrow> P (snd (check_time now s))"
begin

lemma live_at_keeps: "P s \<Longrightarrow> P (snd (live_at now s))"
  unfolding live_at_def
  by (rule try_then_keeps [where P = P]) (auto simp: need_def intro: check_time_keeps)

lemma after_live:
  assumes "P s" and "\<And>t. P t \<Longrightarrow> live_at now s = (Inr (), t) \<Longrightarrow> P (snd (k () t))"
  shows "P (snd (try_then (live_at now s) k))"
  by (rule try_then_keeps [where P = P]) (auto intro: live_at_keeps assms)

end

text \<open>Submission checks only read, once the clock sample has been taken.\<close>

lemma authorize_submission_state:
  "snd (authorize_submission l k now s) = snd (check_time now s)"
  by (cases "check_time now s"; cases "fst (check_time now s)")
    (simp_all add: authorize_submission_def split: sum.split)

lemma submission_deadline_state:
  "snd (submission_deadline l k now s) = snd (check_time now s)"
  unfolding authorize_submission_state [of l k, symmetric]
  by (cases "authorize_submission l k now s"; cases "fst (authorize_submission l k now s)")
    (simp_all add: submission_deadline_def Let_def split: sum.split)

lemma has_live_control_state: "snd (has_live_control now s) = snd (check_time now s)"
  by (simp add: has_live_control_def split: prod.split)

lemma control_status_state:
  "snd (control_status sampled s) =
     (if sa_clock_faulted s then s else lapse_passed_view (serialized_time sampled s) s)"
  by (simp add: control_status_def Let_def split: sum.split)

lemma consume_challenge_InrD:
  "consume_challenge slot nonce now = (Inr c, slot') \<Longrightarrow>
     slot = Some c \<and> ch_nonce c = nonce \<and> now < ch_deadline c \<and> slot' = None"
  by (auto simp: consume_challenge_def split: option.splits if_splits)

lemma consume_challenge_InlD:
  "consume_challenge slot nonce now = (Inl e, slot') \<Longrightarrow> slot' = slot \<or> slot' = None"
  by (auto simp: consume_challenge_def split: option.splits if_splits)

section \<open>Effects\<close>

inductive effect :: "authority_op \<Rightarrow> SessionAuthority \<Rightarrow> SessionAuthority \<Rightarrow> bool" for x where
  tick: "effect x s (s\<lparr>sa_last_checked := Some now\<rparr>)"
    if "\<not> sa_clock_faulted s" "\<forall>p. sa_last_checked s = Some p \<longrightarrow> p \<le> now"
| fault: "effect x s (close (s\<lparr>sa_clock_faulted := True\<rparr>))"
| lapse: "effect x s (lapse_view at s)"
| close: "effect x s (close s)"
| refuse: "effect x s (refuse s)"
| drop: "effect x s (drop_observation s)"
| revoke: "effect x s (revoke_lease s)"
| checked: "effect x s (s\<lparr>sa_phase := CapabilitiesChecked\<rparr>)" if "sa_phase s = Identified"
| approval: "effect x s (s\<lparr>sa_phase := WaitingApproval\<rparr>)" if "sa_phase s = CapabilitiesChecked"
| observe: "effect x s ((clear_authority s)\<lparr>sa_observation_until := Some until, sa_phase := ViewOpening\<rparr>)"
    if "x = OpAuthorizeObservation now" "sa_last_checked s = Some now" "\<not> sa_clock_faulted s"
      "sa_phase s \<in> {CapabilitiesChecked, WaitingApproval}" "deadline_from now s = Inr until"
| unpresent: "effect x s (s\<lparr>sa_presented_sequence := None\<rparr>)"
| ready: "effect x s (s\<lparr>sa_phase := Viewing, sa_readiness := Ready\<rparr>)"
    if "x = OpMarkViewReady now" "sa_phase s \<in> {ViewOpening, Viewing}" "\<not> sa_bounded_view s"
| bounded: "effect x s (s\<lparr>sa_bounded_view := True\<rparr>)" if "is_some (sa_lease s) \<longrightarrow> sa_bounded_view s"
| revive: "effect x s (s\<lparr>sa_suspension := None, sa_bounded_view := True,
      sa_view_until := Some until, sa_phase := Viewing, sa_readiness := Ready\<rparr>)"
    if "x = OpMarkViewReadyUntil until now \<or> x = OpMarkPresentedReadyUntil q until now"
      "sa_phase s \<in> {ViewOpening, Viewing}" "revival_check now s = Inr ()"
| present: "effect x s (s\<lparr>sa_presented_sequence := Some q\<rparr>)" if "sa_readiness s = Ready"
| recover: "effect x s (s\<lparr>sa_recovery := Some g, sa_presented_sequence := None,
      sa_lease := map_option clear_tickets (sa_lease s)\<rparr>)"
    if "sa_readiness s \<noteq> Ready" "\<forall>h. sa_recovery s = Some h \<longrightarrow> supersedes g h"
| release: "effect x s (s\<lparr>sa_suspension :=
      map_option (\<lambda>suspension. suspension\<lparr>su_released := True\<rparr>) (sa_suspension s)\<rparr>)"
    if "x = OpConfirmSuspensionRelease l" "lease_id s = Some l"
| observation_challenge: "effect x s (s\<lparr>sa_observation_challenge := Some c\<rparr>)"
    if "x = OpIssueObservationChallenge n now" "sa_last_checked s = Some now"
      "sa_phase s \<in> {ViewOpening, Viewing}" "deadline_from now s = Inr (ch_deadline c)"
| observation_unchallenged: "effect x s (s\<lparr>sa_observation_challenge := None\<rparr>)"
| observation_renewed: "effect x s (s\<lparr>sa_observation_challenge := None,
      sa_observation_until := Some (ch_deadline c)\<rparr>)"
    if "sa_observation_challenge s = Some c" "is_some (sa_observation_until s)"
| grant: "effect x s (s\<lparr>sa_lease := Some \<lparr>le_id = l, le_authorized_until = until,
      le_tickets = replicate MAX_LIVE_INPUT_TICKETS None\<rparr>, sa_control_challenge := None\<rparr>)"
    if "x = OpGrantLease l now" "sa_last_checked s = Some now" "sa_phase s = Viewing"
      "sa_readiness s = Ready" "sa_lease s = None" "deadline_from now s = Inr until"
| control_challenge: "effect x s (s\<lparr>sa_control_challenge := Some c\<rparr>)"
    if "x = OpIssueControlChallenge n now" "sa_last_checked s = Some now" "is_some (sa_lease s)"
      "deadline_from now s = Inr (ch_deadline c)"
| control_unchallenged: "effect x s (s\<lparr>sa_control_challenge := None\<rparr>)"
| control_renewed: "effect x s (s\<lparr>sa_control_challenge := None,
      sa_lease := Some (lease\<lparr>le_authorized_until := ch_deadline c\<rparr>)\<rparr>)"
    if "x = OpRespondControlChallenge l n now" "sa_lease s = Some lease" "sa_control_challenge s = Some c"
| ticket: "effect x s (s\<lparr>sa_lease := Some (lease\<lparr>le_tickets := (le_tickets lease)[slot :=
      Some \<lparr>tk_id = k, tk_expires_at = min (min uncapped (le_authorized_until lease)) ob\<rparr>]\<rparr>)\<rparr>)"
    if "x = OpIssueInputTicket l k now \<or> x = OpIssuePresentedInputTicket l k now"
      "sa_last_checked s = Some now" "sa_readiness s = Ready" "sa_lease s = Some lease"
      "id_raw k \<noteq> 0" "\<forall>t. Some t \<in> set (le_tickets lease) \<longrightarrow> tk_id t \<noteq> k"
      "future_deadline now (ticket_lifetime (sa_policy s)) = Inr uncapped"
      "sa_observation_until s = Some ob"
| tickets_cleared: "effect x s (s\<lparr>sa_lease := Some (clear_tickets lease)\<rparr>)"
    if "sa_lease s = Some lease"
| tickets_expired: "effect x s (expire_lease_tickets now s)"
| claim: "effect x s (s\<lparr>sa_native_owner := Some a\<rparr>)"
    if "is_some (sa_lease s)" "sa_native_owner s = None"

section \<open>Every operation is a sequence of effects\<close>

lemma reach_then: "(effect x)\<^sup>*\<^sup>* s t \<Longrightarrow> effect x t u \<Longrightarrow> (effect x)\<^sup>*\<^sup>* s u"
  by (rule rtranclp.rtrancl_into_rtrancl)

lemmas reach = effect.intros [THEN [2] reach_then]

lemma reach_lapse_passed: "(effect x)\<^sup>*\<^sup>* s t \<Longrightarrow> (effect x)\<^sup>*\<^sup>* s (lapse_passed_view now t)"
  by (auto simp: lapse_passed_view_def split: option.split intro: reach(3))

lemma reach_check_time: "(effect x)\<^sup>*\<^sup>* s t \<Longrightarrow> (effect x)\<^sup>*\<^sup>* s (snd (check_time now t))"
  by (auto simp: check_time_def is_some_and_def split: option.splits
      intro!: reach_lapse_passed intro: reach(1,2))

interpretation reachable: clocked "(effect x)\<^sup>*\<^sup>* s" for x s
  by unfold_locales (rule reach_check_time)

lemma reach_view:
  "(effect OpMarkCapabilitiesChecked)\<^sup>*\<^sup>* s (snd (mark_capabilities_checked s))"
  "(effect OpRequireApproval)\<^sup>*\<^sup>* s (snd (require_approval s))"
  "(effect (OpObservationDeadline now))\<^sup>*\<^sup>* s (snd (observation_deadline now s))"
  "(effect (OpMarkViewReady now))\<^sup>*\<^sup>* s (snd (mark_view_ready now s))"
  "(effect (OpRequireViewEvidence now))\<^sup>*\<^sup>* s (snd (require_view_evidence now s))"
  "(effect (OpAdvanceRecovery g))\<^sup>*\<^sup>* s (snd (advance_recovery g s))"
  "(effect (OpConfirmSuspensionRelease l))\<^sup>*\<^sup>* s (snd (confirm_suspension_release l s))"
proof goal_cases
  case 1 show ?case by (auto simp: mark_capabilities_checked_def intro: checked)
next
  case 2 show ?case by (auto simp: require_approval_def intro: approval)
next
  case 3 show ?case
    unfolding observation_deadline_def authorize_observation_delivery_def
    by (rule reachable.after_live) (simp_all add: need_def)
next
  case 4 show ?case
    unfolding mark_view_ready_def
    by (rule reachable.after_live) (auto dest!: live_facts intro: unpresent reach(12))
next
  case 5 show ?case
    unfolding require_view_evidence_def mark_view_stale_def
    by (rule reachable.after_live) (auto intro!: reach(3) intro: reach(13))
next
  case 6 show ?case
    by (auto simp: advance_recovery_def is_some_and_def split: option.splits intro!: r_into_rtranclp recover)
next
  case 7 show ?case by (auto simp: confirm_suspension_release_def intro: release)
qed

lemma reach_authorize_observation:
  "(effect (OpAuthorizeObservation now))\<^sup>*\<^sup>* s (snd (authorize_observation now s))"
  unfolding authorize_observation_def
proof (rule try_then_keeps [where P = "(effect (OpAuthorizeObservation now))\<^sup>*\<^sup>* s"], goal_cases)
  case 1
  show ?case by (simp add: reach_check_time)
next
  case (2 u t)
  then show ?case
    by (auto split: sum.split simp: check_time_InrD(1,2) intro: reach(10))
qed

lemma reach_revival:
  assumes "x = OpMarkViewReadyUntil until now \<or> x = OpMarkPresentedReadyUntil q until now"
  shows "(effect x)\<^sup>*\<^sup>* s (snd (mark_view_ready_until until now s))"
  unfolding mark_view_ready_until_def
  by (rule reachable.after_live)
    (use assms in \<open>auto split: sum.split dest!: live_facts intro: unpresent reach(14)\<close>)

lemma reach_mark_presented:
  "(effect (OpMarkPresentedReadyUntil q until now))\<^sup>*\<^sup>* s (snd (mark_presented_ready_until q until now s))"
  unfolding mark_presented_ready_until_def
proof (rule try_then_keeps [where P = "(effect (OpMarkPresentedReadyUntil q until now))\<^sup>*\<^sup>* s"], goal_cases)
  case 1
  show ?case by (simp add: reach_revival)
next
  case (2 u t)
  moreover have "sa_readiness t = Ready"
    using 2(1) unfolding mark_view_ready_until_def
    by (auto dest!: try_then_InrD split: if_splits sum.splits)
  ultimately show ?case by (auto intro: reach(15))
qed

lemma reach_challenges:
  "(effect (OpIssueObservationChallenge n now))\<^sup>*\<^sup>* s (snd (issue_observation_challenge n now s))"
  "(effect (OpRespondObservationChallenge n now))\<^sup>*\<^sup>* s (snd (respond_observation_challenge n now s))"
  "(effect (OpIssueControlChallenge n now))\<^sup>*\<^sup>* s (snd (issue_control_challenge n now s))"
  "(effect (OpRespondControlChallenge l n now))\<^sup>*\<^sup>* s (snd (respond_control_challenge l n now s))"
proof goal_cases
  case 1 show ?case
    unfolding issue_observation_challenge_def
    by (rule reachable.after_live) (auto split: sum.split dest!: live_facts intro: reach(18))
next
  case 2 show ?case
    unfolding respond_observation_challenge_def
    by (rule reachable.after_live)
      (auto split: sum.split prod.split dest!: live_facts consume_challenge_InrD consume_challenge_InlD
        intro: reach(19,20))
next
  case 3 show ?case
    unfolding issue_control_challenge_def
    by (rule reachable.after_live) (auto split: sum.split dest!: live_facts intro: reach(22))
next
  case 4 show ?case
    unfolding respond_control_challenge_def
    by (rule reachable.after_live)
      (auto split: sum.split prod.split dest!: consume_challenge_InrD consume_challenge_InlD
        intro: reach(23,24))
qed

lemma reach_lease:
  "(effect (OpGrantLease l now))\<^sup>*\<^sup>* s (snd (grant_lease l now s))"
  "(effect (OpInvalidateInputTickets l))\<^sup>*\<^sup>* s (snd (invalidate_input_tickets l s))"
  "(effect (OpClaimNativeOwner l a))\<^sup>*\<^sup>* s (snd (claim_native_owner l a s))"
proof goal_cases
  case 1 show ?case
    unfolding grant_lease_def
    by (rule reachable.after_live)
      (auto split: sum.split option.split dest!: live_facts intro: reach(21))
next
  case 2 show ?case
    by (auto simp: invalidate_input_tickets_def split: sum.split intro: tickets_cleared)
next
  case 3 show ?case
    by (auto simp: claim_native_owner_def lease_id_def not_is_some_iff intro!: r_into_rtranclp claim)
qed

lemma reach_ticket:
  assumes "x = OpIssueInputTicket l k now \<or> x = OpIssuePresentedInputTicket l k now"
  shows "(effect x)\<^sup>*\<^sup>* s (snd (issue_ticket_checked l k now p s))"
  unfolding issue_ticket_checked_def
  by (rule reachable.after_live)
    (use assms in \<open>auto split: sum.split option.split simp: Let_def dest!: live_facts intro: reach(25)\<close>)

lemma reach_drop_expired_challenges:
  "(effect x)\<^sup>*\<^sup>* s t \<Longrightarrow> (effect x)\<^sup>*\<^sup>* s (drop_expired_challenges now t)"
proof -
  assume t: "(effect x)\<^sup>*\<^sup>* s t"
  let ?u = "t\<lparr>sa_observation_challenge := drop_expired_challenge now (sa_observation_challenge t)\<rparr>"
  have "(effect x)\<^sup>*\<^sup>* s ?u"
    using t by (auto simp: drop_expired_challenge_def intro: reach(19))
  then have "(effect x)\<^sup>*\<^sup>* s (?u\<lparr>sa_control_challenge := drop_expired_challenge now (sa_control_challenge ?u)\<rparr>)"
    using reach(23) [of x s ?u] by (auto simp: drop_expired_challenge_def)
  then show ?thesis by (simp add: drop_expired_challenges_def)
qed

lemma reach_resume_boundary:
  "(effect (OpApplyResumeBoundary now))\<^sup>*\<^sup>* s (snd (apply_resume_boundary now s))"
  using reach_check_time [of "OpApplyResumeBoundary now" s s now]
  by (auto simp: apply_resume_boundary_def has_live_control_state drop_passed_observation_def
      revoke_expired_lease_def split: prod.split sum.split
      intro!: reach_check_time reach(27) reach(7) reach_drop_expired_challenges reach(6))

lemma step_effects: "(effect x)\<^sup>*\<^sup>* s (authority_step x s)"
  by (cases x)
    (auto simp: reach_view reach_authorize_observation reach_revival reach_mark_presented reach_challenges
      reach_lease reach_ticket reach_check_time reach_resume_boundary reachable.live_at_keeps
      authorize_observation_delivery_def mark_view_stale_def issue_input_ticket_def
      issue_presented_input_ticket_def authorize_submission_state submission_deadline_state
      has_live_control_state control_status_state invalidate_for_suspend_def reach_lapse_passed
      intro: r_into_rtranclp effect.intros)

text \<open>A property of the states kept by each change of an operation is kept by the operation.\<close>

lemma step_keeps:
  assumes "P s" and "\<And>t u. P t \<Longrightarrow> effect x t u \<Longrightarrow> P u"
  shows "P (authority_step x s)"
  using step_effects [of x s] assms by (induction rule: rtranclp_induct) auto

section \<open>The shape invariant\<close>

definition lease_shape :: "bool \<Rightarrow> Lease \<Rightarrow> bool" where
  "lease_shape ready l \<longleftrightarrow>
     length (le_tickets l) = MAX_LIVE_INPUT_TICKETS
     \<and> distinct_slots tk_id (le_tickets l)
     \<and> (\<forall>t. Some t \<in> set (le_tickets l) \<longrightarrow> ready \<and> id_raw (tk_id t) \<noteq> 0)"

definition shape_inv :: "SessionAuthority \<Rightarrow> bool" where
  "shape_inv s \<longleftrightarrow>
     (is_some (sa_observation_until s) \<longleftrightarrow> sa_phase s \<in> {ViewOpening, Viewing})
     \<and> (sa_readiness s \<noteq> Unready \<longleftrightarrow> sa_phase s = Viewing)
     \<and> (is_some (sa_lease s) \<longrightarrow> sa_phase s = Viewing)
     \<and> (is_some (sa_view_until s) \<longrightarrow> sa_readiness s = Ready \<and> sa_bounded_view s)
     \<and> (is_some (sa_suspension s) \<longleftrightarrow> is_some (sa_lease s) \<and> sa_readiness s = Stale \<and> sa_bounded_view s)
     \<and> (is_some (sa_presented_sequence s) \<longrightarrow> sa_readiness s = Ready)
     \<and> (is_some (sa_native_owner s) \<longrightarrow> is_some (sa_lease s))
     \<and> (is_some (sa_control_challenge s) \<longrightarrow> is_some (sa_lease s))
     \<and> (is_some (sa_observation_challenge s) \<longrightarrow> sa_phase s \<in> {ViewOpening, Viewing})
     \<and> (sa_clock_faulted s \<longrightarrow> sa_phase s \<in> {Closed, Refused})
     \<and> pred_option (lease_shape (sa_readiness s = Ready)) (sa_lease s)"

lemma lease_shape_clear [simp]:
  "lease_shape r (clear_tickets l) \<longleftrightarrow> length (le_tickets l) = MAX_LIVE_INPUT_TICKETS"
  by (auto simp: lease_shape_def clear_tickets_def)

lemma lease_shape_length: "lease_shape r l \<Longrightarrow> length (le_tickets l) = MAX_LIVE_INPUT_TICKETS"
  by (simp add: lease_shape_def)

lemma lease_shape_fresh [simp]:
  "lease_shape r \<lparr>le_id = i, le_authorized_until = u, le_tickets = replicate MAX_LIVE_INPUT_TICKETS None\<rparr>"
  by (auto simp: lease_shape_def)

lemma pred_lease_clear [simp]:
  "pred_option (lease_shape r) (map_option clear_tickets x) \<longleftrightarrow>
   pred_option (\<lambda>l. length (le_tickets l) = MAX_LIVE_INPUT_TICKETS) x"
  by (cases x) simp_all

lemma pred_lease_length:
  "pred_option (lease_shape r) x \<Longrightarrow> pred_option (\<lambda>l. length (le_tickets l) = MAX_LIVE_INPUT_TICKETS) x"
  by (cases x) (simp_all add: lease_shape_def)

lemma pred_lease_ready: "pred_option (lease_shape r) x \<Longrightarrow> pred_option (lease_shape True) x"
  by (cases x) (auto simp: lease_shape_def)

lemma lease_shape_expire: "lease_shape r l \<Longrightarrow> lease_shape r (expire_tickets now l)"
proof -
  have "distinct_slots tk_id (map (\<lambda>t. if is_some_and (\<lambda>t. tk_expires_at t \<le> now) t then None else t) ts)"
    if "distinct_slots tk_id ts" for ts
    using that unfolding distinct_slots_def by (induction ts rule: flatten.induct) auto
  then show "lease_shape r l \<Longrightarrow> lease_shape r (expire_tickets now l)"
    by (auto simp: lease_shape_def expire_tickets_def split: if_splits)
qed

lemma lease_shape_authorized [simp]:
  "lease_shape r (l\<lparr>le_authorized_until := u\<rparr>) = lease_shape r l"
  by (simp add: lease_shape_def)

lemma lease_shape_add_ticket:
  assumes "lease_shape True l" "id_raw k \<noteq> 0" "\<forall>t. Some t \<in> set (le_tickets l) \<longrightarrow> tk_id t \<noteq> k"
  shows "lease_shape True (l\<lparr>le_tickets := (le_tickets l)[slot := Some \<lparr>tk_id = k, tk_expires_at = e\<rparr>]\<rparr>)"
proof -
  have "distinct_slots tk_id ((le_tickets l)[slot := Some \<lparr>tk_id = k, tk_expires_at = e\<rparr>])"
    using assms by (intro distinct_slots_update) (auto simp: lease_shape_def)
  with assms show ?thesis
    by (auto simp: lease_shape_def dest!: set_update_subset_insert [THEN subsetD])
qed

lemma pred_lease_expire:
  "pred_option (lease_shape r) x \<Longrightarrow> pred_option (lease_shape r) (map_option (expire_tickets now) x)"
  by (cases x) (simp_all add: lease_shape_expire)

lemma shape_lapse_view: "shape_inv s \<Longrightarrow> shape_inv (lapse_view at s)"
  by (cases "sa_phase s"; cases "sa_readiness s";
      auto simp: shape_inv_def lapse_view_def Let_def pred_lease_length [of True] pred_lease_length [of False]
        cong: conj_cong)

lemma shape_make_ready:
  assumes "shape_inv t" "sa_phase t \<in> {ViewOpening, Viewing}"
  shows "\<not> sa_bounded_view t \<Longrightarrow> shape_inv (t\<lparr>sa_phase := Viewing, sa_readiness := Ready\<rparr>)"
    "shape_inv (t\<lparr>sa_suspension := None, sa_bounded_view := True,
       sa_view_until := Some until, sa_phase := Viewing, sa_readiness := Ready\<rparr>)"
  using assms by (cases "sa_phase t"; cases "sa_readiness t";
      simp add: shape_inv_def pred_lease_ready [of False] cong: conj_cong)+

lemma shape_effect: "effect x s t \<Longrightarrow> shape_inv s \<Longrightarrow> shape_inv t"
proof (induction rule: effect.induct)
  case (tick s now)
  then show ?case by (simp add: shape_inv_def)
next
  case (lapse s at)
  then show ?case by (rule shape_lapse_view)
next
  case (drop s)
  then show ?case
    by (cases "sa_phase s") (simp_all add: shape_inv_def drop_observation_def clear_authority_def Let_def)
next
  case (ready now s)
  then show ?case by (simp add: shape_make_ready)
next
  case (revive until now q s)
  then show ?case by (simp add: shape_make_ready)
next
  case (recover s g)
  then show ?case by (simp add: shape_inv_def pred_lease_length [of False] cong: conj_cong)
next
  case (ticket l k now s lease uncapped ob slot)
  then show ?case by (simp add: shape_inv_def lease_shape_add_ticket cong: conj_cong)
next
  case (tickets_cleared s lease)
  then show ?case by (simp add: shape_inv_def lease_shape_length [of "sa_readiness s = Ready"] cong: conj_cong)
next
  case (tickets_expired s now)
  then show ?case by (simp add: shape_inv_def expire_lease_tickets_def pred_lease_expire cong: conj_cong)
qed (simp_all add: shape_inv_def revoke_lease_def close_def refuse_def clear_authority_def cong: conj_cong)

section \<open>Deadlines\<close>

text \<open>
  A deadline is within a lifetime when it lies at most that far beyond the latest checked
  clock sample. Observation and control are both renewed by a challenge; the pending
  challenge was issued with a deadline no earlier than the one it renews.
\<close>

definition within :: "HostDuration \<Rightarrow> HostInstant option \<Rightarrow> HostInstant \<Rightarrow> bool" where
  "within lifetime latest u \<longleftrightarrow> is_some_and (\<lambda>t. micros u \<le> micros t + span lifetime) latest"

definition renewable :: "HostDuration \<Rightarrow> HostInstant option \<Rightarrow> HostInstant option \<Rightarrow> Challenge option \<Rightarrow> bool" where
  "renewable lifetime latest until challenge \<longleftrightarrow>
     (\<forall>u. until = Some u \<longrightarrow> within lifetime latest u)
     \<and> (\<forall>c. challenge = Some c \<longrightarrow> within lifetime latest (ch_deadline c))
     \<and> (\<forall>u c. until = Some u \<longrightarrow> challenge = Some c \<longrightarrow> u \<le> ch_deadline c)"

definition ticket_bounds ::
  "HostDuration \<Rightarrow> HostInstant option \<Rightarrow> HostInstant option \<Rightarrow> Lease option \<Rightarrow> bool" where
  "ticket_bounds lifetime latest observation lease \<longleftrightarrow>
     (\<forall>l t. lease = Some l \<longrightarrow> Some t \<in> set (le_tickets l) \<longrightarrow>
        within lifetime latest (tk_expires_at t) \<and> tk_expires_at t \<le> le_authorized_until l
        \<and> is_some_and (\<lambda>o_until. tk_expires_at t \<le> o_until) observation)"

definition deadline_inv :: "SessionAuthority \<Rightarrow> bool" where
  "deadline_inv s \<longleftrightarrow>
     renewable (authorization_lifetime (sa_policy s)) (sa_last_checked s)
       (sa_observation_until s) (sa_observation_challenge s)
     \<and> renewable (authorization_lifetime (sa_policy s)) (sa_last_checked s)
       (map_option le_authorized_until (sa_lease s)) (sa_control_challenge s)
     \<and> ticket_bounds (ticket_lifetime (sa_policy s)) (sa_last_checked s)
       (sa_observation_until s) (sa_lease s)"

lemma within_later:
  "within d latest u \<Longrightarrow> \<forall>p. latest = Some p \<longrightarrow> p \<le> now \<Longrightarrow> within d (Some now) u"
  by (auto simp: within_def is_some_and_def micros_le_iff split: option.splits)

lemma within_new: "future_deadline now d = Inr u \<Longrightarrow> within d (Some now) u"
  by (auto simp: future_deadline_def within_def instant_checked_add_Some_iff split: option.splits if_splits)

lemma within_shorter: "within d latest u \<Longrightarrow> v \<le> u \<Longrightarrow> within d latest v"
  by (auto simp: within_def is_some_and_def micros_le_iff split: option.splits)

text \<open>A deadline set from the latest sample is at least every deadline within the lifetime.\<close>

lemma within_le_new:
  "future_deadline now d = Inr u \<Longrightarrow> within d (Some now) v \<Longrightarrow> v \<le> u"
  by (auto simp: future_deadline_def within_def instant_checked_add_Some_iff micros_le_iff
      split: option.splits if_splits)

lemma renewable_later:
  "renewable d latest until c \<Longrightarrow> \<forall>p. latest = Some p \<longrightarrow> p \<le> now \<Longrightarrow> renewable d (Some now) until c"
  unfolding renewable_def by (blast intro: within_later)

lemma renewable_None [simp]: "renewable d latest None None"
  by (simp add: renewable_def)

lemma renewable_no_challenge: "renewable d latest until c \<Longrightarrow> renewable d latest until None"
  by (simp add: renewable_def)

lemma renewable_fresh: "future_deadline now d = Inr u \<Longrightarrow> renewable d (Some now) (Some u) None"
  by (simp add: renewable_def within_new)

lemma renewable_issue:
  "renewable d (Some now) until c \<Longrightarrow> future_deadline now d = Inr u \<Longrightarrow> ch_deadline c' = u
     \<Longrightarrow> renewable d (Some now) until (Some c')"
  unfolding renewable_def by (auto intro: within_new within_le_new)

lemma renewable_respond:
  "renewable d latest until (Some c) \<Longrightarrow> renewable d latest (Some (ch_deadline c)) None"
  by (simp add: renewable_def)

lemma ticket_bounds_later:
  "ticket_bounds d latest ob l \<Longrightarrow> \<forall>p. latest = Some p \<longrightarrow> p \<le> now \<Longrightarrow> ticket_bounds d (Some now) ob l"
  unfolding ticket_bounds_def by (blast intro: within_later)

lemma ticket_bounds_None [simp]: "ticket_bounds d latest ob None"
  by (simp add: ticket_bounds_def)

lemma ticket_bounds_clear [simp]: "ticket_bounds d latest ob (map_option clear_tickets l)"
  "ticket_bounds d latest ob (Some (clear_tickets x))"
  by (auto simp: ticket_bounds_def clear_tickets_def)

lemma authorized_clear [simp]:
  "map_option le_authorized_until (map_option clear_tickets l) = map_option le_authorized_until l"
  "map_option le_authorized_until (map_option (expire_tickets now) l) = map_option le_authorized_until l"
  by (cases l; simp add: expire_tickets_def)+

lemma ticket_bounds_longer:
  assumes "ticket_bounds d latest (Some o_until) l" "o_until \<le> o_until'"
  shows "ticket_bounds d latest (Some o_until') l"
  using assms by (fastforce simp: ticket_bounds_def)

lemma ticket_bounds_renew:
  "ticket_bounds d latest ob (Some l) \<Longrightarrow> le_authorized_until l \<le> u
     \<Longrightarrow> ticket_bounds d latest ob (Some (l\<lparr>le_authorized_until := u\<rparr>))"
  by (fastforce simp: ticket_bounds_def)

lemma ticket_bounds_add:
  assumes "ticket_bounds d latest (Some ob) (Some l)" "within d latest uncapped"
  shows "ticket_bounds d latest (Some ob) (Some (l\<lparr>le_tickets :=
     (le_tickets l)[slot := Some \<lparr>tk_id = k,
        tk_expires_at = min (min uncapped (le_authorized_until l)) ob\<rparr>]\<rparr>))"
  using assms
  by (auto simp: ticket_bounds_def min.coboundedI1 intro: within_shorter
      dest!: set_update_subset_insert [THEN subsetD])

lemma ticket_bounds_expire:
  "ticket_bounds d latest ob l \<Longrightarrow> ticket_bounds d latest ob (map_option (expire_tickets now) l)"
  by (auto simp: ticket_bounds_def expire_tickets_def split: if_splits)

lemma clear_authority_simps [simp]:
  "sa_observation_until (clear_authority s) = None"
  "sa_lease (clear_authority s) = None"
  "sa_observation_challenge (clear_authority s) = None"
  "sa_control_challenge (clear_authority s) = None"
  "sa_policy (clear_authority s) = sa_policy s"
  "sa_last_checked (clear_authority s) = sa_last_checked s"
  "sa_phase (clear_authority s) = sa_phase s"
  by (simp_all add: clear_authority_def)

lemma deadline_effect: "effect x s t \<Longrightarrow> deadline_inv s \<Longrightarrow> deadline_inv t"
proof (induction rule: effect.induct)
  case (tick s now)
  then show ?case by (auto simp: deadline_inv_def intro: renewable_later ticket_bounds_later)
next
  case (observe now s until)
  then show ?case by (auto simp: deadline_inv_def deadline_from_def intro: renewable_fresh)
next
  case (observation_challenge n now s c)
  then show ?case by (auto simp: deadline_inv_def deadline_from_def intro: renewable_issue)
next
  case (observation_renewed s c)
  then show ?case
    by (auto simp: deadline_inv_def is_some_iff renewable_def intro: ticket_bounds_longer)
next
  case (grant l now s until)
  then show ?case
    by (auto simp: deadline_inv_def deadline_from_def ticket_bounds_def MAX_LIVE_INPUT_TICKETS_def
        intro: renewable_fresh)
next
  case (control_challenge n now s c)
  then show ?case by (auto simp: deadline_inv_def deadline_from_def intro: renewable_issue)
next
  case (control_renewed l n now s lease c)
  then show ?case by (auto simp: deadline_inv_def renewable_def intro: ticket_bounds_renew)
next
  case (ticket l k now s lease uncapped ob slot)
  then show ?case by (simp add: deadline_inv_def ticket_bounds_add within_new)
next
  case (tickets_expired s now)
  then show ?case by (simp add: deadline_inv_def expire_lease_tickets_def ticket_bounds_expire)
qed (auto simp: deadline_inv_def close_def refuse_def drop_observation_def revoke_lease_def Let_def
    intro: renewable_no_challenge)

section \<open>The invariant of all runs\<close>

definition authority_inv :: "SessionAuthority \<Rightarrow> bool" where
  "authority_inv s \<longleftrightarrow> shape_inv s \<and> deadline_inv s"

lemma authority_inv_effect: "effect x s t \<Longrightarrow> authority_inv s \<Longrightarrow> authority_inv t"
  by (simp add: authority_inv_def shape_effect deadline_effect)

interpretation authority: kept_invariant authority_step authority_inv
  by unfold_locales (rule step_keeps [where P = authority_inv]; auto intro: authority_inv_effect)

lemma authority_inv_new: "authority_inv (authority_new session policy)"
  by (simp add: authority_inv_def shape_inv_def deadline_inv_def authority_new_def)

lemmas authority_reachable_inv = authority.run_kept [OF authority_inv_new]

end
