(* ===== verification/Authority_Control.thy ===== *)
theory Authority_Control
  imports Authority_Safety
begin

text \<open>
  What a session authority guarantees. The theorems are about arbitrary runs: any sequence
  of public operations, with any clock samples, from a fresh authority or from any state
  that satisfies the invariant. Each one restricts what a later \<open>authorize_submission\<close>,
  the check made immediately before a native input call, can still accept.
\<close>

section \<open>A run of a controlled session\<close>

text \<open>
  A session that is approved at time 0, shows a view that is fresh until 500 ms, has lease 1
  and ticket 7 (the default policy: 3 s authorizations, 1 s tickets).
\<close>

definition millis :: "u64 \<Rightarrow> HostInstant" where
  "millis n = HostInstant (n * 1000)"

lemma replicate_eight: "replicate 8 x = x # replicate 7 x"
  by (simp add: numeral_eq_Suc)

lemmas authority_evals =
  millis_def authority_new_def plan_defaults_def from_millis_checked_def checked_mul_def
  mark_capabilities_checked_def require_approval_def authorize_observation_def check_time_def
  lapse_passed_view_def passed_view_deadline_def deadline_from_def future_deadline_def
  instant_checked_add_def checked_add_def clear_authority_def mark_view_ready_until_def live_at_def
  check_observation_live_def revival_check_def grant_lease_def issue_input_ticket_def
  issue_ticket_checked_def MAX_LIVE_INPUT_TICKETS_def Let_def less_HostInstant_def
  less_eq_HostInstant_def min_def max_def replicate_eight

definition example_ops :: "authority_op list" where
  "example_ops =
     [OpMarkCapabilitiesChecked, OpRequireApproval, OpAuthorizeObservation (millis 0),
      OpMarkViewReadyUntil (millis 500) (millis 0), OpGrantLease (Opaque 1) (millis 0),
      OpIssueInputTicket (Opaque 1) (Opaque 7) (millis 0)]"

definition example_session :: SessionAuthority where
  "example_session = fold authority_step example_ops (authority_new (Opaque 5) plan_defaults)"

lemma example_session_eq:
  "example_session = \<lparr>
     sa_session = Opaque 5,
     sa_policy = \<lparr>authorization_lifetime = HostDuration 3000000, ticket_lifetime = HostDuration 1000000\<rparr>,
     sa_phase = Viewing,
     sa_observation_until = Some (HostInstant 3000000),
     sa_readiness = Ready,
     sa_view_until = Some (HostInstant 500000),
     sa_presented_sequence = None,
     sa_bounded_view = True,
     sa_lease = Some \<lparr>le_id = Opaque 1, le_authorized_until = HostInstant 3000000,
       le_tickets = Some \<lparr>tk_id = Opaque 7, tk_expires_at = HostInstant 1000000\<rparr> # replicate 7 None\<rparr>,
     sa_suspension = None,
     sa_recovery = None,
     sa_native_owner = None,
     sa_observation_challenge = None,
     sa_control_challenge = None,
     sa_last_checked = Some (HostInstant 0),
     sa_clock_faulted = False\<rparr>"
  by (simp add: example_session_def example_ops_def authority_evals)

lemma authority_inv_example: "authority_inv example_session"
  unfolding example_session_def by (rule authority_reachable_inv)

section \<open>Which submissions are authorized\<close>

lemma view_passed_unready:
  "sa_readiness (lapse_passed_view now s) = Ready \<longleftrightarrow>
     sa_readiness s = Ready \<and> is_none_or (\<lambda>v. now < v) (sa_view_until s)"
  by (auto simp: lapse_passed_view_def passed_view_deadline_def is_none_or_def split: option.splits)

lemma lapse_passed_view_id:
  "is_none_or (\<lambda>v. now < v) (sa_view_until s) \<Longrightarrow> lapse_passed_view now s = s"
  by (auto simp: lapse_passed_view_def passed_view_deadline_def is_none_or_def split: option.splits)

lemma check_time_ok_iff:
  "check_time now s = (Inr (), t) \<longleftrightarrow>
     \<not> sa_clock_faulted s \<and> is_none_or (\<lambda>p. p \<le> now) (sa_last_checked s)
     \<and> t = lapse_passed_view now (s\<lparr>sa_last_checked := Some now\<rparr>)"
  by (auto simp: check_time_def is_some_and_def is_none_or_def not_less split: option.splits)

definition submission_live ::
  "InputLeaseId \<Rightarrow> InputTicketId \<Rightarrow> HostInstant \<Rightarrow> SessionAuthority \<Rightarrow> bool" where
  "submission_live lease ticket now s \<longleftrightarrow>
     sa_phase s = Viewing \<and> sa_readiness s = Ready
     \<and> is_none_or (\<lambda>v. now < v) (sa_view_until s)
     \<and> is_some_and (\<lambda>u. now < u) (sa_observation_until s)
     \<and> is_some_and (\<lambda>l. le_id l = lease \<and> now < le_authorized_until l
           \<and> is_some_and (\<lambda>t. now < tk_expires_at t) (find_ticket ticket l)) (sa_lease s)"

lemma authorize_submission_after_check:
  assumes "check_time now s = (Inr (), t)"
  shows "fst (authorize_submission l k now s) = Inr () \<longleftrightarrow> submission_live l k now t"
proof -
  have "is_none_or (\<lambda>v. now < v) (sa_view_until t)"
    using assms by (auto simp: check_time_ok_iff is_none_or_def dest: lapse_passed_view_until split: option.splits)
  with assms show ?thesis
    by (auto simp: authorize_submission_def submission_live_def check_observation_live_def is_some_and_def
        not_less ok_or_def split: option.splits sum.splits)
qed

lemma submission_live_stamp [simp]:
  "submission_live l k now (s\<lparr>sa_last_checked := x\<rparr>) = submission_live l k now s"
  by (simp add: submission_live_def)

lemma submission_live_lapse:
  "submission_live l k now (lapse_passed_view now s) \<longleftrightarrow> submission_live l k now s"
proof (cases "is_none_or (\<lambda>v. now < v) (sa_view_until s)")
  case True
  then show ?thesis by (simp add: lapse_passed_view_id)
next
  case False
  then show ?thesis by (simp add: submission_live_def view_passed_unready)
qed

lemma authorize_submission_ok_iff:
  "authorize_submission l k now s = (Inr (), t) \<longleftrightarrow>
     \<not> sa_clock_faulted s \<and> is_none_or (\<lambda>p. p \<le> now) (sa_last_checked s)
     \<and> submission_live l k now s \<and> t = s\<lparr>sa_last_checked := Some now\<rparr>"
proof (cases "\<exists>u. check_time now s = (Inr (), u)")
  case True
  then obtain u where u: "check_time now s = (Inr (), u)" by blast
  then have fine: "\<not> sa_clock_faulted s" "is_none_or (\<lambda>p. p \<le> now) (sa_last_checked s)"
    and u_def: "u = lapse_passed_view now (s\<lparr>sa_last_checked := Some now\<rparr>)"
    by (simp_all add: check_time_ok_iff)
  have live: "fst (authorize_submission l k now s) = Inr () \<longleftrightarrow> submission_live l k now s"
    using authorize_submission_after_check [OF u] by (simp add: u_def submission_live_lapse)
  have st: "snd (authorize_submission l k now s) = u"
    using u by (simp add: authorize_submission_state)
  have "submission_live l k now s \<Longrightarrow> u = s\<lparr>sa_last_checked := Some now\<rparr>"
    by (simp add: u_def submission_live_def lapse_passed_view_id)
  then show ?thesis using live st fine
    by (cases "authorize_submission l k now s") auto
next
  case False
  then have no: "\<not> (\<not> sa_clock_faulted s \<and> is_none_or (\<lambda>p. p \<le> now) (sa_last_checked s))"
    by (simp add: check_time_ok_iff)
  moreover have "fst (authorize_submission l k now s) \<noteq> Inr ()"
    using no by (auto simp: authorize_submission_def check_time_def is_some_and_def is_none_or_def not_less
        split: option.splits)
  ultimately show ?thesis by (cases "authorize_submission l k now s") auto
qed

text \<open>The first condition that fails decides the error.\<close>

lemma authorize_submission_answer:
  "fst (authorize_submission lease ticket now s) =
      (case find fst
          [(sa_clock_faulted s \<or> is_some_and (\<lambda>p. now < p) (sa_last_checked s), ClockRegression),
           (sa_phase s \<noteq> Viewing, InvalidState (sa_phase s)),
           (is_none_or (\<lambda>u. u \<le> now) (sa_observation_until s), ObservationExpired),
           (sa_readiness s \<noteq> Ready \<or> is_some_and (\<lambda>v. v \<le> now) (sa_view_until s), ViewUnready),
           (sa_lease s = None, NoLease),
           (is_some_and (\<lambda>l. le_id l \<noteq> lease) (sa_lease s), StaleLease),
           (is_some_and (\<lambda>l. le_authorized_until l \<le> now) (sa_lease s), LeaseExpired),
           (is_some_and (\<lambda>l. find_ticket ticket l = None) (sa_lease s), TicketInvalid),
           (is_some_and (\<lambda>l. is_some_and (\<lambda>k. tk_expires_at k \<le> now) (find_ticket ticket l)) (sa_lease s), TicketExpired)]
       of Some (_, e) \<Rightarrow> Inl e | None \<Rightarrow> Inr ())"
proof (cases "sa_clock_faulted s \<or> is_some_and (\<lambda>p. now < p) (sa_last_checked s)")
  case True
  then show ?thesis by (auto simp: authorize_submission_def check_time_def)
next
  case False
  let ?t = "lapse_passed_view now (s\<lparr>sa_last_checked := Some now\<rparr>)"
  have check: "check_time now s = (Inr (), ?t)" using False by (simp add: check_time_def)
  have ready: "sa_readiness ?t = Ready \<longleftrightarrow> sa_readiness s = Ready \<and> is_none_or (\<lambda>v. now < v) (sa_view_until s)"
    by (simp add: view_passed_unready)
  show ?thesis
  proof (cases "is_none_or (\<lambda>v. now < v) (sa_view_until s)")
    case True
    then have "?t = s\<lparr>sa_last_checked := Some now\<rparr>" by (simp add: lapse_passed_view_id)
    then show ?thesis
      using False True check
      by (auto simp: authorize_submission_def check_observation_live_def is_some_and_def is_none_or_def not_less ok_or_def
          split: option.splits)
  next
    case view: False
    then show ?thesis
      using False ready check
      by (auto simp: authorize_submission_def check_observation_live_def is_some_and_def is_none_or_def not_less
          split: option.splits)
  qed
qed

lemma submission_deadline_live:
  assumes "submission_deadline lease ticket now s = (Inr deadline, t)"
  shows "authorize_submission lease ticket now s = (Inr (), t)"
    and "submission_live lease ticket x t \<longleftrightarrow> x < deadline"
proof -
  obtain l k ob where auth: "authorize_submission lease ticket now s = (Inr (), t)"
    and l: "sa_lease t = Some l" and k: "find_ticket ticket l = Some k"
    and ob: "sa_observation_until t = Some ob"
    and d: "deadline = (let u = min (min (tk_expires_at k) (le_authorized_until l)) ob in
        case sa_view_until t of None \<Rightarrow> u | Some v \<Rightarrow> min u v)"
    using assms by (auto simp: submission_deadline_def Let_def ok_or_def dest!: try_then_InrD
        split: option.splits)
  show "authorize_submission lease ticket now s = (Inr (), t)" by (rule auth)
  have "submission_live lease ticket now t"
    using auth by (auto simp: authorize_submission_ok_iff)
  then show "submission_live lease ticket x t \<longleftrightarrow> x < deadline"
    using l k ob by (cases "sa_view_until t") (auto simp: submission_live_def d Let_def)
qed

section \<open>What later operations can change\<close>

text \<open>The last instant to which control could be extended without new local action.\<close>

definition horizon :: "HostInstant option \<Rightarrow> nat" where
  "horizon u = (case u of None \<Rightarrow> 0 | Some t \<Rightarrow> micros t)"

definition control_horizon :: "SessionAuthority \<Rightarrow> nat" where
  "control_horizon s =
     max (horizon (map_option le_authorized_until (sa_lease s)))
         (horizon (map_option ch_deadline (sa_control_challenge s)))"

fun renews_control :: "authority_op \<Rightarrow> bool" where
  "renews_control (OpGrantLease _ _) = True"
| "renews_control (OpIssueControlChallenge _ _) = True"
| "renews_control _ = False"

lemma control_horizon_effect:
  "effect x s t \<Longrightarrow> \<not> renews_control x \<Longrightarrow> control_horizon t \<le> control_horizon s"
  by (induction rule: effect.induct)
    (auto simp: control_horizon_def horizon_def close_def refuse_def drop_observation_def
      revoke_lease_def Let_def expire_lease_tickets_def split: option.splits)

interpretation control_clock: guarded_rank authority_step authority_inv "Not \<circ> renews_control" control_horizon
proof unfold_locales
  fix s x
  assume "(Not \<circ> renews_control) x"
  then show "control_horizon (authority_step x s) \<le> control_horizon s"
    by (intro step_keeps [where P = "\<lambda>t. control_horizon t \<le> control_horizon s"])
      (auto intro: order_trans control_horizon_effect)
qed

text \<open>
  The deadline of control itself moves only with a grant or an accepted answer. \<open>unanswered\<close> follows a
  run in which there is neither.
\<close>

definition lease_horizon :: "SessionAuthority \<Rightarrow> nat" where
  "lease_horizon s = horizon (map_option le_authorized_until (sa_lease s))"

fun answered :: "authority_op \<Rightarrow> SessionAuthority \<Rightarrow> bool" where
  "answered (OpGrantLease _ _) s = True"
| "answered (OpRespondControlChallenge l n now) s = is_ok (fst (respond_control_challenge l n now s))"
| "answered _ s = False"

fun unanswered :: "authority_op list \<Rightarrow> SessionAuthority \<Rightarrow> bool" where
  "unanswered [] s = True"
| "unanswered (x # xs) s = (\<not> answered x s \<and> unanswered xs (authority_step x s))"

lemma lease_control_horizon: "lease_horizon s \<le> control_horizon s"
  by (simp add: lease_horizon_def control_horizon_def)

lemma lease_horizon_effect:
  "effect x s t \<Longrightarrow> (\<forall>l now. x \<noteq> OpGrantLease l now) \<Longrightarrow> (\<forall>l n now. x \<noteq> OpRespondControlChallenge l n now) \<Longrightarrow>
     lease_horizon t \<le> lease_horizon s"
  by (induction rule: effect.induct)
    (auto simp: lease_horizon_def horizon_def close_def refuse_def drop_observation_def
      revoke_lease_def Let_def expire_lease_tickets_def split: option.splits)

interpretation lease_clock: clocked "\<lambda>t. lease_horizon t \<le> n" for n
proof unfold_locales
  show "lease_horizon (snd (check_time now s)) \<le> n" if "lease_horizon s \<le> n" for now s
    using that by (auto simp: check_time_def lapse_passed_view_def lease_horizon_def horizon_def close_def lapse_view_def Let_def
        split: option.splits)
qed

lemma lease_horizon_refused:
  assumes "\<not> is_ok (fst (respond_control_challenge l n now s))"
  shows "lease_horizon (snd (respond_control_challenge l n now s)) \<le> lease_horizon s"
proof (cases "live_at now s")
  case (Pair r t)
  have t: "lease_horizon t \<le> lease_horizon s"
    using lease_clock.live_at_keeps [of s "lease_horizon s" now] Pair by simp
  show ?thesis
    using assms t Pair
    by (cases r) (auto simp: respond_control_challenge_def lease_horizon_def ok_or_def split: option.splits sum.splits prod.splits)
qed

lemma lease_horizon_step:
  assumes "\<not> answered x s"
  shows "lease_horizon (authority_step x s) \<le> lease_horizon s"
proof (cases "\<exists>l n now. x = OpRespondControlChallenge l n now")
  case True
  then show ?thesis using assms lease_horizon_refused by auto
next
  case False
  moreover have "\<forall>l now. x \<noteq> OpGrantLease l now" using assms by auto
  ultimately show ?thesis
    by (intro step_keeps [where P = "\<lambda>t. lease_horizon t \<le> lease_horizon s"]) (auto intro: order_trans lease_horizon_effect)
qed

lemma lease_horizon_run: "unanswered xs s \<Longrightarrow> lease_horizon (fold authority_step xs s) \<le> lease_horizon s"
  by (induction xs arbitrary: s) (auto intro: order_trans lease_horizon_step)

fun issues_ticket :: "InputTicketId \<Rightarrow> authority_op \<Rightarrow> bool" where
  "issues_ticket k (OpIssueInputTicket _ k' _) = (k' = k)"
| "issues_ticket k (OpIssuePresentedInputTicket _ k' _) = (k' = k)"
| "issues_ticket k _ = False"

text \<open>Every live copy of ticket \<open>k\<close> expires by \<open>n\<close>; with \<open>n = 0\<close> there is no live copy.\<close>

definition ticket_by :: "InputTicketId \<Rightarrow> nat \<Rightarrow> SessionAuthority \<Rightarrow> bool" where
  "ticket_by k n s \<longleftrightarrow> (\<forall>l t. sa_lease s = Some l \<longrightarrow> Some t \<in> set (le_tickets l) \<longrightarrow> tk_id t = k
      \<longrightarrow> micros (tk_expires_at t) \<le> n)"

lemma ticket_by_effect: "effect x s t \<Longrightarrow> \<not> issues_ticket k x \<Longrightarrow> ticket_by k n s \<Longrightarrow> ticket_by k n t"
  by (induction rule: effect.induct)
    (auto simp: ticket_by_def close_def refuse_def drop_observation_def revoke_lease_def Let_def
      expire_lease_tickets_def expire_tickets_def clear_tickets_def MAX_LIVE_INPUT_TICKETS_def
      split: if_splits dest!: set_update_subset_insert [THEN subsetD])

interpretation ticket_clock: guarded_invariant authority_step "Not \<circ> issues_ticket k" "ticket_by k n" for k n
  by unfold_locales (rule step_keeps [where P = "ticket_by k n"]; auto intro: ticket_by_effect)

text \<open>A lease only comes from a grant, so without one it keeps its name or disappears.\<close>

fun grants :: "authority_op \<Rightarrow> bool" where
  "grants (OpGrantLease _ _) = True"
| "grants _ = False"

definition lease_only :: "InputLeaseId option \<Rightarrow> SessionAuthority \<Rightarrow> bool" where
  "lease_only l s \<longleftrightarrow> lease_id s = None \<or> lease_id s = l"

lemma le_id_ticket_changes [simp]:
  "map_option le_id (map_option clear_tickets l) = map_option le_id l"
  "map_option le_id (map_option (expire_tickets now) l) = map_option le_id l"
  by (cases l; simp add: expire_tickets_def)+

lemma lease_only_effect: "effect x s t \<Longrightarrow> \<not> grants x \<Longrightarrow> lease_only l s \<Longrightarrow> lease_only l t"
  by (induction rule: effect.induct)
    (auto simp: lease_only_def lease_id_def close_def refuse_def drop_observation_def revoke_lease_def Let_def
      expire_lease_tickets_def)

interpretation lease_name: guarded_invariant authority_step "Not \<circ> grants" "lease_only l" for l
  by unfold_locales (rule step_keeps [where P = "lease_only l"]; auto intro: lease_only_effect)

text \<open>A suspension that is not released keeps the lease from being used.\<close>

fun resumes_control :: "authority_op \<Rightarrow> bool" where
  "resumes_control (OpGrantLease _ _) = True"
| "resumes_control (OpConfirmSuspensionRelease _) = True"
| "resumes_control _ = False"

definition held_back :: "SessionAuthority \<Rightarrow> bool" where
  "held_back s \<longleftrightarrow> shape_inv s
     \<and> (is_some (sa_lease s) \<longrightarrow> is_some_and (\<lambda>u. \<not> su_released u) (sa_suspension s))"

lemma shape_suspended: "shape_inv s \<Longrightarrow> is_some (sa_suspension s) \<Longrightarrow> sa_readiness s = Stale \<and> sa_bounded_view s"
  by (simp add: shape_inv_def)

lemma held_back_effect:
  assumes "effect x s t" "\<not> resumes_control x" "held_back s"
  shows "held_back t"
proof -
  have "shape_inv t" using assms by (auto simp: held_back_def intro: shape_effect)
  moreover have "is_some (sa_lease t) \<longrightarrow> is_some_and (\<lambda>u. \<not> su_released u) (sa_suspension t)"
    using assms(1,2,3)
  proof (induction rule: effect.induct)
    case (revive until now q s)
    then show ?case
      by (auto simp: held_back_def revival_check_def is_some_and_def split: option.splits if_splits)
  next
    case (lapse s at)
    then show ?case
      by (auto simp: held_back_def lapse_view_def Let_def is_some_and_def split: option.splits)
  qed (auto simp: held_back_def close_def refuse_def drop_observation_def revoke_lease_def Let_def
      expire_lease_tickets_def expire_tickets_def clear_authority_def)
  ultimately show ?thesis by (simp add: held_back_def)
qed

interpretation suspension: guarded_invariant authority_step "Not \<circ> resumes_control" held_back
  by unfold_locales (rule step_keeps [where P = held_back]; auto intro: held_back_effect)

text \<open>Closing, refusing and a clock fault are final.\<close>

definition over :: "SessionAuthority \<Rightarrow> bool" where
  "over s \<longleftrightarrow> shape_inv s \<and> sa_phase s \<in> {Closed, Refused}"

lemma over_effect: "effect x s t \<Longrightarrow> over s \<Longrightarrow> over t"
proof -
  assume e: "effect x s t" and "over s"
  then have "shape_inv t" by (auto simp: over_def intro: shape_effect)
  moreover have "sa_phase t \<in> {Closed, Refused}"
    using e \<open>over s\<close>
    by (induction rule: effect.induct)
      (auto simp: over_def close_def refuse_def drop_observation_def revoke_lease_def Let_def
        expire_lease_tickets_def)
  ultimately show "over t" by (simp add: over_def)
qed

interpretation final: kept_invariant authority_step over
  by unfold_locales (rule step_keeps [where P = over]; auto intro: over_effect)

lemma authorize_submission_live:
  "fst (authorize_submission l k now s) = Inr () \<Longrightarrow> submission_live l k now s"
  using authorize_submission_ok_iff [of l k now s "snd (authorize_submission l k now s)"]
  by (simp add: prod_eq_iff)

lemma submission_live_lease:
  "submission_live l k now s \<Longrightarrow> \<exists>x. sa_lease s = Some x \<and> le_id x = l \<and> now < le_authorized_until x
     \<and> (\<exists>t. Some t \<in> set (le_tickets x) \<and> tk_id t = k \<and> now < tk_expires_at t)"
  by (auto simp: submission_live_def find_ticket_def is_some_and_def find_Some_iff
      split: option.splits dest!: nth_mem)

lemma control_horizon_bound:
  "authority_inv s \<Longrightarrow> sa_last_checked s = Some t \<Longrightarrow>
     control_horizon s \<le> micros t + span (authorization_lifetime (sa_policy s))"
  by (auto simp: authority_inv_def deadline_inv_def renewable_def within_def control_horizon_def horizon_def
      split: option.splits)

lemma ticket_by_bound:
  "authority_inv s \<Longrightarrow> sa_last_checked s = Some t \<Longrightarrow>
     ticket_by k (micros t + span (ticket_lifetime (sa_policy s))) s"
  by (auto simp: authority_inv_def deadline_inv_def ticket_bounds_def within_def ticket_by_def)

lemma ticket_by_live: "ticket_by k n s \<Longrightarrow> submission_live l k now s \<Longrightarrow> micros now < n"
  by (fastforce simp: ticket_by_def micros_less_iff dest: submission_live_lease)

lemma ticket_by_lapsed: "ticket_by k n (lapse_view at s)"
  by (auto simp: ticket_by_def clear_tickets_def)

lemma over_closed: "over (close s)" "over (refuse s)"
  by (simp_all add: over_def close_def refuse_def shape_inv_def clear_authority_def)

lemma over_not_live: "over s \<Longrightarrow> \<not> submission_live l k now s"
  by (auto simp: over_def submission_live_def)

lemma over_no_delivery: "over s \<Longrightarrow> fst (authorize_observation_delivery now s) \<noteq> Inr ()"
  by (auto simp: over_def authorize_observation_delivery_def live_at_def check_time_def
      check_observation_live_def close_def need_def)

lemma example_ticket_live:
  "fst (authorize_submission (Opaque 1) (Opaque 7) (millis 100) example_session) = Inr ()"
  by (simp add: example_session_eq authorize_submission_def find_ticket_def authority_evals)

lemma held_back_not_live:
  assumes "held_back s"
  shows "\<not> submission_live l k now s"
proof
  assume live: "submission_live l k now s"
  then have "is_some (sa_lease s)" by (auto dest: submission_live_lease)
  with assms have "shape_inv s" "is_some (sa_suspension s)"
    by (auto simp: held_back_def is_some_and_def split: option.splits)
  then have "sa_readiness s = Stale" using shape_suspended by blast
  with live show False by (simp add: submission_live_def)
qed

lemma over_no_authority:
  "over s \<Longrightarrow> fst (authorize_submission l k now s) \<noteq> Inr () \<and> fst (authorize_observation_delivery now s) \<noteq> Inr ()
     \<and> sa_lease s = None \<and> sa_observation_until s = None"
proof -
  assume s: "over s"
  then have "\<not> is_some (sa_lease s)" "\<not> is_some (sa_observation_until s)"
    by (cases "sa_phase s"; simp add: over_def shape_inv_def cong: conj_cong)+
  with s show ?thesis
    by (auto simp: over_no_delivery not_is_some_iff dest: authorize_submission_live over_not_live)
qed

lemma over_regression:
  "sa_last_checked s = Some p \<Longrightarrow> now < p \<Longrightarrow>
     check_time now s = (Inl ClockRegression, close (s\<lparr>sa_clock_faulted := True\<rparr>))"
  by (simp add: check_time_def)

text \<open>A clock sample that was accepted is accepted again.\<close>

lemma live_at_again:
  assumes "live_at now s = (Inr (), u)"
  shows "live_at now (u\<lparr>sa_control_challenge := c, sa_lease := l\<rparr>) = (Inr (), u\<lparr>sa_control_challenge := c, sa_lease := l\<rparr>)"
proof -
  let ?t = "u\<lparr>sa_control_challenge := c, sa_lease := l\<rparr>"
  have u: "u = lapse_passed_view now (s\<lparr>sa_last_checked := Some now\<rparr>)"
    using live_at_InrD(1) [OF assms] by (simp add: check_time_ok_iff)
  have "is_none_or (\<lambda>v. now < v) (sa_view_until ?t)"
    by (auto simp: u is_none_or_def dest: lapse_passed_view_until split: option.split)
  moreover have "sa_last_checked ?t = Some now" "\<not> sa_clock_faulted ?t"
    using live_facts [OF assms] by simp_all
  ultimately have "check_time now ?t = (Inr (), ?t)"
    by (simp add: check_time_ok_iff lapse_passed_view_id)
  moreover have "check_observation_live now ?t = Inr ()"
    using live_facts [OF assms] by (auto simp: check_observation_live_def)
  ultimately show ?thesis by (simp add: live_at_def need_def)
qed

section \<open>Properties\<close>

text \<open>C1. In every state that any sequence of public operations can reach from a fresh
  authority, with any clock samples, the invariant holds: observation, view readiness,
  suspension, lease, owner and challenges are only set in the phases that allow them, a
  ticket only exists in a lease with a ready view and has a nonzero identifier used once,
  and no deadline lies beyond one policy lifetime after the latest accepted clock sample.\<close>

theorem authority_invariant_of_all_runs:
  "authority_inv (fold authority_step ops (authority_new session policy))"
  by (rule authority_reachable_inv)

text \<open>C2. A native submission is authorized exactly when the clock has not faulted or gone
  back, the session is viewing with a ready view whose evidence is still fresh, observation
  is live, and the named lease is current, unexpired and holds the named unexpired ticket.
  Success changes nothing but the recorded clock sample. Otherwise the error is that of the first
  condition that fails: clock, phase, observation, view, lease, its name, its deadline, ticket, its
  deadline.\<close>

theorem authorize_submission_exact:
  "(authorize_submission lease ticket now s = (Inr (), t) \<longleftrightarrow>
     \<not> sa_clock_faulted s \<and> is_none_or (\<lambda>p. p \<le> now) (sa_last_checked s)
     \<and> sa_phase s = Viewing \<and> sa_readiness s = Ready
     \<and> is_none_or (\<lambda>v. now < v) (sa_view_until s)
     \<and> is_some_and (\<lambda>u. now < u) (sa_observation_until s)
     \<and> is_some_and (\<lambda>l. le_id l = lease \<and> now < le_authorized_until l
           \<and> is_some_and (\<lambda>k. now < tk_expires_at k) (find_ticket ticket l)) (sa_lease s)
     \<and> t = s\<lparr>sa_last_checked := Some now\<rparr>)
   \<and> fst (authorize_submission lease ticket now s) =
      (case find fst
          [(sa_clock_faulted s \<or> is_some_and (\<lambda>p. now < p) (sa_last_checked s), ClockRegression),
           (sa_phase s \<noteq> Viewing, InvalidState (sa_phase s)),
           (is_none_or (\<lambda>u. u \<le> now) (sa_observation_until s), ObservationExpired),
           (sa_readiness s \<noteq> Ready \<or> is_some_and (\<lambda>v. v \<le> now) (sa_view_until s), ViewUnready),
           (sa_lease s = None, NoLease),
           (is_some_and (\<lambda>l. le_id l \<noteq> lease) (sa_lease s), StaleLease),
           (is_some_and (\<lambda>l. le_authorized_until l \<le> now) (sa_lease s), LeaseExpired),
           (is_some_and (\<lambda>l. find_ticket ticket l = None) (sa_lease s), TicketInvalid),
           (is_some_and (\<lambda>l. is_some_and (\<lambda>k. tk_expires_at k \<le> now) (find_ticket ticket l)) (sa_lease s), TicketExpired)]
       of Some (_, e) \<Rightarrow> Inl e | None \<Rightarrow> Inr ())"
  using authorize_submission_ok_iff [of lease ticket now s t] authorize_submission_answer [of lease ticket now s]
  by (auto simp: submission_live_def)

theorem authorize_submission_exact_witness:
  "authorize_submission (Opaque 1) (Opaque 7) (millis 100) example_session
     = (Inr (), example_session\<lparr>sa_last_checked := Some (millis 100)\<rparr>)
   \<and> fst (authorize_submission (Opaque 1) (Opaque 8) (millis 100) example_session) = Inl TicketInvalid"
  using authorize_submission_exact [of "Opaque 1" "Opaque 7" "millis 100" example_session
      "example_session\<lparr>sa_last_checked := Some (millis 100)\<rparr>"]
    authorize_submission_exact [of "Opaque 1" "Opaque 8" "millis 100" example_session]
  by (simp add: example_session_eq find_ticket_def authority_evals)

text \<open>C3. The deadline returned with an authorized submission is exact: the same submission
  stays authorized at every later clock sample before it, and is refused at every sample
  from the deadline on.\<close>

theorem submission_deadline_exact:
  assumes "submission_deadline lease ticket now s = (Inr deadline, t)" and "now \<le> later"
  shows "now < deadline \<and> (fst (authorize_submission lease ticket later t) = Inr () \<longleftrightarrow> later < deadline)"
proof -
  note d = submission_deadline_live [OF assms(1)]
  then have t: "\<not> sa_clock_faulted t" "sa_last_checked t = Some now" "submission_live lease ticket now t"
    by (simp_all add: authorize_submission_ok_iff)
  then have "fst (authorize_submission lease ticket later t) = Inr () \<longleftrightarrow> submission_live lease ticket later t"
    using assms(2) authorize_submission_ok_iff [of lease ticket later t]
    by (cases "authorize_submission lease ticket later t") auto
  with t(3) show ?thesis by (simp add: d(2))
qed

theorem submission_deadline_exact_witness:
  "submission_deadline (Opaque 1) (Opaque 7) (millis 100) example_session
     = (Inr (millis 500), example_session\<lparr>sa_last_checked := Some (millis 100)\<rparr>)
   \<and> fst (authorize_submission (Opaque 1) (Opaque 7) (millis 500)
       (example_session\<lparr>sa_last_checked := Some (millis 100)\<rparr>)) \<noteq> Inr ()"
proof
  show eq: "submission_deadline (Opaque 1) (Opaque 7) (millis 100) example_session
     = (Inr (millis 500), example_session\<lparr>sa_last_checked := Some (millis 100)\<rparr>)"
    by (simp add: example_session_eq submission_deadline_def authorize_submission_def find_ticket_def
        authority_evals)
  show "fst (authorize_submission (Opaque 1) (Opaque 7) (millis 500)
       (example_session\<lparr>sa_last_checked := Some (millis 100)\<rparr>)) \<noteq> Inr ()"
    using submission_deadline_exact [OF eq, of "millis 500"] by (simp add: authority_evals)
qed

text \<open>C4. The dead man's switch of control. From any reachable state, if from then on no lease is granted
  and no answer to a control challenge is accepted, however many challenges are issued and however many
  answers are refused, then no submission is authorized at or after the deadline that the lease had in
  that state. That deadline is at most one authorization lifetime after the clock sample of that state,
  and this bound holds as well when answers are accepted but the host issues no new challenge:
  answers to a challenge that was already pending do not get past it.\<close>

theorem control_ends_without_renewal:
  assumes "s = fold authority_step earlier (authority_new session policy)"
    and "sa_last_checked s = Some t"
    and "unanswered ops s \<or> list_all (Not \<circ> renews_control) ops"
    and "fst (authorize_submission lease ticket now (fold authority_step ops s)) = Inr ()"
  shows "(unanswered ops s \<longrightarrow> is_some_and (\<lambda>l. now < le_authorized_until l) (sa_lease s))
    \<and> micros now < micros t + span (authorization_lifetime (sa_policy s))"
proof
  have inv: "authority_inv s" unfolding assms(1) by (rule authority_reachable_inv)
  have now: "micros now < lease_horizon (fold authority_step ops s)"
    using submission_live_lease [OF authorize_submission_live [OF assms(4)]]
    by (auto simp: lease_horizon_def horizon_def micros_less_iff)
  show "unanswered ops s \<longrightarrow> is_some_and (\<lambda>l. now < le_authorized_until l) (sa_lease s)"
    using less_le_trans [OF now lease_horizon_run]
    by (auto simp: lease_horizon_def horizon_def micros_less_iff split: option.splits)
  have "lease_horizon (fold authority_step ops s) \<le> control_horizon s"
    using assms(3)
  proof
    assume "unanswered ops s"
    then show ?thesis using lease_horizon_run lease_control_horizon order_trans by blast
  next
    assume "list_all (Not \<circ> renews_control) ops"
    then show ?thesis using control_clock.run_rank [OF inv] lease_control_horizon order_trans by blast
  qed
  also have "\<dots> \<le> micros t + span (authorization_lifetime (sa_policy s))"
    using inv assms(2) by (rule control_horizon_bound)
  finally show "micros now < micros t + span (authorization_lifetime (sa_policy s))" using now by simp
qed

theorem control_ends_without_renewal_witness:
  "micros (millis 100) < micros (millis 0) + span (authorization_lifetime (sa_policy example_session))
   \<and> is_some_and (\<lambda>l. millis 100 < le_authorized_until l) (sa_lease example_session)"
proof -
  let ?ops = "[OpIssueControlChallenge 9 (millis 20), OpRespondControlChallenge (Opaque 1) 8 (millis 30)]"
  have session: "example_session = fold authority_step example_ops (authority_new (Opaque 5) plan_defaults)"
    "sa_last_checked example_session = Some (millis 0)"
    by (rule example_session_def) (simp add: example_session_eq authority_evals)
  have refused: "unanswered ?ops example_session"
    by (simp add: example_session_eq issue_control_challenge_def respond_control_challenge_def check_challenge_slot_def
        consume_challenge_def authority_evals)
  have "fst (authorize_submission (Opaque 1) (Opaque 7) (millis 100) (fold authority_step ?ops example_session)) = Inr ()"
    by (simp add: example_session_eq issue_control_challenge_def respond_control_challenge_def check_challenge_slot_def
        consume_challenge_def authorize_submission_def find_ticket_def authority_evals)
  then show ?thesis using control_ends_without_renewal [OF session] refused by blast
qed

text \<open>C5. A ticket cannot be stretched: from any reachable state, unless ticket \<open>k\<close> is issued
  again, no submission under it is authorized at or after one ticket lifetime beyond the
  clock sample of that state, whatever renewals of observation and control take place.\<close>

theorem ticket_ends_without_reissue:
  assumes "s = fold authority_step earlier (authority_new session policy)"
    and "sa_last_checked s = Some t"
    and "list_all (Not \<circ> issues_ticket k) ops"
    and "fst (authorize_submission lease k now (fold authority_step ops s)) = Inr ()"
  shows "micros now < micros t + span (ticket_lifetime (sa_policy s))"
proof -
  have "authority_inv s" unfolding assms(1) by (rule authority_reachable_inv)
  then have "ticket_by k (micros t + span (ticket_lifetime (sa_policy s))) (fold authority_step ops s)"
    using assms(2,3) by (intro ticket_clock.run_inv ticket_by_bound)
  then show ?thesis using authorize_submission_live [OF assms(4)] by (rule ticket_by_live)
qed

theorem ticket_ends_without_reissue_witness:
  "micros (millis 100) < micros (millis 0) + span (ticket_lifetime (sa_policy example_session))"
proof (rule ticket_ends_without_reissue)
  show "example_session = fold authority_step example_ops (authority_new (Opaque 5) plan_defaults)"
    by (rule example_session_def)
  show "sa_last_checked example_session = Some (millis 0)"
    by (simp add: example_session_eq authority_evals)
  show "list_all (Not \<circ> issues_ticket (Opaque 7)) [OpIssueControlChallenge 9 (millis 20)]" by simp
  show "fst (authorize_submission (Opaque 1) (Opaque 7) (millis 100)
      (fold authority_step [OpIssueControlChallenge 9 (millis 20)] example_session)) = Inr ()"
    by (simp add: example_session_eq issue_control_challenge_def check_challenge_slot_def
        authorize_submission_def find_ticket_def authority_evals)
qed

text \<open>C6. Losing the view invalidates every ticket for good: after the view is marked stale,
  in whatever state, a ticket authorizes nothing until it is issued again, even when the
  view becomes ready and the lease is renewed in between.\<close>

theorem stale_view_voids_tickets:
  assumes "list_all (Not \<circ> issues_ticket k) ops"
  shows "fst (authorize_submission lease k now (fold authority_step ops (mark_view_stale s))) \<noteq> Inr ()"
proof
  assume "fst (authorize_submission lease k now (fold authority_step ops (mark_view_stale s))) = Inr ()"
  moreover have "ticket_by k 0 (fold authority_step ops (mark_view_stale s))"
    using assms by (intro ticket_clock.run_inv) (simp_all add: mark_view_stale_def ticket_by_lapsed)
  ultimately show False by (auto dest: authorize_submission_live ticket_by_live)
qed

theorem stale_view_voids_tickets_witness:
  "fst (authorize_submission (Opaque 1) (Opaque 7) (millis 100) example_session) = Inr ()
   \<and> fst (authorize_submission (Opaque 1) (Opaque 7) (millis 100)
       (fold authority_step [OpConfirmSuspensionRelease (Opaque 1),
           OpMarkViewReadyUntil (millis 900) (millis 60)] (mark_view_stale example_session))) \<noteq> Inr ()"
  using stale_view_voids_tickets [of "Opaque 7" "[OpConfirmSuspensionRelease (Opaque 1),
      OpMarkViewReadyUntil (millis 900) (millis 60)]" "Opaque 1" "millis 100" example_session]
  by (simp add: example_ticket_live)

text \<open>C7. A controlled session whose view lapsed stays without input until the host confirms
  that everything held down was released: from a reachable state with an unreleased
  suspension, no sequence of operations without that confirmation (and without granting a
  new lease) leads to an authorized submission, however fresh a view is presented.\<close>

theorem suspension_needs_release:
  assumes "s = fold authority_step earlier (authority_new session policy)"
    and "is_some_and (\<lambda>u. \<not> su_released u) (sa_suspension s)"
    and "list_all (Not \<circ> resumes_control) ops"
  shows "fst (authorize_submission lease ticket now (fold authority_step ops s)) \<noteq> Inr ()"
proof
  assume "fst (authorize_submission lease ticket now (fold authority_step ops s)) = Inr ()"
  moreover have "held_back s"
    using authority_reachable_inv [of earlier session policy] assms(2)
    unfolding assms(1) [symmetric] by (simp add: held_back_def authority_inv_def)
  ultimately show False
    using suspension.run_inv [OF _ assms(3)] by (auto dest: authorize_submission_live held_back_not_live)
qed

theorem suspension_needs_release_witness:
  "fst (authorize_submission (Opaque 1) (Opaque 8) (millis 100)
     (fold authority_step [OpMarkViewReadyUntil (millis 900) (millis 60),
          OpIssueInputTicket (Opaque 1) (Opaque 8) (millis 60)]
       (mark_view_stale example_session))) \<noteq> Inr ()"
proof (rule suspension_needs_release)
  show "mark_view_stale example_session
      = fold authority_step (example_ops @ [OpMarkViewStale]) (authority_new (Opaque 5) plan_defaults)"
    by (simp add: example_session_def)
  show "is_some_and (\<lambda>u. \<not> su_released u) (sa_suspension (mark_view_stale example_session))"
    by (simp add: example_session_eq mark_view_stale_def lapse_view_def Let_def)
qed simp

text \<open>C8. Closing and refusing are final: after either, in whatever state, no sequence of
  operations brings back a lease, an observation deadline, a delivery or a submission.\<close>

theorem closed_is_final:
  assumes "t = close s \<or> t = refuse s"
  shows "fst (authorize_submission lease ticket now (fold authority_step ops t)) \<noteq> Inr ()
    \<and> fst (authorize_observation_delivery now (fold authority_step ops t)) \<noteq> Inr ()
    \<and> sa_lease (fold authority_step ops t) = None
    \<and> sa_observation_until (fold authority_step ops t) = None"
  using assms by (intro over_no_authority final.run_kept) (auto simp: over_closed)

theorem closed_is_final_witness:
  "sa_lease example_session \<noteq> None
   \<and> sa_lease (fold authority_step example_ops (close example_session)) = None"
  using closed_is_final [of "close example_session" example_session "Opaque 1" "Opaque 7" "millis 1" example_ops]
  by (simp add: example_session_eq)

text \<open>C9. A clock sample before the latest accepted one closes the session for good: the
  operation that saw it fails with the clock error, and afterwards no submission and no
  delivery is authorized by any sequence of operations, later clock samples included.\<close>

theorem clock_regression_is_final:
  assumes "sa_last_checked s = Some p" and "now < p"
    and "t = snd (authorize_submission lease ticket now s)"
  shows "fst (authorize_submission lease ticket now s) = Inl ClockRegression
    \<and> fst (authorize_submission lease' ticket' later (fold authority_step ops t)) \<noteq> Inr ()
    \<and> fst (authorize_observation_delivery later (fold authority_step ops t)) \<noteq> Inr ()"
proof -
  have check: "check_time now s = (Inl ClockRegression, close (s\<lparr>sa_clock_faulted := True\<rparr>))"
    using assms(1,2) by (rule over_regression)
  then have "over t" by (simp add: assms(3) authorize_submission_state over_closed)
  then have "over (fold authority_step ops t)" by (rule final.run_kept)
  then show ?thesis using check over_no_authority by (simp add: authorize_submission_def)
qed

theorem clock_regression_is_final_witness:
  "sa_last_checked (example_session\<lparr>sa_last_checked := Some (millis 100)\<rparr>) = Some (millis 100)
   \<and> fst (authorize_submission (Opaque 1) (Opaque 7) (millis 99)
       (example_session\<lparr>sa_last_checked := Some (millis 100)\<rparr>)) = Inl ClockRegression"
  using clock_regression_is_final [of "example_session\<lparr>sa_last_checked := Some (millis 100)\<rparr>"
      "millis 100" "millis 99" _ "Opaque 1" "Opaque 7"]
  by (simp add: authority_evals)

text \<open>C10. A control renewal is single-use and dated by the host: an accepted response matches
  the pending nonce, moves the lease to the deadline fixed when the challenge was issued
  (never an earlier one than the lease already had, never more than one lifetime after the
  clock sample before the response), and consumes the challenge, so that repeating the
  response fails.\<close>

theorem control_renewal_dated_by_issue:
  assumes "s = fold authority_step earlier (authority_new session policy)"
    and "respond_control_challenge lease nonce now s = (Inr deadline, t)"
  shows "\<exists>c l. sa_control_challenge s = Some c \<and> ch_nonce c = nonce \<and> ch_deadline c = deadline \<and> now < deadline
      \<and> sa_lease t = Some l \<and> le_id l = lease \<and> le_authorized_until l = deadline
      \<and> horizon (map_option le_authorized_until (sa_lease s)) \<le> micros deadline
      \<and> within (authorization_lifetime (sa_policy s)) (sa_last_checked s) deadline
      \<and> fst (respond_control_challenge lease nonce now t) = Inl ChallengeMismatch"
proof -
  have inv: "deadline_inv s"
    using authority_reachable_inv [of earlier session policy] assms(1) by (simp add: authority_inv_def)
  obtain u where live: "live_at now s = (Inr (), u)"
    and rest: "snd (live_at now s) = u"
    using assms(2) unfolding respond_control_challenge_def by (auto dest!: try_then_InrD)
  then have u: "u = lapse_passed_view now (s\<lparr>sa_last_checked := Some now\<rparr>)"
    using live_at_InrD(1) [OF live] by (simp add: check_time_ok_iff)
  obtain l c where l: "sa_lease u = Some l" "le_id l = lease" and c: "sa_control_challenge u = Some c"
      "ch_nonce c = nonce" "now < ch_deadline c" "deadline = ch_deadline c"
    and t: "t = u\<lparr>sa_control_challenge := None, sa_lease := Some (l\<lparr>le_authorized_until := deadline\<rparr>)\<rparr>"
    using assms(2) live unfolding respond_control_challenge_def
    by (auto simp: ok_or_def split: option.splits if_splits prod.splits sum.splits dest: consume_challenge_InrD)
  have same: "sa_control_challenge s = Some c" using c(1) u by simp
  have until: "map_option le_authorized_until (sa_lease u) = map_option le_authorized_until (sa_lease s)"
    by (simp add: u lapse_passed_view_def split: option.split)
  have "live_at now t = (Inr (), t)" unfolding t using live by (rule live_at_again)
  then have "fst (respond_control_challenge lease nonce now t) = Inl ChallengeMismatch"
    using l c by (simp add: respond_control_challenge_def t consume_challenge_def)
  then show ?thesis
    using inv same until l c t by (auto simp: deadline_inv_def renewable_def horizon_def micros_le_iff
        split: option.splits)
qed

theorem control_renewal_dated_by_issue_witness:
  "\<exists>t. respond_control_challenge (Opaque 1) 9 (millis 400)
         (fold authority_step [OpIssueControlChallenge 9 (millis 20)] example_session) = (Inr (millis 3020), t)
     \<and> fst (respond_control_challenge (Opaque 1) 9 (millis 400) t) = Inl ChallengeMismatch"
proof -
  let ?s = "fold authority_step [OpIssueControlChallenge 9 (millis 20)] example_session"
  have "fst (respond_control_challenge (Opaque 1) 9 (millis 400) ?s) = Inr (millis 3020)"
    by (simp add: example_session_eq issue_control_challenge_def respond_control_challenge_def
        check_challenge_slot_def consume_challenge_def authority_evals)
  then obtain t where t: "respond_control_challenge (Opaque 1) 9 (millis 400) ?s = (Inr (millis 3020), t)"
    by (metis prod.collapse)
  have "?s = fold authority_step (example_ops @ [OpIssueControlChallenge 9 (millis 20)])
      (authority_new (Opaque 5) plan_defaults)"
    by (simp add: example_session_def)
  from control_renewal_dated_by_issue [OF this t] t show ?thesis by blast
qed

text \<open>C11. Control is never handed over silently: without a grant, whatever operations run, the
  session either keeps the lease it had or has none, and a grant only succeeds when there
  is no lease at all (an expired lease has to be revoked first).\<close>

theorem control_changes_hands_only_by_grant:
  "(list_all (Not \<circ> grants) ops \<longrightarrow>
      lease_id (fold authority_step ops s) = None \<or> lease_id (fold authority_step ops s) = lease_id s)
   \<and> (fst (grant_lease lease now s) = Inr () \<longrightarrow> lease_id s = None)"
proof
  show "list_all (Not \<circ> grants) ops \<longrightarrow>
      lease_id (fold authority_step ops s) = None \<or> lease_id (fold authority_step ops s) = lease_id s"
    using lease_name.run_inv [of "lease_id s" s ops] by (auto simp: lease_only_def)
  show "fst (grant_lease lease now s) = Inr () \<longrightarrow> lease_id s = None"
  proof
    assume "fst (grant_lease lease now s) = Inr ()"
    then obtain t where "grant_lease lease now s = (Inr (), t)" by (metis prod.collapse)
    then obtain u where live: "live_at now s = (Inr (), u)" and none: "sa_lease u = None"
      unfolding grant_lease_def by (auto dest!: try_then_InrD split: if_splits option.splits)
    have "u = lapse_passed_view now (s\<lparr>sa_last_checked := Some now\<rparr>)"
      using live_at_InrD(1) [OF live] by (simp add: check_time_ok_iff)
    with none show "lease_id s = None"
      by (auto simp: lapse_passed_view_def lease_id_def split: option.splits)
  qed
qed

theorem control_changes_hands_only_by_grant_witness:
  "lease_id (fold authority_step [OpIssueControlChallenge 9 (millis 20)] example_session) = Some (Opaque 1)
   \<and> lease_id (fold authority_step [OpHasLiveControl (millis 1)] example_session) \<in> {None, Some (Opaque 1)}"
proof -
  have "lease_id example_session = Some (Opaque 1)" by (simp add: example_session_eq lease_id_def)
  then show ?thesis
    using control_changes_hands_only_by_grant [of "[OpHasLiveControl (millis 1)]" example_session "Opaque 2" "millis 2"]
    by (simp add: example_session_eq issue_control_challenge_def check_challenge_slot_def lease_id_def authority_evals)
qed

end
