(* ===== verification/Input_Sequence.thy ===== *)
theory Input_Sequence
  imports Time_Ids
begin

text \<open>
  The replay ledger of one input lease (\<open>fr-core/src/input_sequence.rs\<close>): it consumes the
  sequence number of a reliable action before the action may reach the operating system,
  and remembers the last outcomes in a fixed ring. The second half refines it to an
  unbounded list of outcomes: the ring only forgets results, it never forgets that a
  sequence number was consumed.
\<close>

section \<open>Data\<close>

definition MAX_RETAINED_INPUT_RECEIPTS :: nat where
  "MAX_RETAINED_INPUT_RECEIPTS = 32"

datatype InputOutcome =
    SubmittedToOs
  | AppliedLocally
  | RejectedBeforeSubmission
  | ExpiredBeforeSubmission
  | CancelledBeforeSubmission
  | PartiallySubmittedToOs
  | EffectUnknown

datatype InputAdmission =
    Admitted
  | InFlight
  | Completed InputOutcome
  | ConsumedWithoutReceipt

datatype InputSequenceError =
    InvalidCapacity usize
  | SequenceStaleLease
  | Fenced
  | PreviousActionPending u64
  | SequenceGap u64 u64
  | NotPending

record LedgerReceipt =
  lr_sequence :: u64
  lr_outcome :: InputOutcome

record InputSequenceLedger =
  lg_lease :: InputLeaseId
  lg_next_sequence :: "u64 option"
  lg_pending :: "u64 option"
  lg_receipts :: "LedgerReceipt option list"
  lg_receipt_capacity :: usize
  lg_receipt_cursor :: usize
  lg_fenced :: bool

type_synonym 'a ledger_result = "(InputSequenceLedger, InputSequenceError, 'a) outcome"

section \<open>Operations\<close>

definition ledger_new :: "InputLeaseId \<Rightarrow> usize \<Rightarrow> InputSequenceError + InputSequenceLedger" where
  "ledger_new lease receipt_capacity =
     (if \<not> (1 \<le> receipt_capacity \<and> receipt_capacity \<le> MAX_RETAINED_INPUT_RECEIPTS)
      then Inl (InvalidCapacity receipt_capacity)
      else Inr \<lparr>
        lg_lease = lease,
        lg_next_sequence = Some 0,
        lg_pending = None,
        lg_receipts = replicate MAX_RETAINED_INPUT_RECEIPTS None,
        lg_receipt_capacity = receipt_capacity,
        lg_receipt_cursor = 0,
        lg_fenced = False\<rparr>)"

definition check_lease :: "InputLeaseId \<Rightarrow> InputSequenceLedger \<Rightarrow> InputSequenceError + unit" where
  "check_lease lease g = (if lease = lg_lease g then Inr () else Inl SequenceStaleLease)"

definition retained :: "u64 \<Rightarrow> InputSequenceLedger \<Rightarrow> LedgerReceipt option" where
  "retained sequence g =
     find (\<lambda>receipt. lr_sequence receipt = sequence)
       (flatten (take (lg_receipt_capacity g) (lg_receipts g)))"

definition admit :: "InputLeaseId \<Rightarrow> u64 \<Rightarrow> InputSequenceLedger \<Rightarrow> InputAdmission ledger_result" where
  "admit lease sequence g =
     try_then (check_lease lease g, g) (\<lambda>_ g.
     if lg_pending g = Some sequence then (Inr InFlight, g)
     else case retained sequence g of
       Some receipt \<Rightarrow> (Inr (Completed (lr_outcome receipt)), g)
     | None \<Rightarrow>
         if is_none_or (\<lambda>next. sequence < next) (lg_next_sequence g)
         then (Inr ConsumedWithoutReceipt, g)
         else if lg_fenced g then (Inl Fenced, g)
         else case lg_pending g of
           Some pending \<Rightarrow> (Inl (PreviousActionPending pending), g)
         | None \<Rightarrow>
             try_then (ok_or Fenced (lg_next_sequence g), g) (\<lambda>expected g.
             if sequence \<noteq> expected
             then (Inl (SequenceGap expected sequence), g\<lparr>lg_fenced := True\<rparr>)
             else (Inr Admitted,
                   g\<lparr>lg_next_sequence := checked_add sequence 1, lg_pending := Some sequence\<rparr>)))"

definition completes_fully :: "InputOutcome \<Rightarrow> bool" where
  "completes_fully outcome = (outcome = SubmittedToOs \<or> outcome = AppliedLocally)"

definition record_outcome ::
  "InputLeaseId \<Rightarrow> u64 \<Rightarrow> InputOutcome \<Rightarrow> InputSequenceLedger \<Rightarrow> unit ledger_result" where
  "record_outcome lease sequence outcome g =
     try_then (check_lease lease g, g) (\<lambda>_ g.
     if lg_pending g \<noteq> Some sequence then (Inl NotPending, g)
     else let g1 = g\<lparr>
            lg_pending := None,
            lg_receipts := (lg_receipts g)[lg_receipt_cursor g :=
               Some \<lparr>lr_sequence = sequence, lr_outcome = outcome\<rparr>],
            lg_receipt_cursor := (lg_receipt_cursor g + 1) mod lg_receipt_capacity g\<rparr>
       in (Inr (), if completes_fully outcome then g1 else g1\<lparr>lg_fenced := True\<rparr>))"

definition fence :: "InputSequenceLedger \<Rightarrow> InputSequenceLedger" where
  "fence g = g\<lparr>lg_fenced := True\<rparr>"

definition is_fenced :: "InputSequenceLedger \<Rightarrow> bool" where
  "is_fenced g = lg_fenced g"

definition next_sequence :: "InputSequenceLedger \<Rightarrow> u64 option" where
  "next_sequence g = lg_next_sequence g"

definition pending_sequence :: "InputSequenceLedger \<Rightarrow> u64 option" where
  "pending_sequence g = lg_pending g"

section \<open>The outcome list the ledger implements\<close>

text \<open>
  The specification keeps every outcome. Action \<open>i\<close> is the one numbered \<open>i\<close>; the next
  number to admit is the number of outcomes, plus one while an action is pending.
\<close>

record outcome_log =
  ol_outcomes :: "InputOutcome list"
  ol_pending :: bool
  ol_fenced :: bool

definition log_next :: "outcome_log \<Rightarrow> nat" where
  "log_next a = length (ol_outcomes a) + (if ol_pending a then 1 else 0)"

definition log_admit :: "nat \<Rightarrow> u64 \<Rightarrow> outcome_log \<Rightarrow> (outcome_log, InputSequenceError, InputAdmission) outcome" where
  "log_admit window sequence a =
     (let n = unat sequence; done = length (ol_outcomes a) in
      if n < done
      then (Inr (if done \<le> n + window then Completed (ol_outcomes a ! n) else ConsumedWithoutReceipt), a)
      else if ol_pending a \<and> n = done then (Inr InFlight, a)
      else if ol_fenced a then (Inl Fenced, a)
      else if ol_pending a then (Inl (PreviousActionPending (of_nat done)), a)
      else if n \<noteq> done then (Inl (SequenceGap (of_nat done) sequence), a\<lparr>ol_fenced := True\<rparr>)
      else (Inr Admitted, a\<lparr>ol_pending := True\<rparr>))"

definition log_record :: "u64 \<Rightarrow> InputOutcome \<Rightarrow> outcome_log \<Rightarrow> (outcome_log, InputSequenceError, unit) outcome" where
  "log_record sequence outcome a =
     (if \<not> (ol_pending a \<and> unat sequence = length (ol_outcomes a)) then (Inl NotPending, a)
      else (Inr (), a\<lparr>ol_outcomes := ol_outcomes a @ [outcome], ol_pending := False,
                      ol_fenced := ol_fenced a \<or> \<not> completes_fully outcome\<rparr>))"

text \<open>
  The ring holds, at position \<open>i\<close>, the latest outcome whose number is \<open>i\<close> modulo the
  capacity, if any action with such a number completed.
\<close>

definition latest_in_slot :: "nat \<Rightarrow> nat \<Rightarrow> nat \<Rightarrow> nat option" where
  "latest_in_slot window n i =
     (if i < n \<and> i < window then Some (i + window * ((n - 1 - i) div window)) else None)"

definition ring_slot :: "nat \<Rightarrow> InputOutcome list \<Rightarrow> nat \<Rightarrow> LedgerReceipt option" where
  "ring_slot window outcomes i =
     map_option (\<lambda>j. \<lparr>lr_sequence = of_nat j, lr_outcome = outcomes ! j\<rparr>)
       (latest_in_slot window (length outcomes) i)"

definition implements :: "InputSequenceLedger \<Rightarrow> outcome_log \<Rightarrow> bool" where
  "implements g a \<longleftrightarrow>
     1 \<le> lg_receipt_capacity g \<and> lg_receipt_capacity g \<le> MAX_RETAINED_INPUT_RECEIPTS
     \<and> lg_receipts g = map (ring_slot (lg_receipt_capacity g) (ol_outcomes a)) [0..<MAX_RETAINED_INPUT_RECEIPTS]
     \<and> lg_receipt_cursor g = length (ol_outcomes a) mod lg_receipt_capacity g
     \<and> (case lg_next_sequence g of None \<Rightarrow> log_next a = 2 ^ 64 | Some q \<Rightarrow> unat q = log_next a)
     \<and> (case lg_pending g of None \<Rightarrow> \<not> ol_pending a
        | Some q \<Rightarrow> ol_pending a \<and> unat q = length (ol_outcomes a))
     \<and> lg_fenced g = ol_fenced a"

section \<open>The ring\<close>

lemma latest_in_slot_iff:
  assumes "0 < w"
  shows "latest_in_slot w n i = Some j \<longleftrightarrow> j < n \<and> j mod w = i \<and> n \<le> j + w"
proof
  assume "latest_in_slot w n i = Some j"
  then have i: "i < n" "i < w" and j: "j = i + w * ((n - 1 - i) div w)"
    by (auto simp: latest_in_slot_def split: if_splits)
  define c where "c = w * ((n - 1 - i) div w)"
  have "c + (n - 1 - i) mod w = n - 1 - i" by (simp add: c_def)
  moreover have "(n - 1 - i) mod w < w" using assms by simp
  ultimately have "i + c < n" "n \<le> i + c + w" using i by linarith+
  then show "j < n \<and> j mod w = i \<and> n \<le> j + w" using i by (simp add: j c_def)
next
  assume j: "j < n \<and> j mod w = i \<and> n \<le> j + w"
  define c where "c = w * (j div w)"
  have "w * (j div w) + j mod w = j" by simp
  then have eq: "j = i + c" using j by (simp add: c_def)
  have "c \<le> n - 1 - i" "n - 1 - i < c + w" using j eq by linarith+
  then have "(n - 1 - i) div w = j div w"
    by (intro div_nat_eqI) (simp_all add: c_def)
  moreover have "i < w" using assms j by (metis mod_less_divisor)
  moreover have "i < n" using j eq by linarith
  ultimately show "latest_in_slot w n i = Some j"
    using eq unfolding c_def by (simp only: latest_in_slot_def) simp
qed

lemma latest_in_slot_Suc:
  assumes "0 < w"
  shows "latest_in_slot w (Suc n) i = (if i = n mod w then Some n else latest_in_slot w n i)"
proof (cases "i = n mod w")
  case True
  then show ?thesis using assms by (simp add: latest_in_slot_iff)
next
  case False
  have "latest_in_slot w (Suc n) i = Some j \<longleftrightarrow> latest_in_slot w n i = Some j" for j
  proof -
    have "j \<noteq> n" "j + w \<noteq> n" if "j mod w = i" using that False by auto
    then show ?thesis using assms by (auto simp: latest_in_slot_iff)
  qed
  then show ?thesis using False by (metis not_None_eq)
qed

lemma ring_slot_append:
  assumes "0 < w"
  shows "ring_slot w (outcomes @ [r]) i =
    (if i = length outcomes mod w then Some \<lparr>lr_sequence = of_nat (length outcomes), lr_outcome = r\<rparr>
     else ring_slot w outcomes i)"
proof -
  have "j < length outcomes" if "latest_in_slot w (length outcomes) i = Some j" for j
    using that assms by (simp add: latest_in_slot_iff)
  then show ?thesis using assms
    by (auto simp: ring_slot_def latest_in_slot_Suc nth_append intro!: map_option_cong)
qed

lemma ring_append:
  assumes "0 < w" "w \<le> k"
  shows "(map (ring_slot w outcomes) [0..<k])[length outcomes mod w :=
      Some \<lparr>lr_sequence = of_nat (length outcomes), lr_outcome = r\<rparr>]
    = map (ring_slot w (outcomes @ [r])) [0..<k]"
  using assms by (auto intro!: nth_equalityI simp: nth_list_update ring_slot_append)

lemma ring_elems:
  assumes "0 < w"
  shows "Some x \<in> set (map (ring_slot w outcomes) [0..<w]) \<longleftrightarrow>
    (\<exists>j. j < length outcomes \<and> length outcomes \<le> j + w
       \<and> x = \<lparr>lr_sequence = of_nat j, lr_outcome = outcomes ! j\<rparr>)"
proof
  assume "Some x \<in> set (map (ring_slot w outcomes) [0..<w])"
  then obtain i where "ring_slot w outcomes i = Some x" by auto
  then show "\<exists>j. j < length outcomes \<and> length outcomes \<le> j + w
       \<and> x = \<lparr>lr_sequence = of_nat j, lr_outcome = outcomes ! j\<rparr>"
    using assms by (auto simp: ring_slot_def latest_in_slot_iff)
next
  assume "\<exists>j. j < length outcomes \<and> length outcomes \<le> j + w
       \<and> x = \<lparr>lr_sequence = of_nat j, lr_outcome = outcomes ! j\<rparr>"
  then obtain j where j: "j < length outcomes" "length outcomes \<le> j + w"
    and x: "x = \<lparr>lr_sequence = of_nat j, lr_outcome = outcomes ! j\<rparr>" by blast
  then have "latest_in_slot w (length outcomes) (j mod w) = Some j" using assms by (simp add: latest_in_slot_iff)
  then have "ring_slot w outcomes (j mod w) = Some x" by (simp add: ring_slot_def x)
  moreover have "j mod w < w" using assms by simp
  ultimately show "Some x \<in> set (map (ring_slot w outcomes) [0..<w])"
    by (auto intro!: image_eqI [where x = "j mod w"])
qed

lemma implements_small: "implements g a \<Longrightarrow> log_next a \<le> 2 ^ 64"
proof -
  assume "implements g a"
  then have "case lg_next_sequence g of None \<Rightarrow> log_next a = 2 ^ 64 | Some q \<Rightarrow> unat q = log_next a"
    by (simp add: implements_def)
  then show ?thesis
  proof (cases "lg_next_sequence g")
    case (Some q)
    moreover have "unat q < 2 ^ 64" using unat_word_less [of q] by simp
    ultimately show ?thesis
      using \<open>case lg_next_sequence g of None \<Rightarrow> log_next a = 2 ^ 64 | Some q \<Rightarrow> unat q = log_next a\<close> by simp
  qed simp
qed

lemma retained_eq:
  assumes "implements g a"
  shows "retained q g =
    (if unat q < length (ol_outcomes a) \<and> length (ol_outcomes a) \<le> unat q + lg_receipt_capacity g
     then Some \<lparr>lr_sequence = q, lr_outcome = ol_outcomes a ! unat q\<rparr> else None)"
proof -
  let ?w = "lg_receipt_capacity g" and ?os = "ol_outcomes a"
  let ?xs = "flatten (take ?w (lg_receipts g))"
  have w: "0 < ?w" "?w \<le> MAX_RETAINED_INPUT_RECEIPTS" and small: "length ?os \<le> 2 ^ 64"
    using assms implements_small [OF assms] by (auto simp: implements_def log_next_def)
  have "take ?w (lg_receipts g) = map (ring_slot ?w ?os) [0..<?w]"
    using assms w by (simp add: implements_def take_map)
  then have elems: "x \<in> set ?xs \<longleftrightarrow> (\<exists>j. j < length ?os \<and> length ?os \<le> j + ?w
      \<and> x = \<lparr>lr_sequence = of_nat j, lr_outcome = ?os ! j\<rparr>)" for x
    using ring_elems [OF w(1)] by simp
  have match: "x = \<lparr>lr_sequence = q, lr_outcome = ?os ! unat q\<rparr> \<and> unat q < length ?os \<and> length ?os \<le> unat q + ?w"
    if "x \<in> set ?xs" "lr_sequence x = q" for x
  proof -
    from that(1) obtain j where j: "j < length ?os" "length ?os \<le> j + ?w"
      "x = \<lparr>lr_sequence = of_nat j, lr_outcome = ?os ! j\<rparr>"
      unfolding elems by blast
    have "j < 2 ^ LENGTH(64)" using j(1) small by simp
    moreover have "of_nat j = q" using j(3) that(2) by simp
    ultimately have "j = unat q" by (simp only: of_nat_eq_word_iff)
    then have "x = \<lparr>lr_sequence = q, lr_outcome = ?os ! unat q\<rparr>"
      using j(3) \<open>of_nat j = q\<close> by (simp only:)
    with j(1,2) \<open>j = unat q\<close> show ?thesis by blast
  qed
  show ?thesis
  proof (cases "unat q < length ?os \<and> length ?os \<le> unat q + ?w")
    case True
    then have "\<lparr>lr_sequence = q, lr_outcome = ?os ! unat q\<rparr> \<in> set ?xs"
      unfolding elems by (intro exI [of _ "unat q"]) simp
    then have "find (\<lambda>receipt. lr_sequence receipt = q) ?xs = Some \<lparr>lr_sequence = q, lr_outcome = ?os ! unat q\<rparr>"
      by (rule find_unique) (simp_all add: match del: set_flatten)
    then show ?thesis using True by (simp add: retained_def)
  next
    case False
    then have "find (\<lambda>receipt. lr_sequence receipt = q) ?xs = None"
      unfolding find_None_iff using match by blast
    then show ?thesis using False by (simp only: retained_def if_False)
  qed
qed

section \<open>The ledger implements the outcome list\<close>

lemma implements_new:
  "ledger_new lease capacity = Inr g \<Longrightarrow> implements g \<lparr>ol_outcomes = [], ol_pending = False, ol_fenced = False\<rparr>"
  by (auto simp: ledger_new_def implements_def log_next_def ring_slot_def latest_in_slot_def
      intro!: nth_equalityI split: if_splits)

lemma implements_fenced: "implements g a \<Longrightarrow> implements (g\<lparr>lg_fenced := True\<rparr>) (a\<lparr>ol_fenced := True\<rparr>)"
  by (auto simp: implements_def log_next_def split: option.splits)

lemma implements_admit:
  assumes "implements g a" "\<not> ol_pending a" "unat q = length (ol_outcomes a)"
  shows "implements (g\<lparr>lg_next_sequence := checked_add q 1, lg_pending := Some q\<rparr>) (a\<lparr>ol_pending := True\<rparr>)"
proof -
  have "case checked_add q 1 of None \<Rightarrow> Suc (unat q) = 2 ^ 64 | Some r \<Rightarrow> unat r = Suc (unat q)"
    using unat_word_less [of q] by (auto simp: rust_arith split: option.split)
  with assms show ?thesis by (auto simp: implements_def log_next_def split: option.splits)
qed

lemma implements_record:
  assumes "implements g a" "lg_pending g = Some q"
  shows "implements (g\<lparr>lg_pending := None,
      lg_receipts := (lg_receipts g)[lg_receipt_cursor g := Some \<lparr>lr_sequence = q, lr_outcome = r\<rparr>],
      lg_receipt_cursor := (lg_receipt_cursor g + 1) mod lg_receipt_capacity g\<rparr>)
    (a\<lparr>ol_outcomes := ol_outcomes a @ [r], ol_pending := False\<rparr>)"
proof -
  have q: "q = of_nat (length (ol_outcomes a))"
    using assms by (auto simp: implements_def word_unat_eq_iff dest!: sym [of "unat q"])
  show ?thesis
    using assms by (auto simp: implements_def log_next_def ring_append q mod_Suc_eq split: option.splits)
qed

lemma admit_refines:
  assumes "implements g a"
  shows "fst (admit (lg_lease g) q g) = fst (log_admit (lg_receipt_capacity g) q a)"
    and "implements (snd (admit (lg_lease g) q g)) (snd (log_admit (lg_receipt_capacity g) q a))"
proof -
  have pending: "case lg_pending g of None \<Rightarrow> \<not> ol_pending a
        | Some p \<Rightarrow> ol_pending a \<and> unat p = length (ol_outcomes a)"
    and consumed: "case lg_next_sequence g of None \<Rightarrow> log_next a = 2 ^ 64 | Some p \<Rightarrow> unat p = log_next a"
    and fenced: "lg_fenced g = ol_fenced a"
    using assms by (simp_all add: implements_def)
  have number: "of_nat (length (ol_outcomes a)) = p" if "unat p = length (ol_outcomes a)" for p :: u64
    by (simp add: that [symmetric])
  have below: "is_none_or (\<lambda>p. q < p) (lg_next_sequence g) \<longleftrightarrow> unat q < log_next a"
    using consumed unat_word_less [of q] by (cases "lg_next_sequence g") (auto simp: word_less_nat_alt)
  have all: "log_next a = 2 ^ 64 \<Longrightarrow> unat q < log_next a"
    using unat_word_less [of q] by simp
  show "fst (admit (lg_lease g) q g) = fst (log_admit (lg_receipt_capacity g) q a)"
    using pending consumed all
    by (auto simp: admit_def check_lease_def log_admit_def retained_eq [OF assms] below fenced log_next_def Let_def
        word_unat_eq_iff [of q] word_unat_eq_iff [of _ q] number split: option.splits if_splits)
  show "implements (snd (admit (lg_lease g) q g)) (snd (log_admit (lg_receipt_capacity g) q a))"
    using pending consumed assms all
    by (auto simp: admit_def check_lease_def log_admit_def retained_eq [OF assms] below fenced log_next_def Let_def
        word_unat_eq_iff [of q] word_unat_eq_iff [of _ q]
        split: option.splits if_splits intro: implements_fenced implements_admit)
qed

lemma record_refines:
  assumes "implements g a"
  shows "fst (record_outcome (lg_lease g) q r g) = fst (log_record q r a)"
    and "implements (snd (record_outcome (lg_lease g) q r g)) (snd (log_record q r a))"
proof -
  have pending: "lg_pending g = Some q \<longleftrightarrow> ol_pending a \<and> unat q = length (ol_outcomes a)"
    using assms by (auto simp: implements_def word_unat_eq_iff split: option.splits)
  show "fst (record_outcome (lg_lease g) q r g) = fst (log_record q r a)"
    by (auto simp: record_outcome_def check_lease_def log_record_def pending Let_def)
  show "implements (snd (record_outcome (lg_lease g) q r g)) (snd (log_record q r a))"
  proof (cases "lg_pending g = Some q")
    case True
    let ?a = "a\<lparr>ol_outcomes := ol_outcomes a @ [r], ol_pending := False\<rparr>"
    note rec = implements_record [OF assms True, of r]
    have "implements (snd (record_outcome (lg_lease g) q r g))
        (if completes_fully r then ?a else ?a\<lparr>ol_fenced := True\<rparr>)"
      using rec implements_fenced [OF rec] True
      by (simp add: record_outcome_def check_lease_def Let_def)
    moreover have "snd (log_record q r a) = (if completes_fully r then ?a else ?a\<lparr>ol_fenced := True\<rparr>)"
      using True pending by (cases a) (simp add: log_record_def)
    ultimately show ?thesis by simp
  next
    case False
    then show ?thesis using assms pending by (auto simp: record_outcome_def check_lease_def log_record_def)
  qed
qed

datatype ledger_op = LAdmit InputLeaseId u64 | LRecord InputLeaseId u64 InputOutcome | LFence

datatype ledger_reply =
    AdmitReply "InputSequenceError + InputAdmission"
  | RecordReply "InputSequenceError + unit"
  | FenceReply

fun ledger_exec :: "ledger_op \<Rightarrow> InputSequenceLedger \<Rightarrow> ledger_reply \<times> InputSequenceLedger" where
  "ledger_exec (LAdmit lease q) g = map_prod AdmitReply id (admit lease q g)"
| "ledger_exec (LRecord lease q r) g = map_prod RecordReply id (record_outcome lease q r g)"
| "ledger_exec LFence g = (FenceReply, fence g)"

fun log_exec :: "InputLeaseId \<Rightarrow> nat \<Rightarrow> ledger_op \<Rightarrow> outcome_log \<Rightarrow> ledger_reply \<times> outcome_log" where
  "log_exec lease window (LAdmit l q) a =
     (if l = lease then map_prod AdmitReply id (log_admit window q a)
      else (AdmitReply (Inl SequenceStaleLease), a))"
| "log_exec lease window (LRecord l q r) a =
     (if l = lease then map_prod RecordReply id (log_record q r a)
      else (RecordReply (Inl SequenceStaleLease), a))"
| "log_exec lease window LFence a = (FenceReply, a\<lparr>ol_fenced := True\<rparr>)"

definition empty_log :: outcome_log where
  "empty_log = \<lparr>ol_outcomes = [], ol_pending = False, ol_fenced = False\<rparr>"

definition ledger_refines :: "InputLeaseId \<Rightarrow> nat \<Rightarrow> InputSequenceLedger \<Rightarrow> outcome_log \<Rightarrow> bool" where
  "ledger_refines lease window g a \<longleftrightarrow>
     implements g a \<and> lg_lease g = lease \<and> lg_receipt_capacity g = window"

lemma ledger_constants [simp]:
  "lg_lease (snd (admit l q g)) = lg_lease g"
  "lg_receipt_capacity (snd (admit l q g)) = lg_receipt_capacity g"
  "lg_lease (snd (record_outcome l q r g)) = lg_lease g"
  "lg_receipt_capacity (snd (record_outcome l q r g)) = lg_receipt_capacity g"
  by (auto simp: admit_def record_outcome_def check_lease_def ok_or_def Let_def split: option.split)

lemma stale_lease:
  "l \<noteq> lg_lease g \<Longrightarrow> admit l q g = (Inl SequenceStaleLease, g)"
  "l \<noteq> lg_lease g \<Longrightarrow> record_outcome l q r g = (Inl SequenceStaleLease, g)"
  by (simp_all add: admit_def record_outcome_def check_lease_def)

interpretation ledger: simulation ledger_exec "log_exec lease window" "ledger_refines lease window" for lease window
proof unfold_locales
  fix g a x
  assume r: "ledger_refines lease window g a"
  then have g: "implements g a" "lg_lease g = lease" "lg_receipt_capacity g = window"
    by (simp_all add: ledger_refines_def)
  show "ledger_refines lease window (snd (ledger_exec x g)) (snd (log_exec lease window x a))"
    using r admit_refines [OF g(1)] record_refines [OF g(1)] implements_fenced [OF g(1)]
    by (cases x) (auto simp: ledger_refines_def stale_lease fence_def)
  show "fst (ledger_exec x g) = fst (log_exec lease window x a)"
    using g admit_refines [OF g(1)] record_refines [OF g(1)]
    by (cases x) (auto simp: stale_lease)
qed

lemma fresh_ledger_answers:
  assumes "ledger_new lease capacity = Inr g"
  shows "answers ledger_exec ops g = answers (log_exec lease capacity) ops empty_log"
proof (rule ledger.run_answers)
  show "ledger_refines lease capacity g empty_log"
    using assms implements_new [OF assms]
    by (auto simp: ledger_refines_def empty_log_def ledger_new_def split: if_splits)
qed

section \<open>Admissions\<close>

fun admissions :: "ledger_op list \<Rightarrow> ledger_reply list \<Rightarrow> u64 list" where
  "admissions (LAdmit l q # ops) (AdmitReply (Inr Admitted) # rs) = q # admissions ops rs"
| "admissions (x # ops) (r # rs) = admissions ops rs"
| "admissions _ _ = []"

lemma admissions_Cons:
  "admissions (x # ops) (r # rs) =
     (case (x, r) of (LAdmit l q, AdmitReply (Inr Admitted)) \<Rightarrow> [q] | _ \<Rightarrow> []) @ admissions ops rs"
  by (auto split: ledger_op.split ledger_reply.split sum.split InputAdmission.split)

lemma log_admit_Admitted:
  "fst (log_admit window q a) = Inr Admitted \<Longrightarrow>
     unat q = log_next a \<and> log_next (snd (log_admit window q a)) = Suc (log_next a)"
  by (auto simp: log_admit_def log_next_def Let_def split: if_splits)

lemma log_exec_next:
  "fst (log_exec lease window x a) \<noteq> AdmitReply (Inr Admitted) \<Longrightarrow>
     log_next (snd (log_exec lease window x a)) = log_next a"
  by (cases x) (auto simp: log_admit_def log_record_def log_next_def Let_def)

text \<open>The last number is \<open>2 ^ 64 - 1\<close>: after it nothing is admitted.\<close>

lemma log_exec_bounded:
  assumes "log_next a \<le> 2 ^ 64"
  shows "log_next (snd (log_exec lease window x a)) \<le> 2 ^ 64"
proof (cases "fst (log_exec lease window x a) = AdmitReply (Inr Admitted)")
  case True
  then obtain q where x: "x = LAdmit lease q" and adm: "fst (log_admit window q a) = Inr Admitted"
    by (cases x) (auto split: if_splits)
  moreover have "unat q < 2 ^ 64" using unsigned_less [of q] by simp
  ultimately show ?thesis using log_admit_Admitted [OF adm] by (simp add: Suc_le_eq)
next
  case False
  then show ?thesis using assms by (simp add: log_exec_next)
qed

lemma log_admissions:
  "log_next a \<le> 2 ^ 64 \<Longrightarrow> \<exists>n. admissions ops (answers (log_exec lease window) ops a) = map of_nat [log_next a..<log_next a + n]
     \<and> log_next a + n \<le> 2 ^ 64"
proof (induction ops arbitrary: a)
  case Nil
  then show ?case by (auto intro: exI [of _ 0])
next
  case (Cons x ops)
  let ?r = "fst (log_exec lease window x a)" and ?t = "snd (log_exec lease window x a)"
  have less: "log_next ?t \<le> 2 ^ 64"
    using Cons.prems log_exec_bounded by simp
  obtain n where n: "admissions ops (answers (log_exec lease window) ops ?t)
      = map of_nat [log_next ?t..<log_next ?t + n]" "log_next ?t + n \<le> 2 ^ 64"
    using Cons.IH [OF less] by blast
  show ?case
  proof (cases "?r = AdmitReply (Inr Admitted)")
    case True
    then obtain q where x: "x = LAdmit lease q" and adm: "fst (log_admit window q a) = Inr Admitted"
      by (cases x) (auto split: if_splits)
    then have t: "log_next ?t = Suc (log_next a)" and q: "q = of_nat (log_next a)"
      using log_admit_Admitted [OF adm] by (auto dest: sym)
    then show ?thesis using n True x adm
      by (intro exI [of _ "Suc n"]) (simp add: admissions_Cons case_prod_beta upt_conv_Cons del: upt_Suc)
  next
    case False
    moreover have "admissions (x # ops) (answers (log_exec lease window) (x # ops) a)
        = admissions ops (answers (log_exec lease window) ops ?t)"
      using False by (auto simp: admissions_Cons case_prod_beta split: ledger_op.split ledger_reply.split
          sum.split InputAdmission.split)
    ultimately show ?thesis using n by (auto simp: log_exec_next)
  qed
qed

lemma fenced_step:
  assumes "lg_fenced g"
  shows "lg_fenced (snd (ledger_exec x g))" and "fst (ledger_exec x g) \<noteq> AdmitReply (Inr Admitted)"
  using assms
  by (cases x; auto simp: admit_def record_outcome_def check_lease_def ok_or_def fence_def Let_def
      split: option.splits)+

lemma fenced_admissions: "lg_fenced g \<Longrightarrow> admissions ops (answers ledger_exec ops g) = []"
proof (induction ops arbitrary: g)
  case (Cons x ops)
  then show ?case
    using fenced_step [OF Cons.prems, of x]
    by (auto simp: admissions_Cons case_prod_beta split: ledger_op.split ledger_reply.split
        sum.split InputAdmission.split)
qed simp

section \<open>Properties\<close>

text \<open>C12. The ledger with its ring of receipts answers every sequence of admissions, recorded
  outcomes and fences exactly as an unbounded list of outcomes would, except that a result
  older than the chosen window is reported as consumed without a receipt. In particular an
  evicted receipt never makes its action admissible again, for all 2^64 sequence numbers.\<close>

theorem ledger_refines_outcome_list:
  assumes "ledger_new lease capacity = Inr g"
  shows "answers ledger_exec ops g = answers (log_exec lease capacity) ops empty_log"
  using assms by (rule fresh_ledger_answers)

definition example_ledger :: InputSequenceLedger where
  "example_ledger = \<lparr>lg_lease = Opaque 1, lg_next_sequence = Some 0, lg_pending = None,
     lg_receipts = replicate 32 None, lg_receipt_capacity = 1, lg_receipt_cursor = 0, lg_fenced = False\<rparr>"

lemma example_ledger_new: "ledger_new (Opaque 1) 1 = Inr example_ledger"
  by (simp add: ledger_new_def MAX_RETAINED_INPUT_RECEIPTS_def example_ledger_def)

theorem ledger_refines_outcome_list_witness:
  "answers ledger_exec [LAdmit (Opaque 1) 0, LRecord (Opaque 1) 0 SubmittedToOs, LAdmit (Opaque 1) 1,
       LRecord (Opaque 1) 1 AppliedLocally, LAdmit (Opaque 1) 0, LAdmit (Opaque 1) 1] example_ledger
   = [AdmitReply (Inr Admitted), RecordReply (Inr ()), AdmitReply (Inr Admitted), RecordReply (Inr ()),
      AdmitReply (Inr ConsumedWithoutReceipt), AdmitReply (Inr (Completed AppliedLocally))]"
  unfolding ledger_refines_outcome_list [OF example_ledger_new]
  by (simp add: empty_log_def log_admit_def log_record_def completes_fully_def Let_def)

text \<open>C13. At most once and in order: whatever a client sends and however outcomes and fences
  interleave, the sequence numbers a fresh ledger admits are 0, 1, 2, and so on, with nothing
  skipped, at most up to the last of the 2^64 numbers; so no number is admitted twice.\<close>

theorem ledger_admits_each_number_once:
  assumes "ledger_new lease capacity = Inr g"
  shows "(\<exists>n \<le> 2 ^ 64. admissions ops (answers ledger_exec ops g) = map of_nat [0..<n])
    \<and> distinct (admissions ops (answers ledger_exec ops g))"
proof -
  have "\<exists>n \<le> 2 ^ 64. admissions ops (answers ledger_exec ops g) = map of_nat [0..<n]"
    using log_admissions [of empty_log ops lease capacity] fresh_ledger_answers [OF assms]
    by (auto simp: empty_log_def log_next_def)
  then show ?thesis using distinct_numbers by metis
qed

definition example_ledger_ops :: "ledger_op list" where
  "example_ledger_ops =
     [LAdmit (Opaque 1) 0, LAdmit (Opaque 1) 0, LRecord (Opaque 1) 0 SubmittedToOs, LAdmit (Opaque 1) 0,
      LAdmit (Opaque 1) 1, LRecord (Opaque 1) 1 SubmittedToOs, LAdmit (Opaque 1) 3, LAdmit (Opaque 1) 2]"

theorem ledger_admits_each_number_once_witness:
  "admissions example_ledger_ops (answers ledger_exec example_ledger_ops example_ledger) = [0, 1]
   \<and> distinct (admissions example_ledger_ops (answers ledger_exec example_ledger_ops example_ledger))"
proof
  show "admissions example_ledger_ops (answers ledger_exec example_ledger_ops example_ledger) = [0, 1]"
    unfolding fresh_ledger_answers [OF example_ledger_new]
    by (simp add: example_ledger_ops_def empty_log_def log_admit_def log_record_def completes_fully_def Let_def)
  show "distinct (admissions example_ledger_ops (answers ledger_exec example_ledger_ops example_ledger))"
    using ledger_admits_each_number_once [OF example_ledger_new] by blast
qed

text \<open>A fence is final: once a ledger is fenced, explicitly, by a gap or by an outcome that
  is not a full submission, no operation admits anything, and recording the outcome of the
  outstanding action does not lift it.\<close>

theorem fenced_ledger_admits_nothing:
  assumes "lg_fenced g"
  shows "admissions ops (answers ledger_exec ops g) = [] \<and> lg_fenced (final_state ledger_exec ops g)"
proof
  show "admissions ops (answers ledger_exec ops g) = []" using assms by (rule fenced_admissions)
  show "lg_fenced (final_state ledger_exec ops g)"
    using assms by (induction ops arbitrary: g) (auto simp: fenced_step(1))
qed

end
