(* ===== verification/Input_Types.thy ===== *)
theory Input_Types
  imports Time_Ids "HOL-Library.Signed_Division"
begin

text \<open>
  The input vocabulary: \<open>fr-core/src/input.rs\<close> (events, credentials, bounds, keys),
  \<open>fr-core/src/held_state.rs\<close> (the bitmap of held keys and buttons) and
  \<open>fr-core/src/input_submission/scroll.rs\<close> (whole lines as wheel steps). Signed machine
  integers are words read with \<open>sint\<close>; the widened \<open>i64\<close> sums of the source stay far below
  its range and are integers here. A text is its list of Unicode scalar values, and its
  length in bytes is that of its UTF-8 encoding.
\<close>

type_synonym i32 = "32 word"
type_synonym i64 = "64 word"

section \<open>Input vocabulary\<close>

record InputView =
  iv_geometry :: DisplayGeometryGeneration
  iv_viewport :: ViewportMappingGeneration
  iv_configuration :: CodecConfigurationGeneration
  iv_recovery :: RecoveryGeneration

record InputCredentials =
  ic_session :: RemoteSessionId
  ic_lease :: InputLeaseId
  ic_ticket :: InputTicketId
  ic_view :: InputView

record DesktopPoint =
  dp_x :: i32
  dp_y :: i32

record InputBounds =
  ib_origin :: DesktopPoint
  ib_width :: u32
  ib_height :: u32

definition bounds_new :: "DesktopPoint \<Rightarrow> u32 \<Rightarrow> u32 \<Rightarrow> InputBounds option" where
  "bounds_new origin width height =
     (if width = 0 \<or> height = 0
         \<or> sint (dp_x origin) + uint width - 1 > 2147483647
         \<or> sint (dp_y origin) + uint height - 1 > 2147483647
      then None
      else Some \<lparr>ib_origin = origin, ib_width = width, ib_height = height\<rparr>)"

definition bounds_contains :: "InputBounds \<Rightarrow> DesktopPoint \<Rightarrow> bool" where
  "bounds_contains b point =
     (let x = sint (dp_x point) - sint (dp_x (ib_origin b));
          y = sint (dp_y point) - sint (dp_y (ib_origin b))
      in x \<ge> 0 \<and> y \<ge> 0 \<and> x < uint (ib_width b) \<and> y < uint (ib_height b))"

datatype PhysicalKey = PhysicalKey (usage: u16)

definition physical_key_new :: "u16 \<Rightarrow> PhysicalKey option" where
  "physical_key_new u =
     (if (u \<ge> 4 \<and> u \<le> 0xa4) \<or> (u \<ge> 0xe0 \<and> u \<le> 0xe7) then Some (PhysicalKey u) else None)"

datatype KeyTransition = Release | Press | Repeat
datatype PointerButton = Primary | Secondary | Middle | Back | Forward
datatype ScrollUnit = Pixels | Lines
datatype PointerMode = AbsoluteMode | RelativeMode

type_synonym scalar = u32
type_synonym utf8_text = "scalar list"

definition utf8_len :: "scalar \<Rightarrow> nat" where
  "utf8_len c = (if c < 0x80 then 1 else if c < 0x800 then 2 else if c < 0x10000 then 3 else 4)"

definition text_len :: "utf8_text \<Rightarrow> nat" where
  "text_len t = sum_list (map utf8_len t)"

definition MAX_COMMITTED_TEXT_BYTES :: nat where
  "MAX_COMMITTED_TEXT_BYTES = 4096"

datatype InputEvent =
    EvKey PhysicalKey KeyTransition
  | EvButton PointerButton bool DesktopPoint u64
  | EvPointer DesktopPoint
  | EvRelative u64 i64 i64
  | EvScroll DesktopPoint u64 i32 i32 ScrollUnit
  | EvText utf8_text
  | EvMode PointerMode u64

fun is_pointer :: "InputEvent \<Rightarrow> bool" where
  "is_pointer (EvPointer _) = True"
| "is_pointer _ = False"

record InputRequest =
  ir_credentials :: InputCredentials
  ir_sequence :: u64
  ir_event :: InputEvent

fun button_code :: "PointerButton \<Rightarrow> nat" where
  "button_code Primary = 1"
| "button_code Secondary = 2"
| "button_code Middle = 3"
| "button_code Back = 4"
| "button_code Forward = 5"

definition all_buttons :: "PointerButton list" where
  "all_buttons = [Primary, Secondary, Middle, Back, Forward]"

section \<open>Held state\<close>

definition KEY_BITMAP_BYTES :: nat where
  "KEY_BITMAP_BYTES = 32"

record HeldState =
  hs_keys :: "u8 list"
  hs_buttons :: u8

definition held_empty :: HeldState where
  "held_empty = \<lparr>hs_keys = replicate KEY_BITMAP_BYTES 0, hs_buttons = 0\<rparr>"

definition key_bit :: "u8 list \<Rightarrow> u16 \<Rightarrow> bool" where
  "key_bit keys u = ((keys ! (unat u div 8)) AND push_bit (unat u mod 8) 1 \<noteq> 0)"

definition from_bits :: "u8 list \<Rightarrow> u8 \<Rightarrow> HeldState option" where
  "from_bits keys buttons =
     (if buttons AND NOT 0x1f \<noteq> 0 then None
      else if \<exists>u \<in> set (map of_nat [0..<256]). key_bit keys u \<and> physical_key_new u = None then None
      else Some \<lparr>hs_keys = keys, hs_buttons = buttons\<rparr>)"

definition held_key :: "HeldState \<Rightarrow> PhysicalKey \<Rightarrow> bool" where
  "held_key h key = key_bit (hs_keys h) (usage key)"

definition set_key :: "PhysicalKey \<Rightarrow> bool \<Rightarrow> HeldState \<Rightarrow> HeldState" where
  "set_key key held h =
     (let i = unat (usage key) div 8; mask = push_bit (unat (usage key) mod 8) 1 in
      h\<lparr>hs_keys := (hs_keys h)[i := (if held then (hs_keys h ! i) OR mask
                                    else (hs_keys h ! i) AND NOT mask)]\<rparr>)"

definition held_button :: "HeldState \<Rightarrow> PointerButton \<Rightarrow> bool" where
  "held_button h button = (hs_buttons h AND push_bit (button_code button - 1) 1 \<noteq> 0)"

definition set_button :: "PointerButton \<Rightarrow> bool \<Rightarrow> HeldState \<Rightarrow> HeldState" where
  "set_button button held h =
     (let mask = push_bit (button_code button - 1) 1 in
      h\<lparr>hs_buttons := (if held then hs_buttons h OR mask else hs_buttons h AND NOT mask)\<rparr>)"

record HeldStateRequest =
  hr_session :: RemoteSessionId
  hr_lease :: InputLeaseId
  hr_sequence :: u64
  hr_next_action :: u64
  hr_held :: HeldState

section \<open>Wheel steps\<close>

definition LINE :: int where
  "LINE = 65536"

definition MAX_STEPS :: u32 where
  "MAX_STEPS = 32"

datatype WheelDirection = WheelLeft | WheelRight | WheelUp | WheelDown

record LineScroll =
  ls_horizontal :: u32
  ls_vertical :: u32
  ls_x :: WheelDirection
  ls_y :: WheelDirection

definition line_scroll_new :: "i32 \<Rightarrow> i32 \<Rightarrow> LineScroll option" where
  "line_scroll_new x y =
     (if sint x smod LINE \<noteq> 0 \<or> sint y smod LINE \<noteq> 0 then None
      else let horizontal = of_int \<bar>sint x sdiv LINE\<bar>; vertical = of_int \<bar>sint y sdiv LINE\<bar> in
      case checked_add horizontal vertical of
        None \<Rightarrow> None
      | Some count \<Rightarrow>
          if count > MAX_STEPS then None
          else Some \<lparr>ls_horizontal = horizontal, ls_vertical = vertical,
                     ls_x = (if sint x < 0 then WheelLeft else WheelRight),
                     ls_y = (if sint y < 0 then WheelUp else WheelDown)\<rparr>)"

definition native_operations :: "LineScroll \<Rightarrow> u32" where
  "native_operations s = 1 + 2 * (ls_horizontal s + ls_vertical s)"

definition wheel_directions :: "LineScroll \<Rightarrow> WheelDirection list" where
  "wheel_directions s = replicate (unat (ls_horizontal s)) (ls_x s) @ replicate (unat (ls_vertical s)) (ls_y s)"

section \<open>Flag stores\<close>

text \<open>
  Held keys and buttons are kept in several representations: a bitmap, a byte of flags, the
  boolean arrays of the input owner. All are flag stores: writing one flag changes that flag
  and no other, and keeps the store well formed.
\<close>

locale flag_store =
  fixes ok :: "'s \<Rightarrow> bool" and slot :: "'k \<Rightarrow> bool"
    and get :: "'s \<Rightarrow> 'k \<Rightarrow> bool" and put :: "'k \<Rightarrow> bool \<Rightarrow> 's \<Rightarrow> 's"
  assumes put_ok: "ok s \<Longrightarrow> slot k \<Longrightarrow> ok (put k v s)"
    and get_put: "ok s \<Longrightarrow> slot k \<Longrightarrow> slot j \<Longrightarrow> get (put k v s) j = (if j = k then v else get s j)"
begin

lemma puts_ok: "ok s \<Longrightarrow> list_all slot ks \<Longrightarrow> ok (fold (\<lambda>k. put k v) ks s)"
  by (induction ks arbitrary: s) (auto intro: put_ok)

lemma get_puts:
  "ok s \<Longrightarrow> list_all slot ks \<Longrightarrow> slot j \<Longrightarrow>
     get (fold (\<lambda>k. put k v) ks s) j = (if j \<in> set ks then v else get s j)"
  by (induction ks arbitrary: s) (auto simp: get_put put_ok)

end

lemma key_bit_iff: "key_bit keys u \<longleftrightarrow> bit (keys ! (unat u div 8)) (unat u mod 8)"
  by (simp add: key_bit_def bit_iff_and_push_bit_not_eq_0)

lemma physical_key_new_Some:
  "physical_key_new u = Some key \<longleftrightarrow> usage key = u \<and> ((u \<ge> 4 \<and> u \<le> 0xa4) \<or> (u \<ge> 0xe0 \<and> u \<le> 0xe7))"
  by (cases key) (auto simp: physical_key_new_def)

definition valid_key :: "PhysicalKey \<Rightarrow> bool" where
  "valid_key key \<longleftrightarrow> physical_key_new (usage key) = Some key"

lemma valid_key_usage: "valid_key key \<Longrightarrow> unat (usage key) < 232"
  by (auto simp: valid_key_def physical_key_new_Some word_le_nat_alt)

definition held_valid :: "HeldState \<Rightarrow> bool" where
  "held_valid h \<longleftrightarrow> length (hs_keys h) = KEY_BITMAP_BYTES \<and> from_bits (hs_keys h) (hs_buttons h) = Some h"

lemma from_bits_Some_iff:
  "from_bits keys buttons = Some h \<longleftrightarrow>
     h = \<lparr>hs_keys = keys, hs_buttons = buttons\<rparr> \<and> buttons AND NOT 0x1f = 0
     \<and> (\<forall>n < 256. key_bit keys (of_nat n) \<longrightarrow> physical_key_new (of_nat n) \<noteq> None)"
  by (auto simp: from_bits_def)

lemma same_bit_iff:
  "unat (u :: u16) = unat (v :: u16) \<longleftrightarrow> unat u div 8 = unat v div 8 \<and> unat u mod 8 = unat v mod 8"
  by (metis div_mult_mod_eq)

lemma bit_flag:
  "n < 8 \<Longrightarrow> bit (w OR push_bit m (1 :: u8)) n \<longleftrightarrow> bit w n \<or> n = m"
  "n < 8 \<Longrightarrow> bit (w AND NOT (push_bit m (1 :: u8))) n \<longleftrightarrow> bit w n \<and> n \<noteq> m"
  by (auto simp: bit_simps)

lemmas bit_flag_exp = bit_flag [unfolded push_bit_of_1]

lemma key_bit_set_key:
  assumes "length (hs_keys h) = KEY_BITMAP_BYTES" "unat (usage key) < 256" "unat u < 256"
  shows "key_bit (hs_keys (set_key key v h)) u = (if u = usage key then v else key_bit (hs_keys h) u)"
proof (cases "unat u div 8 = unat (usage key) div 8")
  case True
  then have eq: "u = usage key \<longleftrightarrow> unat u mod 8 = unat (usage key) mod 8"
    using same_bit_iff [of u "usage key"] by (simp add: word_unat_eq_iff)
  have "unat (usage key) div 8 < length (hs_keys h)" using assms by (simp add: KEY_BITMAP_BYTES_def)
  with True eq show ?thesis
    by (cases v) (simp_all add: key_bit_iff set_key_def Let_def bit_flag_exp)
next
  case False
  then have "u \<noteq> usage key" by auto
  with False show ?thesis by (simp add: key_bit_iff set_key_def Let_def)
qed

lemma held_valid_set_key:
  assumes "held_valid h" "valid_key key"
  shows "held_valid (set_key key v h)"
proof -
  have u: "unat (usage key) < 256" using valid_key_usage [OF assms(2)] by simp
  have len: "length (hs_keys h) = KEY_BITMAP_BYTES" using assms(1) by (simp add: held_valid_def)
  have "key_bit (hs_keys (set_key key v h)) (of_nat n) \<Longrightarrow> physical_key_new (of_nat n) \<noteq> None" if "n < 256" for n
    using assms that key_bit_set_key [OF len u, of "of_nat n"] unat_of_nat_less [of n, where 'a = 16]
    by (auto simp: held_valid_def from_bits_Some_iff valid_key_def split: if_splits)
  then show ?thesis
    using assms by (auto simp: held_valid_def from_bits_Some_iff set_key_def Let_def)
qed

interpretation held_keys: flag_store held_valid valid_key held_key set_key
proof unfold_locales
  fix s k v j
  assume s: "held_valid s" and k: "valid_key k"
  then show "held_valid (set_key k v s)" by (rule held_valid_set_key)
  assume "valid_key j"
  then have "unat (usage k) < 256" "unat (usage j) < 256" using k valid_key_usage by fastforce+
  then show "held_key (set_key k v s) j = (if j = k then v else held_key s j)"
    using s by (auto simp: held_key_def held_valid_def key_bit_set_key intro: PhysicalKey.expand)
qed

lemma button_flags:
  "button_code b - 1 < 5"
  "button_code a - 1 = button_code b - 1 \<longleftrightarrow> a = b"
  by (cases b; simp) (cases a; cases b; simp)

lemma button_mask_low: "push_bit (button_code b - 1) (1 :: u8) AND NOT 0x1f = 0"
  by (cases b) (simp_all add: numeral_eq_Suc)

lemma held_valid_set_button: "held_valid h \<Longrightarrow> held_valid (set_button b v h)"
proof -
  assume h: "held_valid h"
  let ?m = "push_bit (button_code b - 1) (1 :: u8)"
  have "(hs_buttons h OR ?m) AND NOT 0x1f = 0"
    using h button_mask_low [of b]
    by (simp add: held_valid_def from_bits_Some_iff bit.conj_disj_distrib2)
  moreover have "(hs_buttons h AND NOT ?m) AND NOT 0x1f = 0"
  proof -
    have "(hs_buttons h AND NOT ?m) AND NOT 0x1f = (hs_buttons h AND NOT 0x1f) AND NOT ?m"
      by (simp only: and.assoc and.commute [of "NOT ?m"])
    then show ?thesis using h by (simp only: held_valid_def from_bits_Some_iff zero_and_eq)
  qed
  ultimately show ?thesis
    using h by (auto simp: held_valid_def from_bits_Some_iff set_button_def Let_def)
qed

interpretation held_buttons: flag_store held_valid "\<lambda>_. True" held_button set_button
proof unfold_locales
  fix s k v j
  assume s: "held_valid s"
  then show "held_valid (set_button k v s)" by (rule held_valid_set_button)
  have "held_button s b = bit (hs_buttons s) (button_code b - 1)" for s b
    by (simp add: held_button_def bit_iff_and_push_bit_not_eq_0)
  then show "held_button (set_button k v s) j = (if j = k then v else held_button s j)"
    using button_flags(1) [of j] button_flags(1) [of k] button_flags(2) [of j k]
    by (simp add: set_button_def Let_def bit_flag_exp)
qed

section \<open>Whole lines\<close>

lemma LINE_pos: "0 < LINE"
  by (simp add: LINE_def)

lemma sdiv_line: "v sdiv LINE = sgn v * (\<bar>v\<bar> div LINE)"
  by (simp add: signed_divide_int_def LINE_def)

lemma smod_line_zero: "v smod LINE = 0 \<longleftrightarrow> LINE dvd v"
  by (auto simp: signed_modulo_int_def LINE_def sgn_0_0 dvd_eq_mod_eq_0 [symmetric])

lemma abs_sint_bound: "\<bar>sint (x :: i32)\<bar> \<le> 2147483648"
  using sint_greater_eq [of x] sint_less [of x] by simp

definition line_count :: "i32 \<Rightarrow> nat" where
  "line_count x = nat (\<bar>sint x\<bar> div LINE)"

lemma line_count_bound: "line_count x \<le> 32768"
proof -
  have "\<bar>sint x\<bar> div LINE \<le> 2147483648 div LINE"
    using abs_sint_bound by (rule zdiv_mono1) (simp add: LINE_def)
  then show ?thesis by (simp add: line_count_def LINE_def)
qed

lemma unat_line_count: "unat (of_int \<bar>sint x sdiv LINE\<bar> :: u32) = line_count x"
proof -
  have "\<bar>sint x sdiv LINE\<bar> = int (line_count x)"
    by (auto simp: sdiv_line line_count_def abs_mult abs_sgn_eq pos_imp_zdiv_nonneg_iff LINE_pos)
  then have "(of_int \<bar>sint x sdiv LINE\<bar> :: u32) = of_nat (line_count x)" by simp
  then show ?thesis using line_count_bound [of x] by (simp only: unat_of_nat_less) (simp add: unat_of_nat_less)
qed

lemma line_scroll_new_Some:
  "line_scroll_new x y = Some s \<longleftrightarrow>
     LINE dvd sint x \<and> LINE dvd sint y \<and> line_count x + line_count y \<le> 32
     \<and> s = \<lparr>ls_horizontal = of_nat (line_count x), ls_vertical = of_nat (line_count y),
            ls_x = (if sint x < 0 then WheelLeft else WheelRight),
            ls_y = (if sint y < 0 then WheelUp else WheelDown)\<rparr>"
proof -
  have small: "line_count x + line_count y < 2 ^ LENGTH(32)" "line_count z < 2 ^ LENGTH(32)" for z
    using line_count_bound [of x] line_count_bound [of y] line_count_bound [of z] by simp_all
  have of_count: "of_int \<bar>sint z sdiv LINE\<bar> = (of_nat (line_count z) :: u32)" for z
    unfolding word_unat_eq_iff unat_line_count unat_of_nat_less [OF small(2)] ..
  have add: "checked_add (of_nat (line_count x)) (of_nat (line_count y) :: u32)
      = Some (of_nat (line_count x + line_count y))"
    unfolding checked_add_Some_iff unat_of_nat_less [OF small(1)] unat_of_nat_less [OF small(2)] ..
  have le: "(of_nat (line_count x + line_count y) :: u32) > MAX_STEPS \<longleftrightarrow> 32 < line_count x + line_count y"
    unfolding word_less_nat_alt unat_of_nat_less [OF small(1)] by (simp add: MAX_STEPS_def)
  show ?thesis
    unfolding line_scroll_new_def Let_def of_count add option.case le smod_line_zero
    by auto
qed

lemma line_count_exact: "LINE dvd sint x \<Longrightarrow> LINE * int (line_count x) = \<bar>sint x\<bar>"
  by (simp add: line_count_def pos_imp_zdiv_nonneg_iff LINE_pos)

section \<open>Properties\<close>

text \<open>C14. A held-state bitmap is an exact set of keys and buttons: writing one key or button
  changes that one and no other, never sets a reserved usage or button bit, and the
  written state passes the validation of received bitmaps unchanged.\<close>

theorem held_state_is_a_set:
  assumes "held_valid h" and "valid_key key" and "valid_key other"
  shows "held_key (set_key key v h) other = (if other = key then v else held_key h other)
    \<and> held_button (set_key key v h) button = held_button h button
    \<and> held_button (set_button button v h) b = (if b = button then v else held_button h b)
    \<and> held_key (set_button button v h) key = held_key h key
    \<and> from_bits (hs_keys (set_key key v h)) (hs_buttons (set_key key v h)) = Some (set_key key v h)
    \<and> from_bits (hs_keys (set_button button v h)) (hs_buttons (set_button button v h))
        = Some (set_button button v h)"
proof -
  have "held_valid (set_key key v h)" "held_valid (set_button button v h)"
    using assms by (simp_all add: held_keys.put_ok held_buttons.put_ok)
  moreover have "held_button (set_button button v h) b = (if b = button then v else held_button h b)"
    using assms(1) by (simp add: held_buttons.get_put)
  ultimately show ?thesis
    using held_keys.get_put [OF assms, of v]
    by (simp add: held_valid_def held_button_def held_key_def set_key_def set_button_def Let_def)
qed

theorem held_state_is_a_set_witness:
  "held_valid held_empty \<and> held_key (set_key (PhysicalKey 4) True held_empty) (PhysicalKey 4)
   \<and> \<not> held_key (set_key (PhysicalKey 4) True held_empty) (PhysicalKey 5)"
proof -
  have empty: "held_valid held_empty"
    by (auto simp: held_valid_def held_empty_def from_bits_Some_iff key_bit_def KEY_BITMAP_BYTES_def nth_replicate
        unat_of_nat)
  have keys: "valid_key (PhysicalKey 4)" "valid_key (PhysicalKey 5)"
    by (simp_all add: valid_key_def physical_key_new_def)
  have "\<not> held_key held_empty (PhysicalKey 5)"
    by (simp add: held_key_def key_bit_def held_empty_def KEY_BITMAP_BYTES_def)
  then show ?thesis
    using empty held_state_is_a_set [OF empty keys(1) keys(1), of True]
      held_state_is_a_set [OF empty keys, of True] by simp
qed

text \<open>C15. A scroll in lines is expanded exactly or refused. It is refused exactly when an axis
  is not a whole number of lines or both axes need more than 32 steps together. Otherwise
  the steps add up to the requested distance on both axes, the horizontal ones come
  first, and the announced number of native operations is the initial positioning plus a
  press and a release per step.\<close>

theorem line_scroll_exact:
  "case line_scroll_new x y of
     None \<Rightarrow> \<not> (LINE dvd sint x \<and> LINE dvd sint y \<and> \<bar>sint x\<bar> + \<bar>sint y\<bar> \<le> 32 * LINE)
   | Some s \<Rightarrow>
       LINE * (int (count_list (wheel_directions s) WheelRight) - int (count_list (wheel_directions s) WheelLeft)) = sint x
       \<and> LINE * (int (count_list (wheel_directions s) WheelDown) - int (count_list (wheel_directions s) WheelUp)) = sint y
       \<and> length (wheel_directions s) \<le> 32
       \<and> unat (native_operations s) = 1 + 2 * length (wheel_directions s)"
proof (cases "line_scroll_new x y")
  case None
  have "LINE dvd sint x \<Longrightarrow> LINE dvd sint y \<Longrightarrow> \<bar>sint x\<bar> + \<bar>sint y\<bar> \<le> 32 * LINE \<Longrightarrow>
      line_count x + line_count y \<le> 32"
    using line_count_exact [of x] line_count_exact [of y] by (simp add: LINE_def)
  moreover have "\<not> (LINE dvd sint x \<and> LINE dvd sint y \<and> line_count x + line_count y \<le> 32)"
    using None line_scroll_new_Some by (metis option.distinct(1))
  ultimately show ?thesis using None by auto
next
  case (Some s)
  then have dvd: "LINE dvd sint x" "LINE dvd sint y" and sum: "line_count x + line_count y \<le> 32"
    and s: "s = \<lparr>ls_horizontal = of_nat (line_count x), ls_vertical = of_nat (line_count y),
            ls_x = (if sint x < 0 then WheelLeft else WheelRight),
            ls_y = (if sint y < 0 then WheelUp else WheelDown)\<rparr>"
    by (simp_all add: line_scroll_new_Some)
  have small: "unat (of_nat (line_count x) :: u32) = line_count x" "unat (of_nat (line_count y) :: u32) = line_count y"
    using sum by (simp_all add: unat_of_nat)
  have ops: "native_operations s = of_nat (1 + 2 * (line_count x + line_count y))"
    by (simp add: native_operations_def s)
  have "unat (native_operations s) = 1 + 2 * (line_count x + line_count y)"
    unfolding ops using sum by (intro unat_of_nat_less) simp
  moreover have "count_list (replicate n d) c = (if d = c then n else 0)" for n and d c :: WheelDirection
    by (induction n) auto
  ultimately show ?thesis
    using Some sum line_count_exact [OF dvd(1)] line_count_exact [OF dvd(2)]
    by (auto simp: s wheel_directions_def small)
qed

end
