(* ===== verification/Input_Session.thy ===== *)
theory Input_Session
  imports Authority Input_Sequence Input_Types
begin

text \<open>
  The owner of one granted input lease: \<open>fr-core/src/input_submission.rs\<close> (monitor, session
  and ticket issuing; the native submission itself is in \<open>Input_Dispatch\<close>) and
  \<open>fr-core/src/input_submission/control.rs\<close> (the control-renewal capability).

  The authority behind its mutex, the mutex's poison flag and the atomic revocation flag
  are shared with other threads; they form the record \<open>shared\<close>, together with whatever the
  native backend and the rest of the process keep (\<open>sh_env\<close>). The backend is a parameter:
  a record of functions on \<open>shared\<close>, one per method of the \<open>InputSink\<close> trait, one for the
  clock callback, and \<open>be_lock\<close>, what other threads do while this one waits for the mutex.
  Because each of them may change all of \<open>shared\<close>, every interleaving with other owners of
  the authority and of the revocation flag is an instance. A result of \<open>None\<close> is a panic.
\<close>

section \<open>Capabilities and operations\<close>

datatype Capability =
    CapKeys | CapRepeat | CapAbsolute | CapButtons | CapRelative | CapPixelScroll | CapLineScroll | CapText

fun capability_code :: "Capability \<Rightarrow> nat" where
  "capability_code CapKeys = 0"
| "capability_code CapRepeat = 1"
| "capability_code CapAbsolute = 2"
| "capability_code CapButtons = 3"
| "capability_code CapRelative = 4"
| "capability_code CapPixelScroll = 5"
| "capability_code CapLineScroll = 6"
| "capability_code CapText = 7"

datatype Capabilities = Capabilities (cap_bits: u16)

definition cap_with :: "Capabilities \<Rightarrow> Capability \<Rightarrow> Capabilities" where
  "cap_with c capability = Capabilities (cap_bits c OR push_bit (capability_code capability) 1)"

definition cap_contains :: "Capabilities \<Rightarrow> Capability \<Rightarrow> bool" where
  "cap_contains c capability = (cap_bits c AND push_bit (capability_code capability) 1 \<noteq> 0)"

definition cap_contains_all :: "Capabilities \<Rightarrow> Capabilities \<Rightarrow> bool" where
  "cap_contains_all c required = (cap_bits c AND cap_bits required = cap_bits required)"

definition cap_meet :: "Capabilities \<Rightarrow> Capabilities \<Rightarrow> Capabilities" where
  "cap_meet c other = Capabilities (cap_bits c AND cap_bits other)"

datatype Operation =
    OKey PhysicalKey KeyTransition
  | OAbsolute DesktopPoint
  | OButton PointerButton bool
  | ORelative i32 i32
  | OScroll i32 i32 ScrollUnit
  | OWheel WheelDirection bool
  | OText scalar

fun is_release :: "Operation \<Rightarrow> bool" where
  "is_release (OKey _ transition) = (transition = Release)"
| "is_release (OButton _ pressed) = (\<not> pressed)"
| "is_release (OWheel _ pressed) = (\<not> pressed)"
| "is_release _ = False"

datatype PlatformError =
    PlatformUnsupported | PlatformPermission | PlatformGeometryChanged | PlatformUnavailable

datatype Submission =
    Submitted
  | NotSubmitted PlatformError
  | SubmissionUnknown
  | SubmissionExpired
  | SubmissionFenced

datatype Refusal =
    RefAuthority AuthorityError
  | RefSequence InputSequenceError
  | StaleSession
  | RefStaleLease
  | StaleView
  | OutOfBounds
  | RefUnsupported
  | InvalidTransition
  | RelativeOverflow
  | ModeMismatch
  | Revoked
  | RefPlatform PlatformError
  | UnknownEffect
  | AuthorityUnavailable
  | ExpiredAtBoundary

record Receipt =
  rc_sequence :: u64
  rc_outcome :: InputOutcome
  rc_submitted_operations :: u32
  rc_refusal :: "Refusal option"

record IssuedTicketProof =
  tp_issued_at :: HostInstant
  tp_expires_at :: HostInstant
  tp_authority_until :: HostInstant
  tp_presented_sequence :: "u64 option"

section \<open>Shared state and the backend\<close>

record 'x shared =
  sh_authority :: SessionAuthority
  sh_poisoned :: bool
  sh_revoked :: bool
  sh_env :: 'x

record 'x backend =
  be_prepare :: "Operation \<Rightarrow> 'x shared \<Rightarrow> (PlatformError + unit) option \<times> 'x shared"
  be_revalidate :: "Operation \<Rightarrow> 'x shared \<Rightarrow> (Refusal + unit) option \<times> 'x shared"
  be_submit_until :: "Operation \<Rightarrow> HostInstant \<Rightarrow> 'x shared \<Rightarrow> Submission option \<times> 'x shared"
  be_submit :: "Operation \<Rightarrow> 'x shared \<Rightarrow> Submission option \<times> 'x shared"
  be_cancel_prepared :: "'x shared \<Rightarrow> 'x shared"
  be_repeat_requires_pair :: "'x shared \<Rightarrow> bool"
  be_line_scroll_requires_pairs :: "'x shared \<Rightarrow> bool"
  be_clock :: "'x shared \<Rightarrow> HostInstant \<times> 'x shared"
  be_lock :: "'x shared \<Rightarrow> 'x shared"

definition revoke_flag :: "'x shared \<Rightarrow> 'x shared" where
  "revoke_flag sh = sh\<lparr>sh_revoked := True\<rparr>"

section \<open>The monitor\<close>

record InputMonitor =
  im_lease :: InputLeaseId
  im_native_owner :: nat

definition map_refusal :: "AuthorityError + 'a \<Rightarrow> Refusal + 'a" where
  "map_refusal r = (case r of Inl e \<Rightarrow> Inl (RefAuthority e) | Inr x \<Rightarrow> Inr x)"

definition monitor_with ::
  "'x backend \<Rightarrow> InputMonitor \<Rightarrow> (SessionAuthority \<Rightarrow> 'a authority_result) \<Rightarrow> 'x shared
     \<Rightarrow> ('x shared, Refusal, 'a) outcome" where
  "monitor_with b m f sh =
     (if sh_revoked sh then (Inl Revoked, sh)
      else let sh = be_lock b sh in
      if sh_poisoned sh then (Inl AuthorityUnavailable, revoke_flag sh)
      else if sh_revoked sh then (Inl Revoked, sh)
      else if lease_id (sh_authority sh) \<noteq> Some (im_lease m)
              \<or> \<not> is_native_owner (im_native_owner m) (sh_authority sh)
      then (Inl (RefAuthority StaleLease), sh)
      else let (r, authority) = f (sh_authority sh) in
           (map_refusal r, sh\<lparr>sh_authority := authority\<rparr>))"

definition monitor_with_time ::
  "'x backend \<Rightarrow> InputMonitor \<Rightarrow> HostInstant \<Rightarrow> HostInstant
     \<Rightarrow> (HostInstant \<Rightarrow> SessionAuthority \<Rightarrow> 'a authority_result) \<Rightarrow> 'x shared
     \<Rightarrow> ((Refusal + 'a) \<times> HostInstant) \<times> 'x shared" where
  "monitor_with_time b m clock sampled f sh =
     (if sampled < clock then ((Inl (RefAuthority ClockRegression), clock), revoke_flag sh)
      else let (r, sh) = monitor_with b m (\<lambda>a. f (serialized_time sampled a) a) sh in
           ((r, sampled), sh))"

text \<open>A failed status revokes: under the lock when the authority decided, otherwise after it.\<close>

definition monitor_status :: "'x backend \<Rightarrow> InputMonitor \<Rightarrow> HostInstant \<Rightarrow> 'x shared \<Rightarrow> ('x shared, Refusal, ControlStatus) outcome" where
  "monitor_status b m now sh =
     (let (r, sh) = monitor_with b m (control_status now) sh in
      (r, if is_ok r then sh else revoke_flag sh))"

definition monitor_deadline :: "'x backend \<Rightarrow> InputMonitor \<Rightarrow> HostInstant \<Rightarrow> 'x shared \<Rightarrow> ('x shared, Refusal, HostInstant) outcome" where
  "monitor_deadline b m now sh =
     try_then (monitor_status b m now sh) (\<lambda>status sh.
     case status of
       Live until \<Rightarrow> (Inr until, sh)
     | Suspended _ _ \<Rightarrow> (Inl (RefAuthority ViewUnready), sh))"

definition monitor_authorization_deadline ::
  "'x backend \<Rightarrow> InputMonitor \<Rightarrow> HostInstant \<Rightarrow> 'x shared \<Rightarrow> ('x shared, Refusal, HostInstant) outcome" where
  "monitor_authorization_deadline b m now sh =
     try_then (monitor_status b m now sh) (\<lambda>status sh.
     case status of
       Live _ \<Rightarrow> monitor_with b m (\<lambda>a. (lease_deadline a, a)) sh
     | Suspended _ _ \<Rightarrow> (Inl (RefAuthority ViewUnready), sh))"

definition monitor_confirm_suspension_release ::
  "'x backend \<Rightarrow> InputMonitor \<Rightarrow> 'x shared \<Rightarrow> ('x shared, Refusal, unit) outcome" where
  "monitor_confirm_suspension_release b m sh = monitor_with b m (confirm_suspension_release (im_lease m)) sh"

definition monitor_authorize_ticket ::
  "'x backend \<Rightarrow> InputMonitor \<Rightarrow> InputTicketId \<Rightarrow> HostInstant \<Rightarrow> 'x shared \<Rightarrow> ('x shared, Refusal, unit) outcome" where
  "monitor_authorize_ticket b m ticket now sh =
     monitor_with b m (\<lambda>a. authorize_submission (im_lease m) ticket (serialized_time now a) a) sh"

section \<open>The session\<close>

datatype ReconciliationOutcome =
    RecApplied
  | RecIgnored
  | RecRefused
  | RecInterrupted
  | RecEffectUnknown

record Reconciliation =
  re_sequence :: u64
  re_outcome :: ReconciliationOutcome
  re_submitted_releases :: u16
  re_remaining_releases :: u16
  re_refusal :: "Refusal option"

record InputSession =
  se_monitor :: InputMonitor
  se_session :: RemoteSessionId
  se_lease :: InputLeaseId
  se_view :: InputView
  se_bounds :: InputBounds
  se_capabilities :: Capabilities
  se_ledger :: InputSequenceLedger
  se_receipts :: "Receipt option list"
  se_receipt_cursor :: usize
  se_keys :: "bool list"
  se_buttons :: "bool list"
  se_wheel :: "WheelDirection option"
  se_pointer_floor :: "u64 option"
  se_mode :: PointerMode
  se_mode_epoch :: u64
  se_cumulative :: "i64 \<times> i64"
  se_reconciliation_floor :: "u64 option"
  se_reconciliation :: "Reconciliation option"
  se_clock :: HostInstant
  se_control_taken :: bool

text \<open>
  The owner with the state it shares. \<open>w_calls\<close> records the native calls made, in order,
  with their results, the authority at the moment of the call and, for a submission under a
  ticket, the deadline it was given. It is specification state: no operation reads it.
\<close>

record native_call =
  nc_operation :: Operation
  nc_result :: "Submission option"
  nc_until :: "HostInstant option"
  nc_authority :: SessionAuthority

record 'x world =
  w_owner :: InputSession
  w_shared :: "'x shared"
  w_calls :: "native_call list"

definition from_shared_authority ::
  "'x backend \<Rightarrow> nat \<Rightarrow> InputCredentials \<Rightarrow> InputBounds \<Rightarrow> Capabilities \<Rightarrow> HostInstant \<Rightarrow> 'x shared
     \<Rightarrow> ('x shared, Refusal, InputSession) outcome" where
  "from_shared_authority b address credentials bounds capabilities now sh =
     (let sh = be_lock b sh in
      if sh_poisoned sh then (Inl AuthorityUnavailable, sh)
      else if sa_session (sh_authority sh) \<noteq> ic_session credentials then (Inl StaleSession, sh)
      else
        let (authorized, a1) =
              authorize_submission (ic_lease credentials) (ic_ticket credentials)
                (serialized_time now (sh_authority sh)) (sh_authority sh)
        in case authorized of
          Inl e \<Rightarrow> (Inl (RefAuthority e), sh\<lparr>sh_authority := a1\<rparr>)
        | Inr _ \<Rightarrow>
            let (claimed, a2) = claim_native_owner (ic_lease credentials) address a1;
                sh = sh\<lparr>sh_authority := a2\<rparr>
            in case claimed of
              Inl e \<Rightarrow> (Inl (RefAuthority e), sh)
            | Inr native_owner \<Rightarrow>
                (case ledger_new (ic_lease credentials) MAX_RETAINED_INPUT_RECEIPTS of
                   Inl e \<Rightarrow> (Inl (RefSequence e), sh)
                 | Inr ledger \<Rightarrow>
                     (Inr \<lparr>
                        se_monitor = \<lparr>im_lease = ic_lease credentials, im_native_owner = native_owner\<rparr>,
                        se_session = ic_session credentials,
                        se_lease = ic_lease credentials,
                        se_view = ic_view credentials,
                        se_bounds = bounds,
                        se_capabilities = capabilities,
                        se_ledger = ledger,
                        se_receipts = replicate MAX_RETAINED_INPUT_RECEIPTS None,
                        se_receipt_cursor = 0,
                        se_keys = replicate 256 False,
                        se_buttons = replicate 5 False,
                        se_wheel = None,
                        se_pointer_floor = None,
                        se_mode = AbsoluteMode,
                        se_mode_epoch = 0,
                        se_cumulative = (0, 0),
                        se_reconciliation_floor = None,
                        se_reconciliation = None,
                        se_clock = now,
                        se_control_taken = False\<rparr>,
                      sh\<lparr>sh_revoked := False\<rparr>)))"

definition ticket_credentials :: "InputSession \<Rightarrow> InputTicketId \<Rightarrow> InputCredentials" where
  "ticket_credentials o_s ticket =
     \<lparr>ic_session = se_session o_s, ic_lease = se_lease o_s, ic_ticket = ticket, ic_view = se_view o_s\<rparr>"

definition revoke :: "('x, 'z) world_scheme \<Rightarrow> ('x, 'z) world_scheme" where
  "revoke w = w\<lparr>w_shared := revoke_flag (w_shared w),
               w_owner := (w_owner w)\<lparr>se_ledger := fence (se_ledger (w_owner w))\<rparr>\<rparr>"

definition invalidate_view :: "('x, 'z) world_scheme \<Rightarrow> ('x, 'z) world_scheme" where
  "invalidate_view w = revoke w"

definition suspend :: "('x, 'z) world_scheme \<Rightarrow> ('x, 'z) world_scheme" where
  "suspend w = revoke w"

definition session_drop :: "('x, 'z) world_scheme \<Rightarrow> ('x, 'z) world_scheme" where
  "session_drop w = w\<lparr>w_shared := revoke_flag (w_shared w)\<rparr>"

definition check_active :: "('x, 'z) world_scheme \<Rightarrow> Refusal + unit" where
  "check_active w =
     (if sh_revoked (w_shared w) \<or> is_fenced (se_ledger (w_owner w)) then Inl Revoked else Inr ())"

text \<open>\<open>with_time\<close> on the session's own clock.\<close>

definition owner_with_time ::
  "'x backend \<Rightarrow> HostInstant \<Rightarrow> (HostInstant \<Rightarrow> SessionAuthority \<Rightarrow> 'a authority_result)
     \<Rightarrow> ('x, 'z) world_scheme \<Rightarrow> (Refusal + 'a) \<times> ('x, 'z) world_scheme" where
  "owner_with_time b now f w =
     (let ((r, clock), sh) = monitor_with_time b (se_monitor (w_owner w)) (se_clock (w_owner w)) now f (w_shared w)
      in (r, w\<lparr>w_shared := sh, w_owner := (w_owner w)\<lparr>se_clock := clock\<rparr>\<rparr>))"

definition active_with_time ::
  "'x backend \<Rightarrow> HostInstant \<Rightarrow> (HostInstant \<Rightarrow> SessionAuthority \<Rightarrow> 'a authority_result)
     \<Rightarrow> ('x, 'z) world_scheme \<Rightarrow> (Refusal + 'a) \<times> ('x, 'z) world_scheme" where
  "active_with_time b now f w = try_then (check_active w, w) (\<lambda>_ w. owner_with_time b now f w)"

definition session_issue_observation_challenge ::
  "'x backend \<Rightarrow> u128 \<Rightarrow> HostInstant \<Rightarrow> 'x world \<Rightarrow> (Refusal + HostInstant) \<times> 'x world" where
  "session_issue_observation_challenge b nonce now w =
     active_with_time b now (\<lambda>at. issue_observation_challenge nonce at) w"

definition renew_observation ::
  "'x backend \<Rightarrow> u128 \<Rightarrow> HostInstant \<Rightarrow> 'x world \<Rightarrow> (Refusal + HostInstant) \<times> 'x world" where
  "renew_observation b nonce now w =
     active_with_time b now (\<lambda>at. respond_observation_challenge nonce at) w"

definition session_issue_control_challenge ::
  "'x backend \<Rightarrow> u128 \<Rightarrow> HostInstant \<Rightarrow> 'x world \<Rightarrow> (Refusal + HostInstant) \<times> 'x world" where
  "session_issue_control_challenge b nonce now w =
     active_with_time b now (\<lambda>at. issue_control_challenge nonce at) w"

definition renew_control ::
  "'x backend \<Rightarrow> u128 \<Rightarrow> HostInstant \<Rightarrow> 'x world \<Rightarrow> (Refusal + HostInstant) \<times> 'x world" where
  "renew_control b nonce now w =
     active_with_time b now (\<lambda>at. respond_control_challenge (se_lease (w_owner w)) nonce at) w"

section \<open>Issuing tickets\<close>

definition follow_recovery :: "InputView \<Rightarrow> SessionAuthority \<Rightarrow> InputView" where
  "follow_recovery view a =
     (case sa_recovery a of
        Some g \<Rightarrow> if supersedes g (iv_recovery view) then view\<lparr>iv_recovery := g\<rparr> else view
      | None \<Rightarrow> view)"

text \<open>
  The closure of \<open>issue_ticket_snapshot\<close>. It moves the view to the authority's recovery
  generation before issuing, and that move stays when issuing then fails: the closure
  returns the view beside the result.
\<close>

definition ticket_snapshot ::
  "InputView \<Rightarrow> InputLeaseId \<Rightarrow> InputTicketId \<Rightarrow> bool \<Rightarrow> HostInstant \<Rightarrow> SessionAuthority
     \<Rightarrow> ((AuthorityError + IssuedTicketProof) \<times> InputView) authority_result" where
  "ticket_snapshot view lease ticket require_presented at a =
     (let view = follow_recovery view a;
          (issued, a) = (if require_presented then issue_presented_input_ticket lease ticket at a
                         else issue_input_ticket lease ticket at a);
          proof_r = try_res issued (\<lambda>expires_at.
                    try_res (lease_deadline a) (\<lambda>authority_until.
                    Inr \<lparr>tp_issued_at = at, tp_expires_at = expires_at,
                         tp_authority_until = authority_until,
                         tp_presented_sequence = sa_presented_sequence a\<rparr>))
      in (Inr (proof_r, view), a))"

definition issue_ticket_snapshot ::
  "'x backend \<Rightarrow> InputTicketId \<Rightarrow> HostInstant \<Rightarrow> bool \<Rightarrow> 'x world \<Rightarrow> (Refusal + IssuedTicketProof) \<times> 'x world" where
  "issue_ticket_snapshot b ticket now require_presented w =
     try_then
       (active_with_time b now
          (ticket_snapshot (se_view (w_owner w)) (se_lease (w_owner w)) ticket require_presented) w)
       (\<lambda>(issued, view) w.
          (map_refusal issued, w\<lparr>w_owner := (w_owner w)\<lparr>se_view := view\<rparr>\<rparr>))"

definition issue_ticket_proof_timed ::
  "'x backend \<Rightarrow> InputTicketId \<Rightarrow> HostInstant \<Rightarrow> 'x world \<Rightarrow> (Refusal + IssuedTicketProof) \<times> 'x world" where
  "issue_ticket_proof_timed b ticket now w = issue_ticket_snapshot b ticket now False w"

definition issue_readiness_ticket_timed ::
  "'x backend \<Rightarrow> InputTicketId \<Rightarrow> HostInstant \<Rightarrow> 'x world \<Rightarrow> (Refusal + IssuedTicketProof) \<times> 'x world" where
  "issue_readiness_ticket_timed b ticket now w = issue_ticket_snapshot b ticket now True w"

definition issue_ticket_authority_timed ::
  "'x backend \<Rightarrow> InputTicketId \<Rightarrow> HostInstant \<Rightarrow> 'x world
     \<Rightarrow> (Refusal + (HostInstant \<times> HostInstant \<times> HostInstant)) \<times> 'x world" where
  "issue_ticket_authority_timed b ticket now w =
     try_then (issue_ticket_proof_timed b ticket now w) (\<lambda>p w.
       (Inr (tp_issued_at p, tp_expires_at p, tp_authority_until p), w))"

definition issue_ticket_timed ::
  "'x backend \<Rightarrow> InputTicketId \<Rightarrow> HostInstant \<Rightarrow> 'x world \<Rightarrow> (Refusal + (HostInstant \<times> HostInstant)) \<times> 'x world" where
  "issue_ticket_timed b ticket now w =
     try_then (issue_ticket_authority_timed b ticket now w) (\<lambda>(issued, until, _) w. (Inr (issued, until), w))"

definition issue_ticket ::
  "'x backend \<Rightarrow> InputTicketId \<Rightarrow> HostInstant \<Rightarrow> 'x world \<Rightarrow> (Refusal + HostInstant) \<times> 'x world" where
  "issue_ticket b ticket now w =
     try_then (issue_ticket_timed b ticket now w) (\<lambda>(_, until) w. (Inr until, w))"

section \<open>Final checks\<close>

text \<open>
  The lock that reads the recovery generation does not test the revocation flag again; the
  one taken by \<open>with_time\<close> does.
\<close>

definition check_at_boundary ::
  "'x backend \<Rightarrow> InputCredentials \<Rightarrow> HostInstant \<Rightarrow> ('x, 'z) world_scheme
     \<Rightarrow> (Refusal + HostInstant) \<times> ('x, 'z) world_scheme" where
  "check_at_boundary b credentials now w =
     try_then (check_active w, w) (\<lambda>_ w.
     let sh = be_lock b (w_shared w); w = w\<lparr>w_shared := sh\<rparr> in
     if sh_poisoned sh then (Inl AuthorityUnavailable, w)
     else let w = w\<lparr>w_owner := (w_owner w)\<lparr>se_view := follow_recovery (se_view (w_owner w)) (sh_authority sh)\<rparr>\<rparr> in
     if ic_view credentials \<noteq> se_view (w_owner w) then (Inl StaleView, w)
     else owner_with_time b now
            (submission_deadline (se_lease (w_owner w)) (ic_ticket credentials)) w)"

definition require :: "Capability \<Rightarrow> InputSession \<Rightarrow> Refusal + unit" where
  "require cap o_s = (if cap_contains (se_capabilities o_s) cap then Inr () else Inl RefUnsupported)"

definition position_allowed :: "DesktopPoint \<Rightarrow> InputSession \<Rightarrow> Refusal + unit" where
  "position_allowed point o_s =
     try_res (require CapAbsolute o_s) (\<lambda>_.
     if se_mode o_s \<noteq> AbsoluteMode then Inl ModeMismatch
     else if \<not> bounds_contains (se_bounds o_s) point then Inl OutOfBounds
     else Inr ())"

definition raise_barrier :: "u64 \<Rightarrow> InputSession \<Rightarrow> InputSession" where
  "raise_barrier barrier o_s = o_s\<lparr>se_pointer_floor :=
     Some (case se_pointer_floor o_s of None \<Rightarrow> barrier | Some old \<Rightarrow> max old barrier)\<rparr>"

definition held_count :: "InputSession \<Rightarrow> u16" where
  "held_count o_s =
     of_nat (length (filter id (se_keys o_s @ se_buttons o_s)) + (if is_some (se_wheel o_s) then 1 else 0))"

definition retained_receipt :: "u64 \<Rightarrow> InputSession \<Rightarrow> Receipt option" where
  "retained_receipt sequence o_s = find (\<lambda>r. rc_sequence r = sequence) (flatten (se_receipts o_s))"

definition record_receipt :: "Receipt \<Rightarrow> bool \<Rightarrow> ('x, 'z) world_scheme \<Rightarrow> ('x, 'z) world_scheme" where
  "record_receipt receipt pointer w =
     (let w1 = (if pointer then w
                else let (recorded, ledger) =
                           record_outcome (se_lease (w_owner w)) (rc_sequence receipt) (rc_outcome receipt)
                             (se_ledger (w_owner w));
                         w = w\<lparr>w_owner := (w_owner w)\<lparr>se_ledger := ledger\<rparr>\<rparr>;
                         w = (if is_ok recorded then w else revoke w);
                         o_s = w_owner w
                     in w\<lparr>w_owner := o_s\<lparr>
                          se_receipts := (se_receipts o_s)[se_receipt_cursor o_s := Some receipt],
                          se_receipt_cursor := (se_receipt_cursor o_s + 1) mod length (se_receipts o_s)\<rparr>\<rparr>)
      in if completes_fully (rc_outcome receipt) then w1 else revoke w1)"

section \<open>The control-renewal capability\<close>

record ControlLease =
  co_monitor :: InputMonitor
  co_session :: RemoteSessionId
  co_lease :: InputLeaseId
  co_clock :: HostInstant

definition take_control_lease :: "'x world \<Rightarrow> ControlLease option \<times> 'x world" where
  "take_control_lease w =
     (let o_s = w_owner w in
      if se_control_taken o_s \<or> \<not> is_ok (check_active w) then (None, w)
      else (Some \<lparr>co_monitor = se_monitor o_s, co_session = se_session o_s, co_lease = se_lease o_s,
                  co_clock = se_clock o_s\<rparr>,
            w\<lparr>w_owner := o_s\<lparr>se_control_taken := True\<rparr>\<rparr>))"

definition lease_with_time ::
  "'x backend \<Rightarrow> HostInstant \<Rightarrow> (HostInstant \<Rightarrow> SessionAuthority \<Rightarrow> 'a authority_result)
     \<Rightarrow> ControlLease \<times> 'x shared \<Rightarrow> (Refusal + 'a) \<times> (ControlLease \<times> 'x shared)" where
  "lease_with_time b now f cs =
     (let (c, sh) = cs; ((r, clock), sh) = monitor_with_time b (co_monitor c) (co_clock c) now f sh
      in (r, c\<lparr>co_clock := clock\<rparr>, sh))"

definition control_lease_deadline ::
  "'x backend \<Rightarrow> HostInstant \<Rightarrow> ControlLease \<times> 'x shared \<Rightarrow> (Refusal + HostInstant) \<times> (ControlLease \<times> 'x shared)" where
  "control_lease_deadline b now cs =
     (let (r, c, sh) =
            lease_with_time b now (\<lambda>at a.
              try_then (control_status at a) (\<lambda>status a.
              case status of
                Live _ \<Rightarrow> (lease_deadline a, a)
              | Suspended until _ \<Rightarrow> (Inr until, a))) cs
      in (r, c, if is_ok r then sh else revoke_flag sh))"

definition control_lease_challenge ::
  "'x backend \<Rightarrow> u128 \<Rightarrow> HostInstant \<Rightarrow> ControlLease \<times> 'x shared
     \<Rightarrow> (Refusal + HostInstant) \<times> (ControlLease \<times> 'x shared)" where
  "control_lease_challenge b nonce now cs =
     try_then (control_lease_deadline b now cs) (\<lambda>_ cs.
     lease_with_time b now (\<lambda>at. issue_control_challenge nonce at) cs)"

definition control_lease_respond ::
  "'x backend \<Rightarrow> u128 \<Rightarrow> HostInstant \<Rightarrow> ControlLease \<times> 'x shared
     \<Rightarrow> (Refusal + HostInstant) \<times> (ControlLease \<times> 'x shared)" where
  "control_lease_respond b nonce now cs =
     try_then (control_lease_deadline b now cs) (\<lambda>_ cs.
     lease_with_time b now (\<lambda>at. respond_control_challenge (co_lease (fst cs)) nonce at) cs)"

definition control_lease_drop :: "ControlLease \<times> 'x shared \<Rightarrow> 'x shared" where
  "control_lease_drop cs = revoke_flag (snd cs)"

end
