(* ===== verification/Input_Dispatch.thy ===== *)
theory Input_Dispatch
  imports Input_Session
begin

text \<open>
  The native boundary of \<open>fr-core/src/input_submission.rs\<close>: the \<open>Attempt\<close> that carries one
  admitted request to the backend, \<open>dispatch\<close>, the release-only cleanup, \<open>maintain\<close>, and the
  release-only reconciliation of \<open>fr-core/src/input_submission/held.rs\<close>.

  A step either refuses (\<open>Refuse\<close>, the \<open>Err\<close> of the source) or unwinds (\<open>Unwind\<close>, a panic of
  the backend passing through, after which the destructors of \<open>Attempt\<close>, \<open>PreparedSink\<close> and
  \<open>ReconcileGuard\<close> have run).
\<close>

section \<open>Attempts\<close>

datatype stop = Unwind | Refuse Refusal

definition lift_refusal :: "(Refusal + 'a) \<times> 's \<Rightarrow> (stop + 'a) \<times> 's" where
  "lift_refusal r = map_prod (map_sum Refuse id) id r"

record 'x attempt = "'x world" +
  at_request :: InputRequest
  at_pointer :: bool
  at_submitted :: u32
  at_uncertain :: bool

definition track :: "Operation \<Rightarrow> bool \<Rightarrow> InputSession \<Rightarrow> InputSession" where
  "track op before o_s =
     (case op of
        OWheel direction pressed \<Rightarrow>
          if pressed then o_s\<lparr>se_wheel := Some direction\<rparr>
          else if \<not> before then o_s\<lparr>se_wheel := None\<rparr>
          else o_s
      | OKey key transition \<Rightarrow>
          if transition = Press then o_s\<lparr>se_keys := (se_keys o_s)[unat (usage key) := True]\<rparr>
          else if transition = Release \<and> \<not> before
          then o_s\<lparr>se_keys := (se_keys o_s)[unat (usage key) := False]\<rparr>
          else o_s
      | OButton button pressed \<Rightarrow>
          if pressed then o_s\<lparr>se_buttons := (se_buttons o_s)[button_code button - 1 := True]\<rparr>
          else if \<not> before then o_s\<lparr>se_buttons := (se_buttons o_s)[button_code button - 1 := False]\<rparr>
          else o_s
      | _ \<Rightarrow> o_s)"

text \<open>What \<open>one\<close> saves before the call and restores after a confirmed absence of the call.\<close>

definition restore :: "Operation \<Rightarrow> InputSession \<Rightarrow> InputSession \<Rightarrow> InputSession" where
  "restore op previous o_s =
     (case op of
        OWheel _ pressed \<Rightarrow> if pressed then o_s\<lparr>se_wheel := se_wheel previous\<rparr> else o_s
      | OKey key transition \<Rightarrow>
          if transition = Press
          then o_s\<lparr>se_keys := (se_keys o_s)[unat (usage key) := se_keys previous ! unat (usage key)]\<rparr>
          else o_s
      | OButton button pressed \<Rightarrow>
          if pressed
          then o_s\<lparr>se_buttons := (se_buttons o_s)[button_code button - 1 := se_buttons previous ! (button_code button - 1)]\<rparr>
          else o_s
      | _ \<Rightarrow> o_s)"

definition cancel_prepared :: "'x backend \<Rightarrow> ('x, 'z) world_scheme \<Rightarrow> ('x, 'z) world_scheme" where
  "cancel_prepared b w = w\<lparr>w_shared := be_cancel_prepared b (w_shared w)\<rparr>"

definition sample_clock :: "'x backend \<Rightarrow> ('x, 'z) world_scheme \<Rightarrow> HostInstant \<times> ('x, 'z) world_scheme" where
  "sample_clock b w = (let (now, sh) = be_clock b (w_shared w) in (now, w\<lparr>w_shared := sh\<rparr>))"

text \<open>
  \<open>submit_authorized\<close> with the callback of \<open>one\<close>: revalidate the prepared target, sample the
  clock and check the authority, mark the press as possible, make the call.
\<close>

definition submit_authorized ::
  "'x backend \<Rightarrow> Operation \<Rightarrow> 'x attempt \<Rightarrow> (Refusal + Submission) option \<times> 'x attempt" where
  "submit_authorized b op s =
     (let (valid, sh) = be_revalidate b op (w_shared s); s = s\<lparr>w_shared := sh\<rparr> in
      case valid of
        None \<Rightarrow> (None, s)
      | Some (Inl refusal) \<Rightarrow> (Some (Inl refusal), s)
      | Some (Inr _) \<Rightarrow>
          let (now, s) = sample_clock b s;
              (checked, s) = check_at_boundary b (ir_credentials (at_request s)) now s
          in case checked of
            Inl refusal \<Rightarrow> (Some (Inl refusal), s)
          | Inr until \<Rightarrow>
              let s = s\<lparr>w_owner := track op True (w_owner s), at_uncertain := True\<rparr>;
                  (result, sh) = be_submit_until b op until (w_shared s)
              in (map_option Inr result,
                  s\<lparr>w_shared := sh,
                    w_calls := w_calls s @ [\<lparr>nc_operation = op, nc_result = result,
                      nc_until = Some until, nc_authority = sh_authority (w_shared s)\<rparr>]\<rparr>))"

definition absence_refusal :: "Refusal + Submission \<Rightarrow> Refusal" where
  "absence_refusal r =
     (case r of
        Inl error \<Rightarrow> error
      | Inr (NotSubmitted error) \<Rightarrow> RefPlatform error
      | Inr SubmissionExpired \<Rightarrow> ExpiredAtBoundary
      | Inr SubmissionFenced \<Rightarrow> Revoked
      | Inr _ \<Rightarrow> UnknownEffect)"

definition one :: "'x backend \<Rightarrow> Operation \<Rightarrow> 'x attempt \<Rightarrow> (stop + unit) \<times> 'x attempt" where
  "one b op s =
     (let (prepared, sh) = be_prepare b op (w_shared s); s = s\<lparr>w_shared := sh\<rparr> in
      case prepared of
        None \<Rightarrow> (Inl Unwind, cancel_prepared b s)
      | Some (Inl error) \<Rightarrow> (Inl (Refuse (RefPlatform error)), cancel_prepared b s)
      | Some (Inr _) \<Rightarrow>
          let previous = w_owner s; (result, s) = submit_authorized b op s in
          case result of
            None \<Rightarrow> (Inl Unwind, cancel_prepared b s)
          | Some (Inr Submitted) \<Rightarrow>
              (Inr (), cancel_prepared b (s\<lparr>at_uncertain := False, at_submitted := at_submitted s + 1,
                                            w_owner := track op False (w_owner s)\<rparr>))
          | Some (Inr SubmissionUnknown) \<Rightarrow> (Inl (Refuse UnknownEffect), cancel_prepared b s)
          | Some absent \<Rightarrow>
              (Inl (Refuse (absence_refusal absent)),
               cancel_prepared b (s\<lparr>at_uncertain := False, w_owner := restore op previous (w_owner s)\<rparr>)))"

fun all_of :: "'x backend \<Rightarrow> Operation list \<Rightarrow> 'x attempt \<Rightarrow> (stop + unit) \<times> 'x attempt" where
  "all_of b [] s = (Inr (), s)"
| "all_of b (op # ops) s = try_then (one b op s) (\<lambda>_ s. all_of b ops s)"

definition needs :: "Refusal + 'a \<Rightarrow> 's \<Rightarrow> (stop + 'a) \<times> 's" where
  "needs r s = lift_refusal (r, s)"

section \<open>Executing a request\<close>

definition key_transition ::
  "'x backend \<Rightarrow> PhysicalKey \<Rightarrow> KeyTransition \<Rightarrow> 'x attempt \<Rightarrow> (stop + unit) \<times> 'x attempt" where
  "key_transition b key transition s =
     try_then (needs (require CapKeys (w_owner s)) s) (\<lambda>_ s.
     let held = se_keys (w_owner s) ! unat (usage key) in
     try_then
       (case transition of
          Repeat \<Rightarrow>
            try_then (needs (require CapRepeat (w_owner s)) s) (\<lambda>_ s.
            if \<not> held then (Inl (Refuse InvalidTransition), s) else (Inr (), s))
        | Press \<Rightarrow> if held then (Inl (Refuse InvalidTransition), s) else (Inr (), s)
        | Release \<Rightarrow> if \<not> held then (Inl (Refuse InvalidTransition), s) else (Inr (), s))
       (\<lambda>_ s.
         if transition = Repeat \<and> be_repeat_requires_pair b (w_shared s)
         then all_of b [OKey key Release, OKey key Press] s
         else one b (OKey key transition) s))"

definition wheel_operations :: "LineScroll \<Rightarrow> Operation list" where
  "wheel_operations discrete = concat (map (\<lambda>d. [OWheel d True, OWheel d False]) (wheel_directions discrete))"

definition relative_delta :: "i64 \<Rightarrow> i64 \<Rightarrow> Refusal + i32" where
  "relative_delta new old =
     (let n = sint new - sint old in
      if - (2 ^ 63) \<le> n \<and> n < 2 ^ 63 \<and> - (2 ^ 31) \<le> n \<and> n < 2 ^ 31
      then Inr (of_int n) else Inl RelativeOverflow)"

definition execute_button ::
  "'x backend \<Rightarrow> PointerButton \<Rightarrow> bool \<Rightarrow> DesktopPoint \<Rightarrow> u64 \<Rightarrow> 'x attempt \<Rightarrow> (stop + unit) \<times> 'x attempt" where
  "execute_button b button pressed point barrier s =
     try_then (needs (require CapButtons (w_owner s)) s) (\<lambda>_ s.
     try_then (needs (position_allowed point (w_owner s)) s) (\<lambda>_ s.
     if se_buttons (w_owner s) ! (button_code button - 1) = pressed
     then (Inl (Refuse InvalidTransition), s)
     else all_of b [OAbsolute point, OButton button pressed]
            (s\<lparr>w_owner := raise_barrier barrier (w_owner s)\<rparr>)))"

definition execute_scroll ::
  "'x backend \<Rightarrow> DesktopPoint \<Rightarrow> u64 \<Rightarrow> i32 \<Rightarrow> i32 \<Rightarrow> ScrollUnit \<Rightarrow> 'x attempt \<Rightarrow> (stop + unit) \<times> 'x attempt" where
  "execute_scroll b point barrier x y unit s =
     try_then (needs (require (case unit of Pixels \<Rightarrow> CapPixelScroll | Lines \<Rightarrow> CapLineScroll) (w_owner s)) s) (\<lambda>_ s.
     try_then (needs (position_allowed point (w_owner s)) s) (\<lambda>_ s.
     try_then
       (if unit = Lines \<and> be_line_scroll_requires_pairs b (w_shared s)
        then try_then (needs (ok_or RefUnsupported (line_scroll_new x y)) s) (\<lambda>discrete s. (Inr (Some discrete), s))
        else (Inr None, s))
       (\<lambda>discrete s.
         let s = s\<lparr>w_owner := raise_barrier barrier (w_owner s)\<rparr> in
         try_then (one b (OAbsolute point) s) (\<lambda>_ s.
         case discrete of
           Some steps \<Rightarrow> all_of b (wheel_operations steps) s
         | None \<Rightarrow> one b (OScroll x y unit) s))))"

definition execute_relative ::
  "'x backend \<Rightarrow> u64 \<Rightarrow> i64 \<Rightarrow> i64 \<Rightarrow> 'x attempt \<Rightarrow> (stop + unit) \<times> 'x attempt" where
  "execute_relative b mode_epoch cumulative_x cumulative_y s =
     try_then (needs (require CapRelative (w_owner s)) s) (\<lambda>_ s.
     if se_mode (w_owner s) \<noteq> RelativeMode \<or> mode_epoch \<noteq> se_mode_epoch (w_owner s)
     then (Inl (Refuse ModeMismatch), s)
     else try_then (needs (relative_delta cumulative_x (fst (se_cumulative (w_owner s)))) s) (\<lambda>x s.
     try_then (needs (relative_delta cumulative_y (snd (se_cumulative (w_owner s)))) s) (\<lambda>y s.
     try_then (if x \<noteq> 0 \<or> y \<noteq> 0 then one b (ORelative x y) s else (Inr (), s)) (\<lambda>_ s.
     (Inr (), s\<lparr>w_owner := (w_owner s)\<lparr>se_cumulative := (cumulative_x, cumulative_y)\<rparr>\<rparr>)))))"

definition execute_mode :: "'x backend \<Rightarrow> PointerMode \<Rightarrow> u64 \<Rightarrow> 'x attempt \<Rightarrow> (stop + unit) \<times> 'x attempt" where
  "execute_mode b mode epoch s =
     try_then (needs (require (case mode of AbsoluteMode \<Rightarrow> CapAbsolute | RelativeMode \<Rightarrow> CapRelative) (w_owner s)) s) (\<lambda>_ s.
     if epoch \<le> se_mode_epoch (w_owner s) \<or> held_count (w_owner s) \<noteq> 0
     then (Inl (Refuse InvalidTransition), s)
     else
       let o_s = (w_owner s)\<lparr>se_mode := mode, se_mode_epoch := epoch, se_cumulative := (0, 0)\<rparr>;
           (r, sh) = monitor_with b (se_monitor o_s) (invalidate_input_tickets (se_lease o_s)) (w_shared s)
       in lift_refusal (r, s\<lparr>w_owner := o_s, w_shared := sh\<rparr>))"

definition execute :: "'x backend \<Rightarrow> 'x attempt \<Rightarrow> (stop + unit) \<times> 'x attempt" where
  "execute b s =
     (let (now, s) = sample_clock b s in
      try_then (lift_refusal (check_at_boundary b (ir_credentials (at_request s)) now s)) (\<lambda>_ s.
      case ir_event (at_request s) of
        EvKey key transition \<Rightarrow> key_transition b key transition s
      | EvPointer point \<Rightarrow>
          try_then (needs (position_allowed point (w_owner s)) s) (\<lambda>_ s. one b (OAbsolute point) s)
      | EvButton button pressed point barrier \<Rightarrow> execute_button b button pressed point barrier s
      | EvScroll point barrier x y unit \<Rightarrow> execute_scroll b point barrier x y unit s
      | EvText t \<Rightarrow>
          try_then (needs (require CapText (w_owner s)) s) (\<lambda>_ s.
          if t = [] \<or> text_len t > MAX_COMMITTED_TEXT_BYTES then (Inl (Refuse RefUnsupported), s)
          else all_of b (map OText t) s)
      | EvRelative mode_epoch cumulative_x cumulative_y \<Rightarrow>
          execute_relative b mode_epoch cumulative_x cumulative_y s
      | EvMode mode epoch \<Rightarrow> execute_mode b mode epoch s))"

section \<open>Receipts and dispatch\<close>

datatype Dispatch =
    DispatchCompleted Receipt
  | DispatchConsumedWithoutReceipt
  | ObsoletePointer

definition refused_outcome :: "Refusal \<Rightarrow> InputOutcome" where
  "refused_outcome refusal =
     (case refusal of
        RefAuthority e \<Rightarrow>
          if e \<in> {TicketExpired, LeaseExpired, ObservationExpired} then ExpiredBeforeSubmission
          else RejectedBeforeSubmission
      | ExpiredAtBoundary \<Rightarrow> ExpiredBeforeSubmission
      | Revoked \<Rightarrow> CancelledBeforeSubmission
      | _ \<Rightarrow> RejectedBeforeSubmission)"

definition attempt_receipt :: "Refusal + unit \<Rightarrow> 'x attempt \<Rightarrow> Receipt" where
  "attempt_receipt result s = \<lparr>
     rc_sequence = ir_sequence (at_request s),
     rc_outcome =
       (if at_uncertain s then EffectUnknown
        else case result of
          Inr _ \<Rightarrow> if at_submitted s = 0 then AppliedLocally else SubmittedToOs
        | Inl refusal \<Rightarrow> if at_submitted s > 0 then PartiallySubmittedToOs else refused_outcome refusal),
     rc_submitted_operations = at_submitted s,
     rc_refusal = (case result of Inr _ \<Rightarrow> None | Inl refusal \<Rightarrow> Some refusal)\<rparr>"

definition world_of :: "'x attempt \<Rightarrow> 'x world" where
  "world_of s = \<lparr>w_owner = w_owner s, w_shared = w_shared s, w_calls = w_calls s\<rparr>"

definition finish :: "Refusal + unit \<Rightarrow> 'x attempt \<Rightarrow> Receipt \<times> 'x world" where
  "finish result s =
     (let receipt = attempt_receipt result s in
      (receipt, record_receipt receipt (at_pointer s) (world_of s)))"

definition run_attempt :: "'x backend \<Rightarrow> InputRequest \<Rightarrow> bool \<Rightarrow> 'x world \<Rightarrow> (stop + Receipt) \<times> 'x world" where
  "run_attempt b request pointer w =
     (let (result, s) = execute b \<lparr>w_owner = w_owner w, w_shared = w_shared w, w_calls = w_calls w,
             at_request = request, at_pointer = pointer, at_submitted = 0, at_uncertain = False\<rparr>
      in case result of
        Inl Unwind \<Rightarrow>
          (Inl Unwind, snd (finish (Inl (if at_uncertain s then UnknownEffect else Revoked)) s))
      | Inl (Refuse refusal) \<Rightarrow> map_prod Inr id (finish (Inl refusal) s)
      | Inr _ \<Rightarrow> map_prod Inr id (finish (Inr ()) s))"

definition dispatch_attempt :: "'x backend \<Rightarrow> InputRequest \<Rightarrow> bool \<Rightarrow> 'x world \<Rightarrow> (stop + Dispatch) \<times> 'x world" where
  "dispatch_attempt b request pointer w =
     map_prod (map_sum id DispatchCompleted) id (run_attempt b request pointer w)"

definition dispatch :: "'x backend \<Rightarrow> InputRequest \<Rightarrow> 'x world \<Rightarrow> (stop + Dispatch) \<times> 'x world" where
  "dispatch b request w =
     (let o_s = w_owner w in
      if ic_session (ir_credentials request) \<noteq> se_session o_s then (Inl (Refuse StaleSession), w)
      else if ic_lease (ir_credentials request) \<noteq> se_lease o_s then (Inl (Refuse RefStaleLease), w)
      else if is_pointer (ir_event request)
      then if is_some_and (\<lambda>floor. ir_sequence request \<le> floor) (se_pointer_floor o_s)
           then (Inr ObsoletePointer, w)
           else try_then (needs (check_active w) w) (\<lambda>_ w.
                dispatch_attempt b request True
                  (w\<lparr>w_owner := (w_owner w)\<lparr>se_pointer_floor := Some (ir_sequence request)\<rparr>\<rparr>))
      else
        let (admission, ledger) = admit (se_lease o_s) (ir_sequence request) (se_ledger o_s);
            w = w\<lparr>w_owner := o_s\<lparr>se_ledger := ledger\<rparr>\<rparr>
        in case admission of
          Inr Admitted \<Rightarrow> dispatch_attempt b request False w
        | Inr (Completed _) \<Rightarrow>
            (Inr (case retained_receipt (ir_sequence request) (w_owner w) of
                    None \<Rightarrow> DispatchConsumedWithoutReceipt
                  | Some receipt \<Rightarrow> DispatchCompleted receipt), w)
        | Inr _ \<Rightarrow> (Inr DispatchConsumedWithoutReceipt, w)
        | Inl error \<Rightarrow>
            (Inl (Refuse (RefSequence error)), if is_fenced (se_ledger (w_owner w)) then revoke w else w))"

section \<open>Release-only cleanup\<close>

record Cleanup =
  cl_submitted_releases :: u16
  cl_remaining :: u16

definition submit_release :: "'x backend \<Rightarrow> Operation \<Rightarrow> ('x, 'z) world_scheme \<Rightarrow> Submission option \<times> ('x, 'z) world_scheme" where
  "submit_release b op w =
     (let (result, sh) = be_submit b op (w_shared w) in
      (result, w\<lparr>w_shared := sh,
                 w_calls := w_calls w @ [\<lparr>nc_operation = op, nc_result = result,
                   nc_until = None, nc_authority = sh_authority (w_shared w)\<rparr>]\<rparr>))"

text \<open>Prepare and submit one release; the flag is cleared only when the call is confirmed.\<close>

definition release_one :: "'x backend \<Rightarrow> Operation \<Rightarrow> 'x world \<Rightarrow> (stop + bool) \<times> 'x world" where
  "release_one b op w =
     (let (prepared, sh) = be_prepare b op (w_shared w); w = w\<lparr>w_shared := sh\<rparr> in
      case prepared of
        None \<Rightarrow> (Inl Unwind, w)
      | Some (Inl _) \<Rightarrow> (Inr False, w)
      | Some (Inr _) \<Rightarrow>
          let (result, w) = submit_release b op w in
          case result of
            None \<Rightarrow> (Inl Unwind, w)
          | Some r \<Rightarrow>
              if r = Submitted then (Inr True, w\<lparr>w_owner := track op False (w_owner w)\<rparr>)
              else (Inr False, w))"

fun release_all :: "'x backend \<Rightarrow> Operation list \<Rightarrow> u16 \<Rightarrow> 'x world \<Rightarrow> (stop + u16) \<times> 'x world" where
  "release_all b [] submitted w = (Inr submitted, w)"
| "release_all b (op # ops) submitted w =
     try_then (release_one b op w) (\<lambda>ok w. release_all b ops (if ok then submitted + 1 else submitted) w)"

text \<open>
  The loops over held keys and buttons. A step clears at most its own flag, so the list of
  operations can be read off before the loop.
\<close>

definition held_key_operations :: "InputSession \<Rightarrow> Operation list" where
  "held_key_operations o_s =
     concat (map (\<lambda>index.
       if se_keys o_s ! index
       then (case physical_key_new (of_nat index) of None \<Rightarrow> [] | Some key \<Rightarrow> [OKey key Release])
       else []) [0..<length (se_keys o_s)])"

definition held_button_operations :: "InputSession \<Rightarrow> Operation list" where
  "held_button_operations o_s =
     concat (map (\<lambda>button.
       if se_buttons o_s ! (button_code button - 1) then [OButton button False] else []) all_buttons)"

definition release_wheel :: "'x backend \<Rightarrow> 'x world \<Rightarrow> (stop + u16) \<times> 'x world" where
  "release_wheel b w =
     (case se_wheel (w_owner w) of
        None \<Rightarrow> (Inr 0, w)
      | Some direction \<Rightarrow>
          map_prod (map_sum id (\<lambda>ok. if ok then 1 else 0)) (cancel_prepared b)
            (release_one b (OWheel direction False) w))"

definition release_held :: "'x backend \<Rightarrow> 'x world \<Rightarrow> (stop + Cleanup) \<times> 'x world" where
  "release_held b w =
     try_then (release_wheel b w) (\<lambda>submitted w.
     try_then (release_all b (held_key_operations (w_owner w)) submitted w) (\<lambda>submitted w.
     try_then (release_all b (held_button_operations (w_owner w)) submitted w) (\<lambda>submitted w.
     (Inr \<lparr>cl_submitted_releases = submitted, cl_remaining = held_count (w_owner w)\<rparr>, w))))"

definition cleanup :: "'x backend \<Rightarrow> 'x world \<Rightarrow> (stop + Cleanup) \<times> 'x world" where
  "cleanup b w = release_held b (revoke w)"

definition confirm_release :: "'x backend \<Rightarrow> 'x world \<Rightarrow> 'x world" where
  "confirm_release b w =
     w\<lparr>w_shared := snd (monitor_confirm_suspension_release b (se_monitor (w_owner w)) (w_shared w))\<rparr>"

definition settle :: "'x backend \<Rightarrow> 'x world \<Rightarrow> (stop + Cleanup) \<times> 'x world" where
  "settle b w =
     (if sh_revoked (w_shared w) then cleanup b w
      else (Inr \<lparr>cl_submitted_releases = 0, cl_remaining = held_count (w_owner w)\<rparr>, w))"

definition maintain :: "'x backend \<Rightarrow> HostInstant \<Rightarrow> 'x world \<Rightarrow> (stop + Cleanup) \<times> 'x world" where
  "maintain b now w =
     (if sh_revoked (w_shared w) then settle b w
      else case owner_with_time b now control_status w of
        (Inr (Live _), w) \<Rightarrow> settle b w
      | (Inr (Suspended _ released), w) \<Rightarrow>
          try_then (release_held b w) (\<lambda>report w.
            (Inr report, if cl_remaining report = 0 \<and> \<not> released then confirm_release b w else w))
      | (Inl _, w) \<Rightarrow> settle b (revoke w))"

section \<open>Release-only reconciliation\<close>

definition missing_releases :: "HeldState \<Rightarrow> InputSession \<Rightarrow> Operation list" where
  "missing_releases held o_s =
     concat (map (\<lambda>u.
       case physical_key_new (of_nat u) of
         None \<Rightarrow> []
       | Some key \<Rightarrow> if se_keys o_s ! u \<and> \<not> held_key held key then [OKey key Release] else []) [0..<256])
     @ concat (map (\<lambda>button.
       if se_buttons o_s ! (button_code button - 1) \<and> \<not> held_button held button
       then [OButton button False] else []) all_buttons)"

definition check_reconciliation :: "'x backend \<Rightarrow> HostInstant \<Rightarrow> 'x world \<Rightarrow> (Refusal + unit) \<times> 'x world" where
  "check_reconciliation b now w =
     active_with_time b now (\<lambda>at a.
       let (live, a) = has_live_control at a in (if live then Inr () else Inl NoLease, a)) w"

definition clocked_reconciliation :: "'x backend \<Rightarrow> 'x world \<Rightarrow> (stop + unit) \<times> 'x world" where
  "clocked_reconciliation b w =
     (let (now, w) = sample_clock b w in lift_refusal (check_reconciliation b now w))"

definition update_report :: "(Reconciliation \<Rightarrow> Reconciliation) \<Rightarrow> 'x world \<Rightarrow> 'x world" where
  "update_report f w = w\<lparr>w_owner := (w_owner w)\<lparr>se_reconciliation :=
     map_option f (se_reconciliation (w_owner w))\<rparr>\<rparr>"

definition reconcile_submit :: "'x backend \<Rightarrow> Operation \<Rightarrow> 'x world \<Rightarrow> (stop + unit) \<times> 'x world" where
  "reconcile_submit b op w =
     (let w = update_report (\<lambda>r. r\<lparr>re_outcome := RecEffectUnknown\<rparr>) w;
          (result, w) = submit_release b op w
      in case result of
        None \<Rightarrow> (Inl Unwind, w)
      | Some Submitted \<Rightarrow>
          (Inr (), update_report (\<lambda>r. r\<lparr>
             re_submitted_releases := re_submitted_releases r + 1,
             re_remaining_releases := re_remaining_releases r - 1,
             re_outcome := RecInterrupted\<rparr>) (w\<lparr>w_owner := track op False (w_owner w)\<rparr>))
      | Some SubmissionUnknown \<Rightarrow> (Inl (Refuse UnknownEffect), w)
      | Some refused \<Rightarrow>
          (Inl (Refuse (absence_refusal (Inr refused))),
           update_report (\<lambda>r. r\<lparr>re_outcome := RecRefused\<rparr>) w))"

definition reconcile_one :: "'x backend \<Rightarrow> Operation \<Rightarrow> 'x world \<Rightarrow> (stop + unit) \<times> 'x world" where
  "reconcile_one b op w =
     (let (prepared, sh) = be_prepare b op (w_shared w); w = w\<lparr>w_shared := sh\<rparr> in
      case prepared of
        None \<Rightarrow> (Inl Unwind, cancel_prepared b w)
      | Some (Inl error) \<Rightarrow> (Inl (Refuse (RefPlatform error)), cancel_prepared b w)
      | Some (Inr _) \<Rightarrow>
          map_prod id (cancel_prepared b)
            (try_then (clocked_reconciliation b w) (\<lambda>_ w. reconcile_submit b op w)))"

fun reconcile_all :: "'x backend \<Rightarrow> Operation list \<Rightarrow> 'x world \<Rightarrow> (stop + unit) \<times> 'x world" where
  "reconcile_all b [] w = (Inr (), w)"
| "reconcile_all b (op # ops) w = try_then (reconcile_one b op w) (\<lambda>_ w. reconcile_all b ops w)"

definition ignored_report :: "HeldStateRequest \<Rightarrow> Reconciliation" where
  "ignored_report request = \<lparr>re_sequence = hr_sequence request, re_outcome = RecIgnored,
     re_submitted_releases = 0, re_remaining_releases = 0, re_refusal = None\<rparr>"

definition reconcile_held ::
  "'x backend \<Rightarrow> HeldStateRequest \<Rightarrow> 'x world \<Rightarrow> (stop + Reconciliation) \<times> 'x world" where
  "reconcile_held b request w =
     (let o_s = w_owner w in
      if hr_session request \<noteq> se_session o_s \<or> hr_lease request \<noteq> se_lease o_s
         \<or> \<not> is_ok (check_active w)
         \<or> is_some_and (\<lambda>floor. hr_sequence request \<le> floor) (se_reconciliation_floor o_s)
      then (Inr (ignored_report request), w)
      else case next_sequence (se_ledger o_s) of
        None \<Rightarrow> (Inr (ignored_report request), w)
      | Some expected \<Rightarrow>
          if hr_next_action request < expected then (Inr (ignored_report request), w)
          else if hr_next_action request > expected \<or> is_some (pending_sequence (se_ledger o_s))
          then (Inl (Refuse (RefSequence (SequenceGap expected (hr_next_action request)))), revoke w)
          else
            let operations = missing_releases (hr_held request) o_s;
                w = w\<lparr>w_owner := o_s\<lparr>se_reconciliation_floor := Some (hr_sequence request),
                     se_reconciliation := Some \<lparr>re_sequence = hr_sequence request,
                       re_outcome = RecInterrupted, re_submitted_releases = 0,
                       re_remaining_releases = of_nat (length operations), re_refusal = None\<rparr>\<rparr>\<rparr>;
                (result, w) = try_then (clocked_reconciliation b w) (\<lambda>_ w. reconcile_all b operations w)
            in case result of
              Inl Unwind \<Rightarrow> (Inl Unwind, revoke w)
            | Inl (Refuse error) \<Rightarrow>
                let w = update_report (\<lambda>r. r\<lparr>
                          re_outcome := (if re_outcome r \<noteq> RecEffectUnknown then RecRefused else re_outcome r),
                          re_refusal := Some error\<rparr>) (revoke w)
                in (Inr (the (se_reconciliation (w_owner w))), w)
            | Inr _ \<Rightarrow>
                let w = update_report (\<lambda>r. r\<lparr>re_outcome := RecApplied\<rparr>) w
                in (Inr (the (se_reconciliation (w_owner w))), w))"

end
