(* ===== verification/Input_Safety.thy ===== *)
theory Input_Safety
  imports Authority_Control Input_Dispatch
begin

text \<open>
  What the input owner guarantees at the native boundary, for every backend and every
  interleaving with the other owners of the shared authority. An attempt changes its owner
  and its call record in a few ways only; the locale \<open>attempt_invariant\<close> lists them and
  carries a property through the execution of a whole request.
\<close>

section \<open>One native operation\<close>

text \<open>A change of the shared state, the view and the clock; no call, nothing held changes.\<close>

definition quietly :: "'x shared \<Rightarrow> InputView \<Rightarrow> HostInstant \<Rightarrow> ('x, 'z) world_scheme \<Rightarrow> ('x, 'z) world_scheme" where
  "quietly sh v clk w = w\<lparr>w_shared := sh, w_owner := (w_owner w)\<lparr>se_view := v, se_clock := clk\<rparr>\<rparr>"

definition quiet :: "('x, 'z) world_scheme \<Rightarrow> ('x, 'z) world_scheme \<Rightarrow> bool" where
  "quiet w w' \<longleftrightarrow> (\<exists>sh v clk. w' = quietly sh v clk w)"

lemma quietI: "w' = quietly sh v clk w \<Longrightarrow> quiet w w'"
  unfolding quiet_def by blast

lemma quiet_intros:
  "quiet w w"
  "quiet w (w\<lparr>w_shared := sh\<rparr>)"
  "quiet w (w\<lparr>w_owner := (w_owner w)\<lparr>se_view := v\<rparr>\<rparr>)"
  "quiet w (w\<lparr>w_shared := sh, w_owner := (w_owner w)\<lparr>se_view := v\<rparr>\<rparr>)"
  "quiet w (w\<lparr>w_shared := sh, w_owner := (w_owner w)\<lparr>se_clock := clk\<rparr>\<rparr>)"
proof goal_cases
  case 1 show ?case by (rule quietI [of _ "w_shared w" "se_view (w_owner w)" "se_clock (w_owner w)"]) (simp add: quietly_def)
next
  case 2 show ?case by (rule quietI [of _ sh "se_view (w_owner w)" "se_clock (w_owner w)"]) (simp add: quietly_def)
next
  case 3 show ?case by (rule quietI [of _ "w_shared w" v "se_clock (w_owner w)"]) (simp add: quietly_def)
next
  case 4 show ?case by (rule quietI [of _ sh v "se_clock (w_owner w)"]) (simp add: quietly_def)
next
  case 5 show ?case by (rule quietI [of _ sh "se_view (w_owner w)" clk]) (simp add: quietly_def)
qed

lemma quiet_trans: "quiet w w' \<Longrightarrow> quiet w' w'' \<Longrightarrow> quiet w w''"
  unfolding quiet_def by (elim exE) (rule quietI [unfolded quiet_def], simp add: quietly_def)

text \<open>The call record of a submission that passed the final check of this owner.\<close>

definition authorized_call :: "InputSession \<Rightarrow> InputCredentials \<Rightarrow> native_call \<Rightarrow> bool" where
  "authorized_call o_s credentials c \<longleftrightarrow>
     (\<exists>at until. nc_until c = Some until \<and> at < until
        \<and> sa_last_checked (nc_authority c) = Some at
        \<and> submission_live (se_lease o_s) (ic_ticket credentials) at (nc_authority c)
        \<and> lease_id (nc_authority c) = Some (im_lease (se_monitor o_s))
        \<and> is_native_owner (im_native_owner (se_monitor o_s)) (nc_authority c))"

definition certain :: "Submission option \<Rightarrow> bool" where
  "certain r \<longleftrightarrow> r \<noteq> None \<and> r \<noteq> Some SubmissionUnknown"

definition after_call :: "native_call \<Rightarrow> 'x attempt \<Rightarrow> 'x attempt" where
  "after_call c s =
     (let op = nc_operation c; tracked = track op True (w_owner s) in
      s\<lparr>w_calls := w_calls s @ [c],
        w_owner := (if nc_result c = Some Submitted then track op False tracked
                    else if certain (nc_result c) then restore op (w_owner s) tracked
                    else tracked),
        at_submitted := (if nc_result c = Some Submitted then at_submitted s + 1 else at_submitted s),
        at_uncertain := (\<not> certain (nc_result c))\<rparr>)"

lemma monitor_with_InrD:
  assumes "monitor_with b m f sh = (Inr x, sh')"
  shows "\<exists>a. f a = (Inr x, sh_authority sh') \<and> lease_id a = Some (im_lease m)
    \<and> is_native_owner (im_native_owner m) a"
  using assms
  by (auto simp: monitor_with_def Let_def map_refusal_def split: if_splits prod.splits sum.splits)

lemma owner_with_time_quiet: "quiet w (snd (owner_with_time b now f w))"
  by (auto simp: owner_with_time_def split: prod.split intro: quiet_intros)

lemma check_at_boundary_quiet: "quiet w (snd (check_at_boundary b credentials now w))"
  by (auto simp: check_at_boundary_def check_active_def Let_def
      intro: quiet_intros quiet_trans [OF _ owner_with_time_quiet])

lemma sample_clock_quiet: "quiet w (snd (sample_clock b w))"
  by (auto simp: sample_clock_def split: prod.split intro: quiet_intros)

lemma cancel_prepared_quiet: "quiet w (cancel_prepared b w)"
  by (simp add: cancel_prepared_def quiet_intros)

lemma quiet_owner:
  assumes "quiet w w'"
  shows "w_calls w' = w_calls w" "se_keys (w_owner w') = se_keys (w_owner w)"
    "se_buttons (w_owner w') = se_buttons (w_owner w)" "se_wheel (w_owner w') = se_wheel (w_owner w)"
    "se_ledger (w_owner w') = se_ledger (w_owner w)" "se_receipts (w_owner w') = se_receipts (w_owner w)"
    "se_lease (w_owner w') = se_lease (w_owner w)" "se_monitor (w_owner w') = se_monitor (w_owner w)"
    "se_receipt_cursor (w_owner w') = se_receipt_cursor (w_owner w)"
    "se_session (w_owner w') = se_session (w_owner w)"
  using assms by (auto simp: quiet_def quietly_def)

lemma quiet_attempt:
  fixes s :: "'x attempt"
  assumes "quiet s s'"
  shows "at_request s' = at_request s" "at_pointer s' = at_pointer s"
    "at_submitted s' = at_submitted s" "at_uncertain s' = at_uncertain s"
  using assms by (auto simp: quiet_def quietly_def)

lemma check_at_boundary_authorizes:
  assumes "check_at_boundary b credentials now w = (Inr until, w')"
  shows "authorized_call (w_owner w') credentials
    \<lparr>nc_operation = op, nc_result = r, nc_until = Some until, nc_authority = sh_authority (w_shared w')\<rparr>"
    and "check_active w = Inr ()"
proof -
  let ?o = "w_owner w"
  obtain sh v where "owner_with_time b now (submission_deadline (se_lease ?o) (ic_ticket credentials))
      (w\<lparr>w_shared := sh, w_owner := ?o\<lparr>se_view := v\<rparr>\<rparr>) = (Inr until, w')"
    and active: "check_active w = Inr ()"
    using assms by (auto simp: check_at_boundary_def Let_def split: if_splits dest!: try_then_InrD)
  then obtain a at where sub: "submission_deadline (se_lease ?o) (ic_ticket credentials) at a
        = (Inr until, sh_authority (w_shared w'))"
    and a: "lease_id a = Some (im_lease (se_monitor ?o))" "is_native_owner (im_native_owner (se_monitor ?o)) a"
    and w': "se_lease (w_owner w') = se_lease ?o" "se_monitor (w_owner w') = se_monitor ?o"
    by (auto simp: owner_with_time_def monitor_with_time_def split: if_splits prod.splits dest!: monitor_with_InrD)
  note live = submission_deadline_live [OF sub]
  have auth: "sh_authority (w_shared w') = a\<lparr>sa_last_checked := Some at\<rparr>"
    "submission_live (se_lease ?o) (ic_ticket credentials) at (sh_authority (w_shared w'))"
    using live(1) by (auto simp: authorize_submission_ok_iff)
  then have "at < until" using live(2) by blast
  with auth a w' show "authorized_call (w_owner w') credentials
    \<lparr>nc_operation = op, nc_result = r, nc_until = Some until, nc_authority = sh_authority (w_shared w')\<rparr>"
    by (auto simp: authorized_call_def lease_id_def is_native_owner_def)
  show "check_active w = Inr ()" by (rule active)
qed

definition call_record :: "Operation \<Rightarrow> Submission option \<Rightarrow> HostInstant \<Rightarrow> ('x, 'z) world_scheme \<Rightarrow> native_call" where
  "call_record op r until w =
     \<lparr>nc_operation = op, nc_result = r, nc_until = Some until, nc_authority = sh_authority (w_shared w)\<rparr>"

lemma check_active_fence: "check_active w = Inr () \<Longrightarrow> \<not> lg_fenced (se_ledger (w_owner w))"
  by (simp add: check_active_def is_fenced_def split: if_splits)

lemma submit_authorized_cases:
  fixes s :: "'x attempt"
  obtains (no_call) e s' where "submit_authorized b op s = (e, s')" "quiet s s'"
      "e = None \<or> (\<exists>refusal. e = Some (Inl refusal))"
  | (call) s1 r sh c where
      "submit_authorized b op s = (map_option Inr r,
         s1\<lparr>w_owner := track op True (w_owner s1), at_uncertain := True, w_shared := sh, w_calls := w_calls s1 @ [c]\<rparr>)"
      "quiet s s1" "nc_operation c = op" "nc_result c = r"
      "authorized_call (w_owner s1) (ir_credentials (at_request s1)) c" "\<not> lg_fenced (se_ledger (w_owner s1))"
proof -
  obtain valid sh0 where v: "be_revalidate b op (w_shared s) = (valid, sh0)" by fastforce
  let ?s0 = "s\<lparr>w_shared := sh0\<rparr>"
  obtain now s1 where t: "sample_clock b ?s0 = (now, s1)" by fastforce
  obtain checked s2 where c: "check_at_boundary b (ir_credentials (at_request s1)) now s1 = (checked, s2)" by fastforce
  have q0: "quiet s ?s0" by (rule quiet_intros)
  have q1: "quiet ?s0 s1" using sample_clock_quiet [of ?s0 b] by (simp add: t)
  have q2: "quiet s1 s2" using check_at_boundary_quiet [of s1 b "ir_credentials (at_request s1)" now] by (simp add: c)
  note q = quiet_trans [OF quiet_trans [OF q0 q1] q2]
  show thesis
  proof (cases "\<exists>x until. valid = Some (Inr x) \<and> checked = Inr until")
    case False
    then have "fst (submit_authorized b op s) = None \<or> (\<exists>refusal. fst (submit_authorized b op s) = Some (Inl refusal))"
      and "quiet s (snd (submit_authorized b op s))"
      using v t c q q0 by (auto simp: submit_authorized_def Let_def split: option.split sum.split)
    then show thesis using no_call by (metis prod.collapse)
  next
    case True
    then obtain x until where ok: "valid = Some (Inr x)" "checked = Inr until" by blast
    let ?w = "s2\<lparr>w_owner := track op True (w_owner s2), at_uncertain := True\<rparr>"
    obtain r sh where r: "be_submit_until b op until (w_shared ?w) = (r, sh)" by fastforce
    have "submit_authorized b op s = (map_option Inr r,
        ?w\<lparr>w_shared := sh, w_calls := w_calls s2 @ [call_record op r until s2]\<rparr>)"
      using v t c ok r by (simp add: submit_authorized_def Let_def call_record_def)
    moreover have "authorized_call (w_owner s2) (ir_credentials (at_request s2)) (call_record op r until s2)"
      using check_at_boundary_authorizes(1) [OF c [unfolded ok], of op r] quiet_attempt [OF q2]
      by (simp add: call_record_def)
    moreover have "\<not> lg_fenced (se_ledger (w_owner s2))"
      using check_active_fence [OF check_at_boundary_authorizes(2) [OF c [unfolded ok]]] quiet_owner [OF q2] by simp
    ultimately show thesis using call q by (simp add: call_record_def)
  qed
qed

lemma restore_same_held:
  "quiet w w' \<Longrightarrow> restore op (w_owner w) = restore op (w_owner w')"
  by (rule ext) (simp add: restore_def quiet_owner [of w w'] split: Operation.split)

lemma restore_unchanged: "restore op o_s o_s = o_s"
  by (simp add: restore_def split: Operation.split)

text \<open>
  One operation either makes no call and stops, or makes exactly one authorized call and
  succeeds exactly when that call was submitted.
\<close>

lemma one_cases [consumes 1, case_names no_call call]:
  fixes s :: "'x attempt"
  assumes "\<not> at_uncertain s"
  obtains (no_call) e s' where "one b op s = (Inl e, s')" "quiet s s'"
  | (call) s1 c s' r where "one b op s = (r, s')" "quiet s s1" "quiet (after_call c s1) s'"
      "nc_operation c = op" "authorized_call (w_owner s1) (ir_credentials (at_request s1)) c"
      "\<not> lg_fenced (se_ledger (w_owner s1))" "r = Inr () \<longleftrightarrow> nc_result c = Some Submitted"
proof -
  obtain prepared sh where p: "be_prepare b op (w_shared s) = (prepared, sh)" by fastforce
  let ?s = "s\<lparr>w_shared := sh\<rparr>"
  have q: "quiet s ?s" by (rule quiet_intros)
  show thesis
  proof (cases "\<exists>x. prepared = Some (Inr x)")
    case False
    then have "\<exists>e. one b op s = (Inl e, cancel_prepared b ?s)"
      using p by (auto simp: one_def Let_def split: option.split sum.split)
    then show thesis using no_call quiet_trans [OF q cancel_prepared_quiet] by blast
  next
    case True
    then have p': "be_prepare b op (w_shared s) = (Some (Inr ()), sh)" using p by auto
    show thesis
    proof (cases rule: submit_authorized_cases [of b op ?s])
      case (no_call e t)
      have prev: "restore op (w_owner s) = restore op (w_owner t)"
        using restore_same_held [OF no_call(2)] by simp
      have "t\<lparr>at_uncertain := False, w_owner := restore op (w_owner s) (w_owner t)\<rparr> = t"
        using assms quiet_attempt [OF no_call(2)] by (cases t) (simp add: prev restore_unchanged)
      then have "\<exists>e'. one b op s = (Inl e', cancel_prepared b t)"
        using p' no_call(1,3) by (auto simp: one_def Let_def)
      then show thesis
        using that(1) quiet_trans [OF quiet_trans [OF q no_call(2)] cancel_prepared_quiet] by blast
    next
      case (call s1 r sh' c)
      let ?t = "s1\<lparr>w_owner := track op True (w_owner s1), at_uncertain := True, w_shared := sh', w_calls := w_calls s1 @ [c]\<rparr>"
      let ?s1 = "s1\<lparr>w_shared := sh'\<rparr>"
      have q1: "quiet s ?s1" by (intro quiet_trans [OF quiet_trans [OF q call(2)]] quiet_intros)
      have prev: "restore op (w_owner s) = restore op (w_owner s1)"
        using restore_same_held [OF call(2)] by simp
      obtain verdict t where one: "one b op s = (verdict, t)" by fastforce
      then have t: "t = cancel_prepared b (after_call c ?s1)"
        and v: "verdict = Inr () \<longleftrightarrow> nc_result c = Some Submitted"
        using p' call(1,3,4) prev
        by (cases s1; auto simp: one_def Let_def after_call_def certain_def
            split: option.splits sum.splits Submission.splits)+
      show thesis
        by (rule that(2) [OF one q1 _ call(3) _ _ v]) (use call(5,6) in \<open>simp_all add: t cancel_prepared_quiet\<close>)
    qed
  qed
qed

section \<open>Properties of an attempt\<close>

text \<open>Wheel buttons are pressed only when none is down and released only when that one is.\<close>

fun wheel_fits :: "Operation \<Rightarrow> WheelDirection option \<Rightarrow> bool" where
  "wheel_fits (OWheel d pressed) wheel = (wheel = (if pressed then None else Some d))"
| "wheel_fits _ wheel = True"

fun wheel_after :: "Operation \<Rightarrow> WheelDirection option \<Rightarrow> WheelDirection option" where
  "wheel_after (OWheel d pressed) wheel = (if pressed then Some d else None)"
| "wheel_after _ wheel = wheel"

fun wheel_plan :: "Operation list \<Rightarrow> WheelDirection option \<Rightarrow> bool" where
  "wheel_plan [] wheel = True"
| "wheel_plan (op # ops) wheel = (wheel_fits op wheel \<and> wheel_plan ops (wheel_after op wheel))"

lemma wheel_plan_operations: "wheel_plan (wheel_operations steps) None"
proof -
  have "wheel_plan (concat (map (\<lambda>d. [OWheel d True, OWheel d False]) ds)) None" for ds
    by (induction ds) auto
  then show ?thesis by (simp add: wheel_operations_def)
qed

lemma wheel_plan_text: "wheel_plan (map OText t) wheel"
  by (induction t) auto

lemma track_wheel:
  "se_wheel (track op False (track op True o_s)) = wheel_after op (se_wheel o_s)"
  by (auto simp: track_def split: Operation.split)

lemma try_needs [simp]:
  "try_then (needs r s) k = (case r of Inl e \<Rightarrow> (Inl (Refuse e), s) | Inr x \<Rightarrow> k x s)"
  by (simp add: needs_def lift_refusal_def split: sum.split)

lemma snd_lift_refusal [simp]: "snd (lift_refusal r) = snd r"
  by (simp add: lift_refusal_def)

lemma fst_lift_refusal: "fst (lift_refusal r) = Inr x \<longleftrightarrow> fst r = Inr x"
  by (cases "fst r") (auto simp: lift_refusal_def)

lemma raise_barrier_held [simp]:
  "se_wheel (raise_barrier n o_s) = se_wheel o_s"
  "se_ledger (raise_barrier n o_s) = se_ledger o_s"
  by (simp_all add: raise_barrier_def)

text \<open>The native operations a request can lead to.\<close>

fun event_allows :: "InputEvent \<Rightarrow> Operation \<Rightarrow> bool" where
  "event_allows (EvKey key _) op = (\<exists>t. op = OKey key t)"
| "event_allows (EvButton button pressed point _) op = (op = OAbsolute point \<or> op = OButton button pressed)"
| "event_allows (EvPointer point) op = (op = OAbsolute point)"
| "event_allows (EvRelative _ _ _) op = (\<exists>x y. op = ORelative x y)"
| "event_allows (EvScroll point _ x y unit) op =
     (op = OAbsolute point \<or> op = OScroll x y unit \<or> (\<exists>d pressed. op = OWheel d pressed))"
| "event_allows (EvText t) op = (\<exists>c \<in> set t. op = OText c)"
| "event_allows (EvMode _ _) op = False"

lemma wheel_operations_allowed: "list_all (event_allows (EvScroll point barrier x y unit)) (wheel_operations steps)"
  by (auto simp: wheel_operations_def list_all_iff)

locale attempt_invariant =
  fixes P :: "'x attempt \<Rightarrow> bool" and event :: InputEvent
  assumes event_fixed: "P s \<Longrightarrow> ir_event (at_request s) = event"
    and quiet_keeps: "P s \<Longrightarrow> quiet s s' \<Longrightarrow> P s'"
    and call_keeps: "P s \<Longrightarrow> \<not> at_uncertain s \<Longrightarrow> \<not> lg_fenced (se_ledger (w_owner s)) \<Longrightarrow>
      authorized_call (w_owner s) (ir_credentials (at_request s)) c \<Longrightarrow>
      event_allows event (nc_operation c) \<Longrightarrow>
      wheel_fits (nc_operation c) (se_wheel (w_owner s)) \<Longrightarrow> P (after_call c s)"
    and local_keeps: "P s \<Longrightarrow> P (s\<lparr>w_owner := (w_owner s)\<lparr>se_pointer_floor := floor, se_mode := m,
      se_mode_epoch := e, se_cumulative := xy\<rparr>\<rparr>)"
begin

lemma one_keeps:
  assumes "P s" "\<not> at_uncertain s" "wheel_fits op (se_wheel (w_owner s))" "event_allows event op"
  shows "P (snd (one b op s))"
    and "fst (one b op s) = Inr () \<Longrightarrow> \<not> at_uncertain (snd (one b op s))
      \<and> se_wheel (w_owner (snd (one b op s))) = wheel_after op (se_wheel (w_owner s))"
proof -
  have "P (snd (one b op s)) \<and> (fst (one b op s) = Inr () \<longrightarrow> \<not> at_uncertain (snd (one b op s))
      \<and> se_wheel (w_owner (snd (one b op s))) = wheel_after op (se_wheel (w_owner s)))"
    using assms(2)
  proof (cases rule: one_cases [where b = b and op = op])
    case (no_call e s')
    then show ?thesis using quiet_keeps [OF assms(1) no_call(2)] by simp
  next
    case (call s1 c s' r)
    have "P s1" using quiet_keeps [OF assms(1) call(2)] .
    then have "P (after_call c s1)"
      using call assms by (intro call_keeps) (simp_all add: quiet_attempt quiet_owner)
    then have "P s'" using quiet_keeps call(3) by blast
    moreover have "\<not> at_uncertain s' \<and> se_wheel (w_owner s') = wheel_after op (se_wheel (w_owner s))"
      if "nc_result c = Some Submitted"
      using that quiet_attempt [OF call(3)] quiet_owner [OF call(3)] quiet_owner [OF call(2)] call(4)
      by (simp add: after_call_def Let_def certain_def track_wheel)
    ultimately show ?thesis using call(1,7) by simp
  qed
  then show "P (snd (one b op s))"
    and "fst (one b op s) = Inr () \<Longrightarrow> \<not> at_uncertain (snd (one b op s))
      \<and> se_wheel (w_owner (snd (one b op s))) = wheel_after op (se_wheel (w_owner s))"
    by blast+
qed

lemma one_then_keeps:
  assumes "P s" "\<not> at_uncertain s" "wheel_fits op (se_wheel (w_owner s))" "event_allows event op"
    and "\<And>s'. P s' \<Longrightarrow> \<not> at_uncertain s' \<Longrightarrow> se_wheel (w_owner s') = wheel_after op (se_wheel (w_owner s))
        \<Longrightarrow> P (snd (k () s'))"
  shows "P (snd (try_then (one b op s) k))"
  using one_keeps [OF assms(1-4), of b] assms(5) by (cases "one b op s") (auto simp: try_then_def split: sum.split)

lemma all_of_keeps:
  "P s \<Longrightarrow> \<not> at_uncertain s \<Longrightarrow> wheel_plan ops (se_wheel (w_owner s)) \<Longrightarrow>
     list_all (event_allows event) ops \<Longrightarrow> P (snd (all_of b ops s))"
proof (induction ops arbitrary: s)
  case (Cons op ops)
  then show ?case by (auto intro!: one_then_keeps)
qed simp

lemma barrier_keeps: "P s \<Longrightarrow> P (s\<lparr>w_owner := raise_barrier barrier (w_owner s)\<rparr>)"
  using local_keeps [where m = "se_mode (w_owner s)" and e = "se_mode_epoch (w_owner s)"
      and xy = "se_cumulative (w_owner s)" and s = s]
  by (simp add: raise_barrier_def)

lemma cumulative_keeps: "P s \<Longrightarrow> P (s\<lparr>w_owner := (w_owner s)\<lparr>se_cumulative := xy\<rparr>\<rparr>)"
  using local_keeps [where floor = "se_pointer_floor (w_owner s)" and m = "se_mode (w_owner s)"
      and e = "se_mode_epoch (w_owner s)" and s = s]
  by simp

lemma mode_keeps:
  "P s \<Longrightarrow> P (s\<lparr>w_owner := (w_owner s)\<lparr>se_mode := m, se_mode_epoch := e, se_cumulative := xy\<rparr>, w_shared := sh\<rparr>)"
  using local_keeps [where floor = "se_pointer_floor (w_owner s)" and m = m and e = e and xy = xy and s = s]
    quiet_keeps [OF _ quiet_intros(2)] by fastforce

lemma body_keeps:
  assumes "P s" "\<not> at_uncertain s" "se_wheel (w_owner s) = None"
  shows "event = EvKey key transition \<Longrightarrow> P (snd (key_transition b key transition s))"
    and "event = EvButton button pressed point barrier \<Longrightarrow>
      P (snd (execute_button b button pressed point barrier s))"
    and "event = EvScroll point barrier x y unit \<Longrightarrow> P (snd (execute_scroll b point barrier x y unit s))"
    and "event = EvRelative epoch cx cy \<Longrightarrow> P (snd (execute_relative b epoch cx cy s))"
    and "event = EvMode mode epoch \<Longrightarrow> P (snd (execute_mode b mode epoch s))"
proof goal_cases
  case 1
  then show ?case
    unfolding key_transition_def
    by (auto simp: assms Let_def simp del: all_of.simps split: sum.split KeyTransition.split
        intro!: one_keeps all_of_keeps)
next
  case 2
  then have "P (snd (all_of b [OAbsolute point, OButton button pressed] (s\<lparr>w_owner := raise_barrier barrier (w_owner s)\<rparr>)))"
    using barrier_keeps [OF assms(1)] assms(2,3) by (intro all_of_keeps) simp_all
  then show ?case
    unfolding execute_button_def by (simp add: assms(1) del: all_of.simps split: sum.split)
next
  case 3
  let ?t = "s\<lparr>w_owner := raise_barrier barrier (w_owner s)\<rparr>"
  have "P (snd (try_then (one b (OAbsolute point) ?t) (\<lambda>_ s. all_of b (wheel_operations steps) s)))" for steps
    using barrier_keeps [OF assms(1)] assms(2,3)
    by (intro one_then_keeps all_of_keeps) (simp_all add: wheel_plan_operations 3 wheel_operations_allowed)
  moreover have "P (snd (try_then (one b (OAbsolute point) ?t) (\<lambda>_ s. one b (OScroll x y unit) s)))"
    using barrier_keeps [OF assms(1)] assms(2,3) by (intro one_then_keeps one_keeps) (simp_all add: 3)
  ultimately show ?case
    using assms unfolding execute_scroll_def Let_def
    by (simp add: ok_or_def split: sum.split option.split)
next
  case 4
  then show ?case
    unfolding execute_relative_def
    using assms by (auto split: sum.split intro!: one_then_keeps cumulative_keeps)
next
  case 5
  show ?case
    unfolding execute_mode_def Let_def
    using assms mode_keeps by (auto split: sum.split prod.split)
qed

lemma execute_keeps:
  assumes "P s" "\<not> at_uncertain s" "se_wheel (w_owner s) = None \<or> lg_fenced (se_ledger (w_owner s))"
  shows "P (snd (execute b s))"
proof -
  obtain now s1 where t: "sample_clock b s = (now, s1)" by fastforce
  obtain r s2 where c: "check_at_boundary b (ir_credentials (at_request s1)) now s1 = (r, s2)" by fastforce
  have q1: "quiet s s1" using sample_clock_quiet [of s b] by (simp add: t)
  have q2: "quiet s1 s2" using check_at_boundary_quiet [of s1 b _ now] c by (metis snd_conv)
  note q = quiet_trans [OF q1 q2]
  have P2: "P s2" using quiet_keeps [OF assms(1) q] .
  show ?thesis
  proof (cases r)
    case (Inl e)
    then show ?thesis using t c P2 by (simp add: execute_def lift_refusal_def)
  next
    case (Inr until)
    then have "\<not> lg_fenced (se_ledger (w_owner s2))"
      using check_active_fence [OF check_at_boundary_authorizes(2) [OF c [unfolded Inr]]] quiet_owner [OF q2] by simp
    then have s2: "\<not> at_uncertain s2" "se_wheel (w_owner s2) = None"
      using assms(2,3) quiet_owner [OF q] quiet_attempt [OF q] by auto
    have "ir_event (at_request s2) = event" using P2 by (rule event_fixed)
    then show ?thesis
      using t c Inr P2 body_keeps [OF P2 s2]
      by (auto simp: execute_def lift_refusal_def s2 wheel_plan_text list_all_iff simp del: all_of.simps
          split: InputEvent.split sum.split intro!: one_keeps all_of_keeps)
  qed
qed

end

section \<open>What the operating system may hold\<close>

text \<open>
  The record of native calls determines what may be held down: a press whose call was
  submitted, has an unknown result or unwound, until a release of it was submitted.
\<close>

datatype target = TKey PhysicalKey | TButton PointerButton | TWheel WheelDirection

fun pressed_target :: "Operation \<Rightarrow> target option" where
  "pressed_target (OKey key transition) = (if transition = Press then Some (TKey key) else None)"
| "pressed_target (OButton button pressed) = (if pressed then Some (TButton button) else None)"
| "pressed_target (OWheel d pressed) = (if pressed then Some (TWheel d) else None)"
| "pressed_target _ = None"

fun released_target :: "Operation \<Rightarrow> target option" where
  "released_target (OKey key transition) = (if transition = Release then Some (TKey key) else None)"
| "released_target (OButton button pressed) = (if pressed then None else Some (TButton button))"
| "released_target (OWheel d pressed) = (if pressed then None else Some (TWheel d))"
| "released_target _ = None"

definition may_hold_after :: "native_call \<Rightarrow> target set \<Rightarrow> target set" where
  "may_hold_after c H =
     (case pressed_target (nc_operation c) of
        Some t \<Rightarrow> if nc_result c = Some Submitted \<or> \<not> certain (nc_result c) then insert t H else H
      | None \<Rightarrow>
          (case released_target (nc_operation c) of
             Some t \<Rightarrow> if nc_result c = Some Submitted then H - {t} else H
           | None \<Rightarrow> H))"

definition may_hold :: "native_call list \<Rightarrow> target set" where
  "may_hold calls = fold may_hold_after calls {}"

lemma may_hold_append [simp]: "may_hold (calls @ [c]) = may_hold_after c (may_hold calls)"
  by (simp add: may_hold_def)

fun tracked :: "InputSession \<Rightarrow> target \<Rightarrow> bool" where
  "tracked o_s (TKey key) = (valid_key key \<and> se_keys o_s ! unat (usage key))"
| "tracked o_s (TButton button) = se_buttons o_s ! (button_code button - 1)"
| "tracked o_s (TWheel d) = (se_wheel o_s = Some d)"

text \<open>The flag arrays have their fixed sizes, and only named keys have their flag set.\<close>

definition held_ok :: "InputSession \<Rightarrow> bool" where
  "held_ok o_s \<longleftrightarrow> length (se_keys o_s) = 256 \<and> length (se_buttons o_s) = 5
     \<and> (\<forall>i < 256. se_keys o_s ! i \<longrightarrow> valid_key (PhysicalKey (of_nat i)))"

definition accounted :: "('x, 'z) world_scheme \<Rightarrow> bool" where
  "accounted w \<longleftrightarrow> held_ok (w_owner w) \<and> (\<forall>t \<in> may_hold (w_calls w). tracked (w_owner w) t)"

interpretation key_array: flag_store "\<lambda>ks. length ks = 256" valid_key
  "\<lambda>ks key. ks ! unat (usage key)" "\<lambda>key v ks. ks[unat (usage key) := v]"
proof unfold_locales
  fix s :: "bool list" and k j v
  assume "length s = 256" "valid_key k" "valid_key j"
  then have "unat (usage k) < length s" "unat (usage j) = unat (usage k) \<longleftrightarrow> j = k"
    using valid_key_usage [of k] by (auto simp: word_unat_eq_iff [symmetric] intro: PhysicalKey.expand)
  then show "s[unat (usage k) := v] ! unat (usage j) = (if j = k then v else s ! unat (usage j))"
    by (auto simp: nth_list_update)
qed simp

interpretation button_array: flag_store "\<lambda>bs. length bs = 5" "\<lambda>_. True"
  "\<lambda>bs button. bs ! (button_code button - 1)" "\<lambda>button v bs. bs[button_code button - 1 := v]"
proof unfold_locales
  fix s :: "bool list" and k j v
  assume "length s = 5"
  then show "s[button_code k - 1 := v] ! (button_code j - 1) = (if j = k then v else s ! (button_code j - 1))"
    using button_flags(1) [of k] button_flags(2) [of j k] by (auto simp: nth_list_update)
qed simp

lemma tracked_cong:
  "se_keys o1 = se_keys o2 \<Longrightarrow> se_buttons o1 = se_buttons o2 \<Longrightarrow> se_wheel o1 = se_wheel o2 \<Longrightarrow>
     tracked o1 t = tracked o2 t"
  by (cases t) simp_all

lemma accounted_cong:
  "accounted w \<Longrightarrow> w_calls w' = w_calls w \<Longrightarrow> se_keys (w_owner w') = se_keys (w_owner w) \<Longrightarrow>
     se_buttons (w_owner w') = se_buttons (w_owner w) \<Longrightarrow> se_wheel (w_owner w') = se_wheel (w_owner w) \<Longrightarrow>
     accounted w'"
  using tracked_cong [of "w_owner w'" "w_owner w"] by (simp add: accounted_def held_ok_def)

lemma accounted_quiet: "quiet w w' \<Longrightarrow> accounted w \<Longrightarrow> accounted w'"
  by (rule accounted_cong [of w]) (simp_all add: quiet_owner)

fun operation_valid :: "Operation \<Rightarrow> bool" where
  "operation_valid (OKey key _) = valid_key key"
| "operation_valid _ = True"

text \<open>The effect of a call on the tracked flags covers its effect on what may be held.\<close>

definition held_after_call :: "native_call \<Rightarrow> InputSession \<Rightarrow> InputSession" where
  "held_after_call c o_s =
     (let op = nc_operation c; marked = track op True o_s in
      if nc_result c = Some Submitted then track op False marked
      else if certain (nc_result c) then restore op o_s marked else marked)"

lemma held_after_call_lengths [simp]:
  "length (se_keys (held_after_call c o_s)) = length (se_keys o_s)"
  "length (se_buttons (held_after_call c o_s)) = length (se_buttons o_s)"
  by (auto simp: held_after_call_def track_def restore_def Let_def split: Operation.split)

lemma held_ok_call:
  assumes "held_ok o_s" "operation_valid (nc_operation c)"
  shows "held_ok (held_after_call c o_s)"
proof -
  have "valid_key (PhysicalKey (of_nat i))"
    if "valid_key key" "\<forall>i < 256. ks ! i \<longrightarrow> valid_key (PhysicalKey (of_nat i))" "length ks = 256"
      "i < 256" "ks[unat (usage key) := v] ! i" for ks :: "bool list" and key i v
    using that valid_key_usage [of key] by (cases key; cases "i = unat (usage key)") auto
  then show ?thesis
    using assms by (auto simp: held_ok_def held_after_call_def track_def restore_def Let_def
        split: Operation.splits if_splits)
qed

lemma held_after_call_tracks:
  assumes "held_ok o_s"
    and ok: "operation_valid (nc_operation c)" "wheel_fits (nc_operation c) (se_wheel o_s)"
    and H: "\<forall>t \<in> H. tracked o_s t" and t: "t \<in> may_hold_after c H"
  shows "tracked (held_after_call c o_s) t"
proof -
  have len: "length (se_keys o_s) = 256" "length (se_buttons o_s) = 5"
    using assms(1) by (simp_all add: held_ok_def)
  show ?thesis
  proof (cases "nc_operation c")
    case (OKey key transition)
    then show ?thesis
      using assms key_array.get_put [OF len(1)]
      by (cases t; cases transition)
        (auto simp: held_after_call_def may_hold_after_def track_def restore_def Let_def split: if_splits dest!: bspec)
  next
    case (OButton button pressed)
    then show ?thesis
      using assms button_array.get_put [OF len(2)]
      by (cases t; cases pressed)
        (auto simp: held_after_call_def may_hold_after_def track_def restore_def Let_def split: if_splits dest!: bspec)
  next
    case (OWheel d pressed)
    then show ?thesis
      using assms
      by (cases t; cases pressed)
        (auto simp: held_after_call_def may_hold_after_def track_def restore_def Let_def split: if_splits dest!: bspec)
  qed (use assms in \<open>auto simp: held_after_call_def may_hold_after_def track_def restore_def Let_def\<close>)
qed

lemma accounted_call:
  assumes "accounted w" "operation_valid (nc_operation c)" "wheel_fits (nc_operation c) (se_wheel (w_owner w))"
    and "w_calls w' = w_calls w @ [c]" "w_owner w' = held_after_call c (w_owner w)"
  shows "accounted w'"
  using assms held_after_call_tracks [of "w_owner w" c "may_hold (w_calls w)"] held_ok_call [of "w_owner w" c]
  by (simp add: accounted_def)

lemma after_call_simps [simp]:
  "w_calls (after_call c s) = w_calls s @ [c]"
  "w_owner (after_call c s) = held_after_call c (w_owner s)"
  "at_request (after_call c s) = at_request s"
  "at_pointer (after_call c s) = at_pointer s"
  by (simp_all add: after_call_def held_after_call_def Let_def)

lemma held_after_call_frame [simp]:
  "se_lease (held_after_call c o_s) = se_lease o_s"
  "se_session (held_after_call c o_s) = se_session o_s"
  "se_monitor (held_after_call c o_s) = se_monitor o_s"
  "se_ledger (held_after_call c o_s) = se_ledger o_s"
  "se_receipts (held_after_call c o_s) = se_receipts o_s"
  "se_receipt_cursor (held_after_call c o_s) = se_receipt_cursor o_s"
  by (auto simp: held_after_call_def track_def restore_def Let_def split: Operation.split)

fun event_valid :: "InputEvent \<Rightarrow> bool" where
  "event_valid (EvKey key _) = valid_key key"
| "event_valid _ = True"

lemma event_operation_valid: "event_valid ev \<Longrightarrow> event_allows ev op \<Longrightarrow> operation_valid op"
  by (cases ev) auto

interpretation tracking: attempt_invariant
  "\<lambda>s. accounted s \<and> ir_event (at_request s) = ev \<and> event_valid ev" ev for ev
proof unfold_locales
  fix s s' :: "'x attempt" and c floor m e xy
  assume s: "accounted s \<and> ir_event (at_request s) = ev \<and> event_valid ev"
  then show "ir_event (at_request s) = ev" by simp
  show "accounted s' \<and> ir_event (at_request s') = ev \<and> event_valid ev" if "quiet s s'"
    using s that by (simp add: accounted_quiet quiet_attempt)
  show "accounted (after_call c s) \<and> ir_event (at_request (after_call c s)) = ev \<and> event_valid ev"
    if "event_allows ev (nc_operation c)" "wheel_fits (nc_operation c) (se_wheel (w_owner s))"
    using s that accounted_call [of s c "after_call c s"] event_operation_valid [of ev "nc_operation c"] by simp
  let ?t = "s\<lparr>w_owner := (w_owner s)\<lparr>se_pointer_floor := floor, se_mode := m, se_mode_epoch := e, se_cumulative := xy\<rparr>\<rparr>"
  show "accounted ?t \<and> ir_event (at_request ?t) = ev \<and> event_valid ev"
    using s accounted_cong [of s ?t] by simp
qed

text \<open>What an attempt leaves alone: the ledger, the receipts and the identity of the owner.\<close>

definition same_frame :: "InputSession \<Rightarrow> InputSession \<Rightarrow> bool" where
  "same_frame o1 o2 \<longleftrightarrow> se_lease o2 = se_lease o1 \<and> se_session o2 = se_session o1 \<and> se_monitor o2 = se_monitor o1
     \<and> se_ledger o2 = se_ledger o1 \<and> se_receipts o2 = se_receipts o1 \<and> se_receipt_cursor o2 = se_receipt_cursor o1"

text \<open>The calls of an attempt, and how its counters describe them.\<close>

definition submitted_calls :: "native_call list \<Rightarrow> nat" where
  "submitted_calls cs = length (filter (\<lambda>c. nc_result c = Some Submitted) cs)"

definition explains :: "InputSession \<Rightarrow> native_call list \<Rightarrow> InputRequest \<Rightarrow> bool \<Rightarrow> 'x attempt \<Rightarrow> bool" where
  "explains o_s before request pointer s \<longleftrightarrow>
     same_frame o_s (w_owner s) \<and> at_request s = request \<and> at_pointer s = pointer
     \<and> (\<exists>new. w_calls s = before @ new
          \<and> (\<forall>c \<in> set new. authorized_call o_s (ir_credentials request) c
                \<and> event_allows (ir_event request) (nc_operation c))
          \<and> at_submitted s = of_nat (submitted_calls new)
          \<and> (at_uncertain s \<longleftrightarrow> (\<exists>c \<in> set new. \<not> certain (nc_result c)))
          \<and> (new = [] \<or> \<not> lg_fenced (se_ledger o_s)))"

lemma authorized_call_frame:
  "same_frame o1 o2 \<Longrightarrow> authorized_call o2 credentials c = authorized_call o1 credentials c"
  by (simp add: same_frame_def authorized_call_def)

interpretation explained: attempt_invariant "explains o_s before request pointer" "ir_event request"
  for o_s before request pointer
proof unfold_locales
  fix s s' :: "'x attempt" and c floor m e xy
  assume s: "explains o_s before request pointer s"
  then show "ir_event (at_request s) = ir_event request" by (simp add: explains_def)
  show "explains o_s before request pointer s'" if "quiet s s'"
    using s that by (simp add: explains_def same_frame_def quiet_owner quiet_attempt)
  show "explains o_s before request pointer (after_call c s)"
    if c: "\<not> at_uncertain s" "authorized_call (w_owner s) (ir_credentials (at_request s)) c"
      "\<not> lg_fenced (se_ledger (w_owner s))" "event_allows (ir_event request) (nc_operation c)"
  proof -
    obtain new where new: "w_calls s = before @ new" "at_submitted s = of_nat (submitted_calls new)"
      "\<forall>c \<in> set new. authorized_call o_s (ir_credentials request) c
                \<and> event_allows (ir_event request) (nc_operation c)"
      "\<forall>c \<in> set new. certain (nc_result c)"
      and frame: "same_frame o_s (w_owner s)" "at_request s = request" "at_pointer s = pointer"
      using s c(1) by (auto simp: explains_def)
    have sub: "at_submitted (after_call c s) = of_nat (submitted_calls (new @ [c]))"
      and unc: "at_uncertain (after_call c s) = (\<not> certain (nc_result c))"
      using new(2) by (simp_all add: after_call_def Let_def submitted_calls_def)
    have "authorized_call o_s (ir_credentials request) c"
      using c(2) frame authorized_call_frame by blast
    with new frame c(3,4) sub unc show ?thesis
      unfolding explains_def
      by (intro conjI exI [of _ "new @ [c]"]) (auto simp: same_frame_def)
  qed
  show "explains o_s before request pointer
      (s\<lparr>w_owner := (w_owner s)\<lparr>se_pointer_floor := floor, se_mode := m, se_mode_epoch := e, se_cumulative := xy\<rparr>\<rparr>)"
    using s by (simp add: explains_def same_frame_def)
qed

end
