(* ===== verification/Input_Receipts.thy ===== *)
theory Input_Receipts
  imports Input_Safety "HOL-Library.Sublist"
begin

text \<open>
  What a receipt says of the native calls behind it. A request has a plan, the native
  operations that carry it out; an attempt makes the calls of the plan in order, each under
  a fresh final check, and stops at the first one that is not confirmed.
\<close>

section \<open>Plans\<close>

fun plans :: "InputEvent \<Rightarrow> Operation list set" where
  "plans (EvKey key transition) =
     insert [OKey key transition] (if transition = Repeat then {[OKey key Release, OKey key Press]} else {})"
| "plans (EvButton button pressed point _) = {[OAbsolute point, OButton button pressed]}"
| "plans (EvPointer point) = {[OAbsolute point]}"
| "plans (EvRelative _ _ _) = insert [] {[ORelative x y] | x y. True}"
| "plans (EvScroll point _ x y unit) =
     insert [OAbsolute point, OScroll x y unit]
       {OAbsolute point # wheel_operations steps | steps. unit = Lines \<and> line_scroll_new x y = Some steps}"
| "plans (EvText t) = {if text_len t \<le> MAX_COMMITTED_TEXT_BYTES then map OText t else []}"
| "plans (EvMode _ _) = {[]}"

lemma length_text: "length t \<le> text_len t"
proof (induction t)
  case (Cons c t)
  moreover have "1 \<le> utf8_len c" by (simp add: utf8_len_def)
  ultimately show ?case by (simp add: text_len_def)
qed (simp add: text_len_def)

lemma length_wheel_operations:
  assumes "line_scroll_new x y = Some steps"
  shows "length (wheel_operations steps) \<le> 64"
proof -
  have "length (concat (map (\<lambda>d. [OWheel d True, OWheel d False]) ds)) = 2 * length ds" for ds
    by (induction ds) auto
  moreover have "length (wheel_directions steps) \<le> 32"
    using assms by (auto simp: line_scroll_new_Some wheel_directions_def unat_of_nat_less)
  ultimately show ?thesis by (simp add: wheel_operations_def)
qed

lemma plans_bounded: "ops \<in> plans ev \<Longrightarrow> length ops \<le> 4096"
proof (cases ev)
  case (EvText t)
  assume "ops \<in> plans ev"
  then show ?thesis using EvText length_text [of t] by (simp add: MAX_COMMITTED_TEXT_BYTES_def split: if_splits)
next
  case (EvScroll point barrier x y unit)
  assume "ops \<in> plans ev"
  then show ?thesis using EvScroll length_wheel_operations by fastforce
qed (auto split: if_splits)

text \<open>The calls made between two states carry out a plan, or the beginning of it.\<close>

definition performs :: "Operation list \<Rightarrow> native_call list \<Rightarrow> stop + unit \<Rightarrow> bool" where
  "performs ops new r \<longleftrightarrow> prefix (map nc_operation new) ops
     \<and> (\<forall>c \<in> set (butlast new). nc_result c = Some Submitted)
     \<and> (r = Inr () \<longrightarrow> map nc_operation new = ops \<and> (\<forall>c \<in> set new. nc_result c = Some Submitted))
     \<and> (r \<noteq> Inr () \<longrightarrow> new = [] \<or> submitted_calls new < length ops)"

definition plays :: "Operation list \<Rightarrow> 'x attempt \<Rightarrow> (stop + unit) \<times> 'x attempt \<Rightarrow> bool" where
  "plays ops s rs \<longleftrightarrow> (\<exists>new. w_calls (snd rs) = w_calls s @ new \<and> performs ops new (fst rs))"

lemma performs_Nil [simp]: "performs ops [] r \<longleftrightarrow> (r = Inr () \<longrightarrow> ops = [])"
  by (auto simp: performs_def)

lemma performs_Cons:
  "nc_operation c = op \<Longrightarrow> nc_result c = Some Submitted \<Longrightarrow> performs ops new r \<Longrightarrow> ops = [] \<longrightarrow> r = Inr () \<Longrightarrow>
     performs (op # ops) (c # new) r"
  by (cases ops) (auto simp: performs_def submitted_calls_def)

lemma one_plays:
  assumes "\<not> at_uncertain s"
  shows "fst (one b op s) = Inr () \<Longrightarrow> \<not> at_uncertain (snd (one b op s))
      \<and> se_wheel (w_owner (snd (one b op s))) = wheel_after op (se_wheel (w_owner s))
      \<and> (\<exists>c. w_calls (snd (one b op s)) = w_calls s @ [c] \<and> nc_operation c = op \<and> nc_result c = Some Submitted)"
    and "fst (one b op s) \<noteq> Inr () \<Longrightarrow> w_calls (snd (one b op s)) = w_calls s
      \<or> (\<exists>c. w_calls (snd (one b op s)) = w_calls s @ [c] \<and> nc_operation c = op \<and> nc_result c \<noteq> Some Submitted)"
proof -
  have "(if fst (one b op s) = Inr () then \<not> at_uncertain (snd (one b op s))
        \<and> se_wheel (w_owner (snd (one b op s))) = wheel_after op (se_wheel (w_owner s))
        \<and> (\<exists>c. w_calls (snd (one b op s)) = w_calls s @ [c] \<and> nc_operation c = op \<and> nc_result c = Some Submitted)
      else w_calls (snd (one b op s)) = w_calls s
        \<or> (\<exists>c. w_calls (snd (one b op s)) = w_calls s @ [c] \<and> nc_operation c = op \<and> nc_result c \<noteq> Some Submitted))"
    using assms
  proof (cases rule: one_cases [where b = b and op = op])
    case (no_call e s')
    then show ?thesis by (simp add: quiet_owner)
  next
    case (call s1 c s' r)
    have "w_calls s' = w_calls s @ [c]" using quiet_owner(1) [OF call(3)] quiet_owner(1) [OF call(2)] by simp
    moreover have "\<not> at_uncertain s' \<and> se_wheel (w_owner s') = wheel_after op (se_wheel (w_owner s))"
      if "nc_result c = Some Submitted"
      using that quiet_attempt [OF call(3)] quiet_owner [OF call(3)] quiet_owner [OF call(2)] call(4)
      by (simp add: after_call_def Let_def certain_def track_wheel)
    ultimately show ?thesis using call(1,4,7) by simp
  qed
  then show "fst (one b op s) = Inr () \<Longrightarrow> \<not> at_uncertain (snd (one b op s))
      \<and> se_wheel (w_owner (snd (one b op s))) = wheel_after op (se_wheel (w_owner s))
      \<and> (\<exists>c. w_calls (snd (one b op s)) = w_calls s @ [c] \<and> nc_operation c = op \<and> nc_result c = Some Submitted)"
    and "fst (one b op s) \<noteq> Inr () \<Longrightarrow> w_calls (snd (one b op s)) = w_calls s
      \<or> (\<exists>c. w_calls (snd (one b op s)) = w_calls s @ [c] \<and> nc_operation c = op \<and> nc_result c \<noteq> Some Submitted)"
    by (simp_all split: if_splits)
qed

text \<open>A plan that starts with one operation, whatever carries out the rest.\<close>

definition continues :: "Operation list \<Rightarrow> WheelDirection option \<Rightarrow> ('x attempt \<Rightarrow> (stop + unit) \<times> 'x attempt) \<Rightarrow> bool" where
  "continues ops wheel k \<longleftrightarrow> (\<forall>s. \<not> at_uncertain s \<longrightarrow> se_wheel (w_owner s) = wheel \<longrightarrow>
     plays ops s (k s) \<and> (ops = [] \<longrightarrow> fst (k s) = Inr ())
     \<and> (fst (k s) = Inr () \<longrightarrow> se_wheel (w_owner (snd (k s))) = fold wheel_after ops wheel))"

lemma continues_done: "continues [] wheel (\<lambda>s. (Inr (), f s))"
  if "\<And>s. w_calls (f s) = w_calls s" "\<And>s. se_wheel (w_owner (f s)) = se_wheel (w_owner s)"
  using that by (simp add: continues_def plays_def)

lemma continues_Cons:
  assumes "continues ops (wheel_after op wheel) k"
  shows "continues (op # ops) wheel (\<lambda>s. try_then (one b op s) (\<lambda>_. k))"
  unfolding continues_def
proof (intro allI impI)
  fix s :: "'a attempt"
  assume s: "\<not> at_uncertain s" "se_wheel (w_owner s) = wheel"
  let ?rs = "try_then (one b op s) (\<lambda>_. k)"
  obtain r t where one: "one b op s = (r, t)" by fastforce
  show "plays (op # ops) s ?rs \<and> (op # ops = [] \<longrightarrow> fst ?rs = Inr ()) \<and> (fst ?rs = Inr () \<longrightarrow> se_wheel (w_owner (snd ?rs)) = fold wheel_after (op # ops) wheel)"
  proof (cases r)
    case (Inl e)
    then have "w_calls t = w_calls s
        \<or> (\<exists>c. w_calls t = w_calls s @ [c] \<and> nc_operation c = op \<and> nc_result c \<noteq> Some Submitted)"
      using one_plays(2) [OF s(1), of b op] one by simp
    then show ?thesis using one Inl by (auto simp: plays_def performs_def submitted_calls_def)
  next
    case (Inr u)
    then obtain c where c: "w_calls t = w_calls s @ [c]" "nc_operation c = op" "nc_result c = Some Submitted"
      and t: "\<not> at_uncertain t" "se_wheel (w_owner t) = wheel_after op wheel"
      using one_plays(1) [OF s(1), of b op] one s(2) by auto
    have "plays ops t (k t)" "ops = [] \<longrightarrow> fst (k t) = Inr ()" "fst (k t) = Inr () \<longrightarrow> se_wheel (w_owner (snd (k t))) = fold wheel_after ops (wheel_after op wheel)"
      using assms t unfolding continues_def by blast+
    then show ?thesis using one Inr c performs_Cons unfolding plays_def by fastforce
  qed
qed

lemma try_then_return: "try_then r (\<lambda>_ s. (Inr (), s)) = r"
  by (cases r) (simp add: try_then_def split: sum.split)

lemma continues_one: "continues [op] wheel (\<lambda>s. one b op s)"
  using continues_Cons [OF continues_done [of "\<lambda>s. s"], of op wheel b] by (simp add: try_then_return)

lemma continues_all_of: "continues ops wheel (\<lambda>s. all_of b ops s)"
proof (induction ops arbitrary: wheel)
  case Nil
  show ?case using continues_done [of "\<lambda>s. s"] by simp
next
  case (Cons op ops)
  show ?case using continues_Cons [OF Cons.IH] by simp
qed

section \<open>Attempts follow a plan\<close>

definition follows_plan :: "InputEvent \<Rightarrow> 'x attempt \<Rightarrow> (stop + unit) \<times> 'x attempt \<Rightarrow> bool" where
  "follows_plan ev s rs \<longleftrightarrow> (\<exists>ops \<in> plans ev. plays ops s rs)
     \<and> (fst rs = Inr () \<longrightarrow> se_wheel (w_owner (snd rs)) = None)"

lemma follows_planI:
  "continues ops None k \<Longrightarrow> ops \<in> plans ev \<Longrightarrow> fold wheel_after ops None = None \<Longrightarrow>
     \<not> at_uncertain t \<Longrightarrow> se_wheel (w_owner t) = None \<Longrightarrow> w_calls t = w_calls s \<Longrightarrow> follows_plan ev s (k t)"
  unfolding follows_plan_def continues_def plays_def by fastforce

lemma plans_nonempty: "plans ev \<noteq> {}"
  by (cases ev) simp_all

lemma follows_plan_stop: "w_calls t = w_calls s \<Longrightarrow> follows_plan ev s (Inl e, t)"
  using plans_nonempty [of ev] by (auto simp: follows_plan_def plays_def)

lemma follows_plan_needs:
  "(\<And>x. r = Inr x \<Longrightarrow> follows_plan ev s (k x s)) \<Longrightarrow> follows_plan ev s (try_then (needs r s) k)"
  by (cases r) (simp_all add: follows_plan_stop)

lemma wheel_operations_end: "fold wheel_after (wheel_operations steps) None = None"
proof -
  have "fold wheel_after (concat (map (\<lambda>d. [OWheel d True, OWheel d False]) ds)) None = None" for ds
    by (induction ds) auto
  then show ?thesis by (simp add: wheel_operations_def)
qed

lemma text_end: "fold wheel_after (map OText t) wheel = wheel"
  by (induction t) auto

lemma key_follows:
  assumes "\<not> at_uncertain s" "se_wheel (w_owner s) = None"
  shows "follows_plan (EvKey key transition) s (key_transition b key transition s)"
proof -
  have stop: "follows_plan (EvKey key transition) s (Inl e, s)" for e
    by (rule follows_plan_stop) simp
  have single: "follows_plan (EvKey key transition) s (one b (OKey key transition) s)"
    using assms by (intro follows_planI [OF continues_one]) simp_all
  have pair: "transition = Repeat \<Longrightarrow> follows_plan (EvKey key transition) s (all_of b [OKey key Release, OKey key Press] s)"
    using assms by (intro follows_planI [OF continues_all_of]) simp_all
  show ?thesis
    using stop single pair unfolding key_transition_def Let_def
    by (auto simp del: all_of.simps split: sum.split KeyTransition.split)
qed

lemma button_follows:
  assumes "\<not> at_uncertain s" "se_wheel (w_owner s) = None"
  shows "follows_plan (EvButton button pressed point barrier) s (execute_button b button pressed point barrier s)"
proof -
  let ?ev = "EvButton button pressed point barrier"
  have stop: "follows_plan ?ev s (Inl e, s)" for e
    by (rule follows_plan_stop) simp
  have "follows_plan ?ev s (all_of b [OAbsolute point, OButton button pressed] (s\<lparr>w_owner := raise_barrier barrier (w_owner s)\<rparr>))"
    using assms by (intro follows_planI [OF continues_all_of]) simp_all
  with stop show ?thesis
    unfolding execute_button_def by (simp del: all_of.simps split: sum.split)
qed

lemma scroll_follows:
  assumes "\<not> at_uncertain s" "se_wheel (w_owner s) = None"
  shows "follows_plan (EvScroll point barrier x y unit) s (execute_scroll b point barrier x y unit s)"
proof -
  let ?ev = "EvScroll point barrier x y unit" and ?t = "s\<lparr>w_owner := raise_barrier barrier (w_owner s)\<rparr>"
  have wheel: "follows_plan ?ev s (try_then (one b (OAbsolute point) ?t) (\<lambda>_. all_of b (wheel_operations steps)))"
    if "unit = Lines" "line_scroll_new x y = Some steps" for steps
    using follows_planI [OF continues_Cons [OF continues_all_of], of "OAbsolute point" "wheel_operations steps" ?ev ?t s b b]
      that assms by (simp add: wheel_operations_end)
  have smooth: "follows_plan ?ev s (try_then (one b (OAbsolute point) ?t) (\<lambda>_. one b (OScroll x y unit)))"
    using follows_planI [OF continues_Cons [OF continues_one], of "OAbsolute point" "OScroll x y unit" ?ev ?t s b b]
      assms by simp
  show ?thesis
    unfolding execute_scroll_def
  proof (rule follows_plan_needs, rule follows_plan_needs)
    show "follows_plan ?ev s (try_then
       (if unit = Lines \<and> be_line_scroll_requires_pairs b (w_shared s)
        then try_then (needs (ok_or RefUnsupported (line_scroll_new x y)) s) (\<lambda>discrete s. (Inr (Some discrete), s))
        else (Inr None, s))
       (\<lambda>discrete s.
         let s = s\<lparr>w_owner := raise_barrier barrier (w_owner s)\<rparr> in
         try_then (one b (OAbsolute point) s) (\<lambda>_ s.
         case discrete of
           Some steps \<Rightarrow> all_of b (wheel_operations steps) s
         | None \<Rightarrow> one b (OScroll x y unit) s)))"
      using wheel smooth follows_plan_stop [of s s ?ev] by (cases "line_scroll_new x y") (auto simp: Let_def)
  qed
qed

lemma relative_follows:
  assumes "\<not> at_uncertain s" "se_wheel (w_owner s) = None"
  shows "follows_plan (EvRelative epoch cx cy) s (execute_relative b epoch cx cy s)"
proof -
  let ?ev = "EvRelative epoch cx cy"
    and ?k = "\<lambda>s. (Inr (), s\<lparr>w_owner := (w_owner s)\<lparr>se_cumulative := (cx, cy)\<rparr>\<rparr>)"
  have stop: "follows_plan ?ev s (Inl e, s)" for e
    by (rule follows_plan_stop) simp
  have still: "follows_plan ?ev s (?k s)"
    using assms by (auto simp: follows_plan_def plays_def)
  have move: "follows_plan ?ev s (try_then (one b (ORelative x y) s) (\<lambda>_. ?k))" for x y
    using follows_planI [OF continues_Cons [OF continues_done], of _ "ORelative x y" ?ev s s b] assms by simp
  have "follows_plan ?ev s (try_then (if x \<noteq> 0 \<or> y \<noteq> 0 then one b (ORelative x y) s else (Inr (), s)) (\<lambda>_. ?k))" for x y
    using still move by simp
  then show ?thesis
    unfolding execute_relative_def
    by (intro follows_plan_needs) (simp_all only: if_split stop, auto intro!: follows_plan_needs simp del: try_needs)
qed

lemma mode_follows:
  assumes "se_wheel (w_owner s) = None"
  shows "follows_plan (EvMode mode epoch) s (execute_mode b mode epoch s)"
  using assms
  by (auto simp: execute_mode_def follows_plan_def plays_def Let_def lift_refusal_def split: sum.split prod.split)

lemma text_follows:
  assumes "\<not> at_uncertain s" "se_wheel (w_owner s) = None" "text_len t \<le> MAX_COMMITTED_TEXT_BYTES"
  shows "follows_plan (EvText t) s (all_of b (map OText t) s)"
  using assms by (intro follows_planI [OF continues_all_of]) (simp_all add: text_end)

lemma pointer_follows:
  assumes "\<not> at_uncertain s" "se_wheel (w_owner s) = None"
  shows "follows_plan (EvPointer point) s (one b (OAbsolute point) s)"
  using assms by (intro follows_planI [OF continues_one]) simp_all

lemmas events_follow =
  key_follows button_follows scroll_follows relative_follows text_follows pointer_follows

lemma execute_follows:
  assumes s: "\<not> at_uncertain s" "se_wheel (w_owner s) = None \<or> lg_fenced (se_ledger (w_owner s))"
  shows "follows_plan (ir_event (at_request s)) s (execute b s)"
proof -
  let ?ev = "ir_event (at_request s)"
  obtain now s1 where t: "sample_clock b s = (now, s1)" by fastforce
  obtain r s2 where c: "check_at_boundary b (ir_credentials (at_request s1)) now s1 = (r, s2)" by fastforce
  have q1: "quiet s s1" using sample_clock_quiet [of s b] by (simp add: t)
  have q2: "quiet s1 s2" using check_at_boundary_quiet [of s1 b _ now] c by (metis snd_conv)
  note q = quiet_trans [OF q1 q2]
  show ?thesis
  proof (cases r)
    case (Inl e)
    then have "execute b s = (Inl (Refuse e), s2)" using t c by (simp add: execute_def lift_refusal_def)
    then show ?thesis using follows_plan_stop [of s2 s] quiet_owner(1) [OF q] by simp
  next
    case (Inr until)
    then have "\<not> lg_fenced (se_ledger (w_owner s2))"
      using check_active_fence [OF check_at_boundary_authorizes(2) [OF c [unfolded Inr]]] quiet_owner [OF q2] by simp
    then have s2: "\<not> at_uncertain s2" "se_wheel (w_owner s2) = None"
      using s quiet_owner [OF q] quiet_attempt [OF q] by auto
    have "follows_plan ?ev s2 (execute b s)"
      using t c Inr quiet_attempt(1) [OF q] events_follow [OF s2] mode_follows [OF s2(2)]
      by (auto simp: execute_def lift_refusal_def simp del: try_needs all_of.simps
          split: InputEvent.split intro!: follows_plan_needs follows_plan_stop)
    then show ?thesis using quiet_owner(1) [OF q] by (simp add: follows_plan_def plays_def)
  qed
qed

section \<open>Receipts\<close>

definition start_attempt :: "InputRequest \<Rightarrow> bool \<Rightarrow> 'x world \<Rightarrow> 'x attempt" where
  "start_attempt request pointer w =
     \<lparr>w_owner = w_owner w, w_shared = w_shared w, w_calls = w_calls w,
      at_request = request, at_pointer = pointer, at_submitted = 0, at_uncertain = False\<rparr>"

lemma start_attempt_simps [simp]:
  "w_owner (start_attempt request pointer w) = w_owner w"
  "w_calls (start_attempt request pointer w) = w_calls w"
  "at_request (start_attempt request pointer w) = request"
  "\<not> at_uncertain (start_attempt request pointer w)"
  by (simp_all add: start_attempt_def)

lemma explains_start: "explains (w_owner w) (w_calls w) request pointer (start_attempt request pointer w)"
  by (simp add: explains_def same_frame_def start_attempt_def submitted_calls_def)

text \<open>
  What the receipt of an attempt claims, against the calls the attempt made: the plan
  followed, the credentials checked at each call, and the outcome.
\<close>

definition truthful :: "InputSession \<Rightarrow> InputRequest \<Rightarrow> native_call list \<Rightarrow> Receipt \<Rightarrow> bool" where
  "truthful o_s request new receipt \<longleftrightarrow>
     (\<exists>ops \<in> plans (ir_event request).
        prefix (map nc_operation new) ops
        \<and> (rc_outcome receipt = SubmittedToOs \<longrightarrow> ops \<noteq> [] \<and> map nc_operation new = ops)
        \<and> (rc_outcome receipt = AppliedLocally \<longrightarrow> ops = [])
        \<and> (rc_outcome receipt \<in> {PartiallySubmittedToOs, EffectUnknown} \<longrightarrow> submitted_calls new < length ops))
     \<and> (\<forall>c \<in> set new. authorized_call o_s (ir_credentials request) c)
     \<and> (\<forall>c \<in> set (butlast new). nc_result c = Some Submitted)
     \<and> rc_sequence receipt = ir_sequence request
     \<and> unat (rc_submitted_operations receipt) = submitted_calls new
     \<and> (case rc_outcome receipt of
          EffectUnknown \<Rightarrow> (\<exists>c \<in> set new. \<not> certain (nc_result c))
        | SubmittedToOs \<Rightarrow> submitted_calls new = length new
        | PartiallySubmittedToOs \<Rightarrow> (\<forall>c \<in> set new. certain (nc_result c)) \<and> 0 < submitted_calls new
        | _ \<Rightarrow> (\<forall>c \<in> set new. certain (nc_result c)) \<and> submitted_calls new = 0)"

lemma submitted_calls_bounds: "submitted_calls cs \<le> length cs"
  by (simp add: submitted_calls_def)

lemma submitted_calls_all: "submitted_calls cs = length cs \<longleftrightarrow> (\<forall>c \<in> set cs. nc_result c = Some Submitted)"
  unfolding submitted_calls_def by (metis (mono_tags, lifting) filter_True length_filter_less nat_neq_iff)

lemma submitted_certain [simp]: "certain (Some Submitted)"
  by (simp add: certain_def)

lemma performs_Inr:
  "performs ops new (Inr ()) \<longleftrightarrow> map nc_operation new = ops \<and> (\<forall>c \<in> set new. nc_result c = Some Submitted)"
  by (auto simp: performs_def dest: in_set_butlastD)

lemma refused_outcome_cases:
  "refused_outcome refusal \<in> {RejectedBeforeSubmission, ExpiredBeforeSubmission, CancelledBeforeSubmission}"
  by (simp add: refused_outcome_def split: Refusal.split)

lemma attempt_receipt_truthful:
  assumes ex: "explains o_s before request pointer s" and calls: "w_calls s = before @ new"
    and plan: "ops \<in> plans (ir_event request)" "performs ops new r"
    and result: "result = Inr () \<longleftrightarrow> r = Inr ()"
  shows "truthful o_s request new (attempt_receipt result s)"
proof -
  have facts: "\<forall>c \<in> set new. authorized_call o_s (ir_credentials request) c" "at_request s = request"
      "at_submitted s = of_nat (submitted_calls new)"
      "at_uncertain s \<longleftrightarrow> (\<exists>c \<in> set new. \<not> certain (nc_result c))"
    using ex calls by (auto simp: explains_def)
  have pre: "prefix (map nc_operation new) ops" "\<forall>c \<in> set (butlast new). nc_result c = Some Submitted"
    using plan(2) by (auto simp: performs_def)
  have "submitted_calls new \<le> 4096"
    using submitted_calls_bounds [of new] prefix_length_le [OF pre(1)] plans_bounded [OF plan(1)] by simp
  then have count: "unat (at_submitted s) = submitted_calls new" by (simp add: facts(3) unat_of_nat_less)
  then have zero: "at_submitted s = 0 \<longleftrightarrow> submitted_calls new = 0" "0 < at_submitted s \<longleftrightarrow> 0 < submitted_calls new"
    by (simp_all add: unat_eq_0 [symmetric] word_less_nat_alt)
  show ?thesis
  proof (cases "r = Inr ()")
    case True
    then have new: "map nc_operation new = ops" "\<forall>c \<in> set new. nc_result c = Some Submitted"
      using plan(2) by (auto simp: performs_Inr)
    then have "submitted_calls new = length new" "\<not> at_uncertain s"
      using submitted_calls_all facts(4) by auto
    then show ?thesis
      using True result new pre facts(1,2) plan(1) count zero
      by (auto simp: truthful_def attempt_receipt_def intro!: bexI [of _ ops])
  next
    case False
    then obtain e where e: "result = Inl e" using result by (cases result) auto
    let ?receipt = "attempt_receipt result s"
    have less: "new \<noteq> [] \<Longrightarrow> submitted_calls new < length ops" using False plan(2) by (simp add: performs_def)
    have fields: "rc_sequence ?receipt = ir_sequence request" "unat (rc_submitted_operations ?receipt) = submitted_calls new"
      using facts(2) count by (simp_all add: attempt_receipt_def)
    consider "at_uncertain s" "rc_outcome ?receipt = EffectUnknown"
      | "\<not> at_uncertain s" "0 < submitted_calls new" "rc_outcome ?receipt = PartiallySubmittedToOs"
      | "\<not> at_uncertain s" "submitted_calls new = 0" "rc_outcome ?receipt = refused_outcome e"
      using e zero by (auto simp: attempt_receipt_def)
    then show ?thesis
    proof cases
      case 1
      then have "new \<noteq> []" using facts(4) by auto
      with 1 less pre facts(1,4) plan(1) fields show ?thesis by (auto simp: truthful_def intro!: bexI [of _ ops])
    next
      case 2
      then have "new \<noteq> []" by (auto simp: submitted_calls_def)
      with 2 less pre facts(1,4) plan(1) fields show ?thesis by (auto simp: truthful_def intro!: bexI [of _ ops])
    next
      case 3
      with pre facts(1,4) plan(1) fields refused_outcome_cases [of e] show ?thesis
        by (auto simp: truthful_def intro!: bexI [of _ ops])
    qed
  qed
qed

lemma run_attempt_cases:
  assumes "se_wheel (w_owner w) = None \<or> lg_fenced (se_ledger (w_owner w))"
  obtains s new receipt where
    "snd (run_attempt b request pointer w) = record_receipt receipt pointer (world_of s)"
    "s = snd (execute b (start_attempt request pointer w))"
    "fst (run_attempt b request pointer w) \<in> {Inr receipt, Inl Unwind}"
    "same_frame (w_owner w) (w_owner s)" "w_calls s = w_calls w @ new"
    "truthful (w_owner w) request new receipt"
    "new = [] \<or> \<not> lg_fenced (se_ledger (w_owner w))"
    "se_wheel (w_owner s) = None \<or> \<not> completes_fully (rc_outcome receipt)"
proof -
  let ?s0 = "start_attempt request pointer w"
  obtain r s where run: "execute b ?s0 = (r, s)" by fastforce
  have ex: "explains (w_owner w) (w_calls w) request pointer s"
    using explained.execute_keeps [OF explains_start, of request pointer w b] assms run by simp
  then have frame: "same_frame (w_owner w) (w_owner s)" "at_pointer s = pointer" by (simp_all add: explains_def)
  have plan: "follows_plan (ir_event request) ?s0 (r, s)"
    using execute_follows [of ?s0 b] assms run by simp
  then obtain ops new where new: "ops \<in> plans (ir_event request)" "w_calls s = w_calls w @ new" "performs ops new r"
    by (auto simp: follows_plan_def plays_def)
  define result where "result = (case r of Inl Unwind \<Rightarrow> Inl (if at_uncertain s then UnknownEffect else Revoked)
      | Inl (Refuse e) \<Rightarrow> Inl e | Inr _ \<Rightarrow> Inr ())"
  have result: "result = Inr () \<longleftrightarrow> r = Inr ()"
    by (auto simp: result_def split: sum.split stop.split)
  let ?receipt = "attempt_receipt result s"
  have truth: "truthful (w_owner w) request new ?receipt"
    by (rule attempt_receipt_truthful [OF ex new(2,1,3) result])
  have whl: "se_wheel (w_owner s) = None \<or> \<not> completes_fully (rc_outcome ?receipt)"
  proof (cases "r = Inr ()")
    case True
    then show ?thesis using plan by (simp add: follows_plan_def)
  next
    case False
    then obtain e where "result = Inl e" using result by (cases result) auto
    then show ?thesis using refused_outcome_cases [of e] by (auto simp: attempt_receipt_def completes_fully_def)
  qed
  have "run_attempt b request pointer w = (case r of Inl Unwind \<Rightarrow> Inl Unwind | _ \<Rightarrow> Inr ?receipt,
      record_receipt ?receipt pointer (world_of s))"
    using run frame(2) by (auto simp: run_attempt_def start_attempt_def [symmetric] finish_def Let_def result_def
        split: sum.split stop.split)
  then have "snd (run_attempt b request pointer w) = record_receipt ?receipt pointer (world_of s)"
    and "fst (run_attempt b request pointer w) \<in> {Inr ?receipt, Inl Unwind}"
    by (simp_all split: sum.split stop.split)
  moreover have "new = [] \<or> \<not> lg_fenced (se_ledger (w_owner w))"
    using ex new(2) by (simp add: explains_def)
  ultimately show thesis
    by (intro that [OF _ _ _ frame(1) new(2) truth _ whl]) (simp_all add: run)
qed

end
