(* ===== verification/Input_Release.thy ===== *)
theory Input_Release
  imports Input_Receipts
begin

text \<open>
  The release-only paths of the input owner: cleanup, maintenance and reconciliation. They
  need no ticket and make no call that is not a release. The locale \<open>release_invariant\<close>
  carries a property through them.
\<close>

section \<open>One release\<close>

lemma held_after_release:
  "is_release (nc_operation c) \<Longrightarrow> held_after_call c o_s =
     (if nc_result c = Some Submitted then track (nc_operation c) False o_s else o_s)"
  by (cases "nc_operation c") (auto simp: held_after_call_def track_def restore_def Let_def)

text \<open>The release operations of the keys and buttons, in any state of the wheel.\<close>

definition plain_release :: "Operation \<Rightarrow> bool" where
  "plain_release op \<longleftrightarrow> (\<exists>key. op = OKey key Release \<and> valid_key key) \<or> (\<exists>button. op = OButton button False)"

lemma plain_releaseD:
  "plain_release op \<Longrightarrow> is_release op \<and> operation_valid op \<and> wheel_fits op wheel \<and> wheel_after op wheel = wheel"
  by (auto simp: plain_release_def)

lemma held_key_operations_plain: "list_all plain_release (held_key_operations o_s)"
  by (auto simp: held_key_operations_def list_all_iff plain_release_def valid_key_def physical_key_new_def
      split: option.splits if_splits)

lemma held_button_operations_plain: "list_all plain_release (held_button_operations o_s)"
  by (auto simp: held_button_operations_def list_all_iff plain_release_def split: if_splits)

lemma missing_releases_plain: "list_all plain_release (missing_releases held o_s)"
  by (auto simp: missing_releases_def list_all_iff plain_release_def valid_key_def physical_key_new_def
      split: option.splits if_splits)

section \<open>Properties of the release-only paths\<close>

locale release_invariant =
  fixes P :: "'x world \<Rightarrow> bool"
  assumes quiet_keeps: "P w \<Longrightarrow> quiet w w' \<Longrightarrow> P w'"
    and release_keeps: "P w \<Longrightarrow> is_release (nc_operation c) \<Longrightarrow> operation_valid (nc_operation c) \<Longrightarrow>
      wheel_fits (nc_operation c) (se_wheel (w_owner w)) \<Longrightarrow> w_calls w' = w_calls w @ [c] \<Longrightarrow>
      w_owner w' = held_after_call c (w_owner w) \<Longrightarrow> P w'"
    and report_keeps: "P w \<Longrightarrow> (is_some (se_reconciliation (w_owner w)) \<Longrightarrow> is_some r) \<Longrightarrow> P (w\<lparr>w_owner := (w_owner w)\<lparr>se_reconciliation_floor := floor, se_reconciliation := r\<rparr>\<rparr>)"
begin

lemmas try_keeps = try_then_keeps [where P = P]

lemma submit_release_keeps:
  assumes "P w" "is_release op" "operation_valid op" "wheel_fits op (se_wheel (w_owner w))"
    and "submit_release b op w = (r, w')"
  shows "r \<noteq> Some Submitted \<Longrightarrow> P w'" and "r = Some Submitted \<Longrightarrow> P (w'\<lparr>w_owner := track op False (w_owner w')\<rparr>)"
proof -
  obtain sh c where w': "w' = w\<lparr>w_shared := sh, w_calls := w_calls w @ [c]\<rparr>"
    and c: "nc_operation c = op" "nc_result c = r"
    using assms(5) by (auto simp: submit_release_def split: prod.splits)
  show "r \<noteq> Some Submitted \<Longrightarrow> P w'" and "r = Some Submitted \<Longrightarrow> P (w'\<lparr>w_owner := track op False (w_owner w')\<rparr>)"
    using assms(2-4) c by (auto simp: w' held_after_release intro!: release_keeps [OF assms(1), of c])
qed

lemma release_one_keeps:
  assumes "P w" "is_release op" "operation_valid op" "wheel_fits op (se_wheel (w_owner w))"
  shows "P (snd (release_one b op w))"
proof -
  obtain prepared sh where p: "be_prepare b op (w_shared w) = (prepared, sh)" by fastforce
  let ?w = "w\<lparr>w_shared := sh\<rparr>"
  have w: "P ?w" by (rule quiet_keeps [OF assms(1) quiet_intros(2)])
  obtain r w' where r: "submit_release b op ?w = (r, w')" by fastforce
  show ?thesis
    using submit_release_keeps [OF w assms(2,3) _ r] assms(4) w p r
    by (auto simp: release_one_def Let_def split: option.split sum.split)
qed

lemma release_all_keeps:
  "P w \<Longrightarrow> list_all plain_release ops \<Longrightarrow> P (snd (release_all b ops n w))"
proof (induction ops arbitrary: n w)
  case (Cons op ops)
  then have "P (snd (release_one b op w))" by (simp add: release_one_keeps plain_releaseD)
  then show ?case using Cons by (auto intro!: try_keeps)
qed simp

lemma release_wheel_keeps: "P w \<Longrightarrow> P (snd (release_wheel b w))"
  by (auto simp: release_wheel_def release_one_keeps split: option.split
      intro!: quiet_keeps [OF _ cancel_prepared_quiet])

lemma release_held_keeps: "P w \<Longrightarrow> P (snd (release_held b w))"
  unfolding release_held_def
  by (intro try_keeps release_wheel_keeps release_all_keeps)
    (simp_all add: held_key_operations_plain held_button_operations_plain)

lemma update_report_keeps: "P w \<Longrightarrow> P (update_report f w)"
  using report_keeps [of w "map_option f (se_reconciliation (w_owner w))" "se_reconciliation_floor (w_owner w)"]
  by (simp add: update_report_def)

lemma clocked_reconciliation_keeps: "P w \<Longrightarrow> P (snd (clocked_reconciliation b w))"
proof (erule quiet_keeps)
  have "quiet w (snd (check_reconciliation b now w))" for now w
    by (auto simp: check_reconciliation_def active_with_time_def check_active_def
        intro: quiet_intros owner_with_time_quiet)
  then show "quiet w (snd (clocked_reconciliation b w))"
    using sample_clock_quiet [of w b] by (auto simp: clocked_reconciliation_def split: prod.split intro: quiet_trans)
qed

lemma reconcile_submit_keeps:
  assumes "P w" "plain_release op"
  shows "P (snd (reconcile_submit b op w))"
proof -
  let ?u = "update_report (\<lambda>r. r\<lparr>re_outcome := RecEffectUnknown\<rparr>) w"
  obtain r w' where r: "submit_release b op ?u = (r, w')" by fastforce
  have "r \<noteq> Some Submitted \<Longrightarrow> P w'" "r = Some Submitted \<Longrightarrow> P (w'\<lparr>w_owner := track op False (w_owner w')\<rparr>)"
    using submit_release_keeps [OF update_report_keeps [OF assms(1)] _ _ _ r] plain_releaseD [OF assms(2)] by simp_all
  then show ?thesis
    using r by (auto simp: reconcile_submit_def Let_def intro: update_report_keeps split: option.split Submission.split)
qed

lemma reconcile_one_keeps:
  assumes "P w" "plain_release op"
  shows "P (snd (reconcile_one b op w))"
proof -
  obtain prepared sh where p: "be_prepare b op (w_shared w) = (prepared, sh)" by fastforce
  have w: "P (w\<lparr>w_shared := sh\<rparr>)" by (rule quiet_keeps [OF assms(1) quiet_intros(2)])
  show ?thesis
    using p quiet_keeps [OF w cancel_prepared_quiet]
    by (auto simp: reconcile_one_def Let_def split: option.split sum.split
        intro!: quiet_keeps [OF _ cancel_prepared_quiet] try_keeps clocked_reconciliation_keeps w
          reconcile_submit_keeps assms(2))
qed

lemma reconcile_all_keeps: "P w \<Longrightarrow> list_all plain_release ops \<Longrightarrow> P (snd (reconcile_all b ops w))"
proof (induction ops arbitrary: w)
  case (Cons op ops)
  then show ?case using reconcile_one_keeps [of w op b] by (auto intro!: try_keeps)
qed simp

end

interpretation released: release_invariant accounted
proof unfold_locales
  fix w w' :: "'x world" and c r floor
  assume w: "accounted w"
  show "accounted w'" if "quiet w w'" using accounted_quiet [OF that w] .
  show "accounted w'" if "operation_valid (nc_operation c)" "wheel_fits (nc_operation c) (se_wheel (w_owner w))"
    "w_calls w' = w_calls w @ [c]" "w_owner w' = held_after_call c (w_owner w)"
    using accounted_call [OF w that] .
  show "accounted (w\<lparr>w_owner := (w_owner w)\<lparr>se_reconciliation_floor := floor, se_reconciliation := r\<rparr>\<rparr>)"
    by (rule accounted_cong [OF w]) simp_all
qed

text \<open>Only releases are called, and a wheel button that is up stays up.\<close>

definition only_releases :: "InputSession \<Rightarrow> native_call list \<Rightarrow> 'x world \<Rightarrow> bool" where
  "only_releases o_s before w \<longleftrightarrow> same_frame o_s (w_owner w)
     \<and> (se_wheel (w_owner w) = None \<or> se_wheel (w_owner w) = se_wheel o_s)
     \<and> (\<exists>new. w_calls w = before @ new \<and> (\<forall>c \<in> set new. is_release (nc_operation c)))"

lemma release_wheel_after:
  "is_release (nc_operation c) \<Longrightarrow> se_wheel (held_after_call c o_s) = None \<or> se_wheel (held_after_call c o_s) = se_wheel o_s"
  by (cases "nc_operation c") (auto simp: held_after_release track_def)

interpretation releasing: release_invariant "only_releases o_s before" for o_s before
proof unfold_locales
  fix w w' :: "'x world" and c r floor
  assume w: "only_releases o_s before w"
  show "only_releases o_s before w'" if "quiet w w'"
    using w by (simp add: only_releases_def same_frame_def quiet_owner [OF that])
  show "only_releases o_s before w'" if "is_release (nc_operation c)"
    "w_calls w' = w_calls w @ [c]" "w_owner w' = held_after_call c (w_owner w)"
    using w that release_wheel_after [OF that(1), of "w_owner w"]
    by (auto simp: only_releases_def same_frame_def)
  show "only_releases o_s before (w\<lparr>w_owner := (w_owner w)\<lparr>se_reconciliation_floor := floor, se_reconciliation := r\<rparr>\<rparr>)"
    using w by (simp add: only_releases_def same_frame_def)
qed

interpretation reporting: release_invariant "\<lambda>w. is_some (se_reconciliation (w_owner w))"
proof unfold_locales
  fix w w' :: "'x world" and c
  assume w: "is_some (se_reconciliation (w_owner w))"
  show "is_some (se_reconciliation (w_owner w'))" if "quiet w w'"
    using w that by (auto simp: quiet_def quietly_def)
  show "is_some (se_reconciliation (w_owner w'))" if "w_owner w' = held_after_call c (w_owner w)"
    using w by (auto simp: that held_after_call_def track_def restore_def Let_def split: Operation.split)
qed simp

section \<open>What a cleanup report says\<close>

lemma held_count_zero:
  assumes "held_ok o_s"
  shows "held_count o_s = 0 \<longleftrightarrow>
    (\<forall>i < 256. \<not> se_keys o_s ! i) \<and> (\<forall>i < 5. \<not> se_buttons o_s ! i) \<and> se_wheel o_s = None"
proof -
  let ?n = "length (filter id (se_keys o_s @ se_buttons o_s)) + (if is_some (se_wheel o_s) then 1 else 0)"
  have len: "length (se_keys o_s) = 256" "length (se_buttons o_s) = 5"
    using assms by (simp_all add: held_ok_def)
  have none: "filter id xs = [] \<longleftrightarrow> (\<forall>i < length xs. \<not> xs ! i)" for xs
    by (auto simp: filter_empty_conv in_set_conv_nth)
  have "length (filter id (se_keys o_s @ se_buttons o_s)) \<le> length (se_keys o_s @ se_buttons o_s)"
    by (rule length_filter_le)
  then have "?n < 2 ^ LENGTH(16)" using len by simp
  then have "held_count o_s = 0 \<longleftrightarrow> ?n = 0"
    unfolding held_count_def by (simp only: of_nat_eq_word_iff) simp
  also have "\<dots> \<longleftrightarrow> (\<forall>i < 256. \<not> se_keys o_s ! i) \<and> (\<forall>i < 5. \<not> se_buttons o_s ! i) \<and> se_wheel o_s = None"
    by (cases "se_wheel o_s") (simp_all add: none len)
  finally show ?thesis .
qed

lemma nothing_held:
  assumes "accounted w" "held_count (w_owner w) = 0"
  shows "may_hold (w_calls w) = {}"
proof -
  have ok: "held_ok (w_owner w)" using assms(1) by (simp add: accounted_def)
  have "valid_key key \<Longrightarrow> unat (usage key) < 256" for key using valid_key_usage [of key] by simp
  then have "\<not> tracked (w_owner w) t" for t
    using assms(2) button_flags(1) by (cases t) (auto simp: held_count_zero [OF ok])
  then show ?thesis using assms(1) by (auto simp: accounted_def)
qed

lemma release_held_report:
  "release_held b w = (Inr report, w') \<Longrightarrow> cl_remaining report = held_count (w_owner w')"
  by (auto simp: release_held_def dest!: try_then_InrD)

section \<open>A backend that accepts releases\<close>

definition accepts_releases :: "'x backend \<Rightarrow> bool" where
  "accepts_releases b \<longleftrightarrow> (\<forall>op sh. is_release op \<longrightarrow>
     fst (be_prepare b op sh) = Some (Inr ()) \<and> fst (be_submit b op sh) = Some Submitted)"

lemma release_one_accepted:
  assumes "accepts_releases b" "is_release op"
  shows "fst (release_one b op w) = Inr True \<and> w_owner (snd (release_one b op w)) = track op False (w_owner w)"
proof -
  obtain sh where p: "be_prepare b op (w_shared w) = (Some (Inr ()), sh)"
    using assms by (metis accepts_releases_def prod.collapse)
  obtain sh' where "be_submit b op sh = (Some Submitted, sh')"
    using assms by (metis accepts_releases_def prod.collapse)
  then show ?thesis using p by (simp add: release_one_def submit_release_def)
qed

lemma release_all_accepted:
  assumes "accepts_releases b"
  shows "list_all plain_release ops \<Longrightarrow> fst (release_all b ops n w) = Inr (n + of_nat (length ops))
    \<and> w_owner (snd (release_all b ops n w)) = fold (\<lambda>op. track op False) ops (w_owner w)"
proof (induction ops arbitrary: n w)
  case (Cons op ops)
  then have "is_release op" by (simp add: plain_releaseD)
  then obtain w1 where "release_one b op w = (Inr True, w1)" "w_owner w1 = track op False (w_owner w)"
    using release_one_accepted [OF assms, of op w] by (metis prod.collapse)
  then show ?case using Cons by (simp add: add.assoc)
qed simp

definition held_keys_of :: "InputSession \<Rightarrow> PhysicalKey list" where
  "held_keys_of o_s = concat (map (\<lambda>index.
     if se_keys o_s ! index
     then (case physical_key_new (of_nat index) of None \<Rightarrow> [] | Some key \<Rightarrow> [key])
     else []) [0..<length (se_keys o_s)])"

lemma held_key_operations_eq: "held_key_operations o_s = map (\<lambda>key. OKey key Release) (held_keys_of o_s)"
  by (auto simp: held_key_operations_def held_keys_of_def map_concat split: option.split
      intro!: arg_cong [where f = concat])

lemma held_keys_of_iff:
  assumes "held_ok o_s"
  shows "key \<in> set (held_keys_of o_s) \<longleftrightarrow> valid_key key \<and> se_keys o_s ! unat (usage key)"
proof
  assume "key \<in> set (held_keys_of o_s)"
  then obtain i where i: "i < 256" "se_keys o_s ! i" "physical_key_new (of_nat i) = Some key"
    using assms by (auto simp: held_keys_of_def held_ok_def split: if_splits option.splits)
  then have "key = PhysicalKey (of_nat i)" by (auto simp: physical_key_new_def split: if_splits)
  moreover have "unat (of_nat i :: u16) = i" using i(1) by (simp add: unat_of_nat_less)
  ultimately show "valid_key key \<and> se_keys o_s ! unat (usage key)"
    using assms i(1,2) by (simp add: held_ok_def)
next
  assume key: "valid_key key \<and> se_keys o_s ! unat (usage key)"
  then have "unat (usage key) < 256" using valid_key_usage [of key] by simp
  moreover have "physical_key_new (of_nat (unat (usage key))) = Some key"
    using key by (cases key) (auto simp: valid_key_def physical_key_new_def split: if_splits)
  ultimately show "key \<in> set (held_keys_of o_s)"
    using key assms by (auto simp: held_keys_of_def held_ok_def intro!: bexI [of _ "unat (usage key)"])
qed

lemma release_keys_flags:
  "se_keys (fold (\<lambda>op. track op False) (map (\<lambda>key. OKey key Release) keys) o_s)
     = fold (\<lambda>key ks. ks[unat (usage key) := False]) keys (se_keys o_s)"
  "se_buttons (fold (\<lambda>op. track op False) (map (\<lambda>key. OKey key Release) keys) o_s) = se_buttons o_s"
  "se_wheel (fold (\<lambda>op. track op False) (map (\<lambda>key. OKey key Release) keys) o_s) = se_wheel o_s"
  by (induction keys arbitrary: o_s) (simp_all add: track_def)

lemma release_buttons_flags:
  "se_buttons (fold (\<lambda>op. track op False) (map (\<lambda>button. OButton button False) buttons) o_s)
     = fold (\<lambda>button bs. bs[button_code button - 1 := False]) buttons (se_buttons o_s)"
  "se_keys (fold (\<lambda>op. track op False) (map (\<lambda>button. OButton button False) buttons) o_s) = se_keys o_s"
  "se_wheel (fold (\<lambda>op. track op False) (map (\<lambda>button. OButton button False) buttons) o_s) = se_wheel o_s"
  by (induction buttons arbitrary: o_s) (simp_all add: track_def)

lemma held_button_operations_eq:
  "held_button_operations o_s =
     map (\<lambda>button. OButton button False) (filter (\<lambda>button. se_buttons o_s ! (button_code button - 1)) all_buttons)"
  by (simp add: held_button_operations_def all_buttons_def)

lemma release_keys_clears:
  assumes "held_ok o_s" "i < 256"
  shows "\<not> fold (\<lambda>key ks. ks[unat (usage key) := False]) (held_keys_of o_s) (se_keys o_s) ! i"
proof
  let ?ks = "fold (\<lambda>key ks. ks[unat (usage key) := False]) (held_keys_of o_s) (se_keys o_s)"
  let ?key = "PhysicalKey (of_nat i)"
  assume set: "?ks ! i"
  have slots: "list_all valid_key (held_keys_of o_s)" by (simp add: list_all_iff held_keys_of_iff [OF assms(1)])
  have len: "length (se_keys o_s) = 256" using assms(1) by (simp add: held_ok_def)
  have i: "unat (usage ?key) = i" using assms(2) by (simp add: unat_of_nat_less)
  have sub: "?ks ! i \<Longrightarrow> se_keys o_s ! i"
  proof -
    have "fold (\<lambda>key ks. ks[unat (usage key) := False]) keys ks ! i \<Longrightarrow> ks ! i"
      if "length ks = 256" for keys and ks :: "bool list"
      using that
    proof (induction keys arbitrary: ks)
      case (Cons key keys)
      then have "ks[unat (usage key) := False] ! i" by simp
      then show ?case using Cons.prems(2) assms(2) by (cases "unat (usage key) = i") auto
    qed simp
    then show "?ks ! i \<Longrightarrow> se_keys o_s ! i" using len by blast
  qed
  then have "valid_key ?key" "?key \<in> set (held_keys_of o_s)"
    using set assms i by (auto simp: held_ok_def held_keys_of_iff)
  then have "\<not> ?ks ! unat (usage ?key)"
    using key_array.get_puts [OF len slots, of ?key False] by simp
  then show False using set i by simp
qed

lemma release_buttons_clears:
  assumes "length bs = 5" "i < 5"
  shows "\<not> fold (\<lambda>button bs. bs[button_code button - 1 := False])
    (filter (\<lambda>button. bs ! (button_code button - 1)) all_buttons) bs ! i"
proof -
  have "i = 0 \<or> i = 1 \<or> i = 2 \<or> i = 3 \<or> i = 4" using assms(2) by linarith
  then obtain button where i: "i = button_code button - 1"
    using that [of Primary] that [of Secondary] that [of Middle] that [of Back] that [of Forward] by auto
  have "button \<in> set all_buttons" by (cases button) (simp_all add: all_buttons_def)
  then show ?thesis
    using button_array.get_puts [OF assms(1), where j = button and v = False
        and ks = "filter (\<lambda>button. bs ! (button_code button - 1)) all_buttons"]
    by (simp add: i list_all_iff)
qed

lemma release_wheel_accepted:
  assumes "accepts_releases b"
  shows "\<exists>n. fst (release_wheel b w) = Inr n
    \<and> w_owner (snd (release_wheel b w)) = (w_owner w)\<lparr>se_wheel := None\<rparr>"
proof (cases "se_wheel (w_owner w)")
  case (Some d)
  then show ?thesis
    using release_one_accepted [OF assms, of "OWheel d False" w]
    by (cases "release_one b (OWheel d False) w") (simp add: release_wheel_def cancel_prepared_def track_def)
qed (simp add: release_wheel_def)

lemma release_held_accepted:
  assumes b: "accepts_releases b" and ok: "held_ok (w_owner w)"
  shows "\<exists>report. fst (release_held b w) = Inr report \<and> cl_remaining report = 0"
proof -
  obtain n w1 where w1: "release_wheel b w = (Inr n, w1)" and o1: "w_owner w1 = (w_owner w)\<lparr>se_wheel := None\<rparr>"
    using release_wheel_accepted [OF b, of w] by (metis prod.collapse)
  have ok1: "held_ok (w_owner w1)" using ok by (simp add: o1 held_ok_def)
  obtain n2 w2 where w2: "release_all b (held_key_operations (w_owner w1)) n w1 = (Inr n2, w2)"
    and o2: "w_owner w2 = fold (\<lambda>op. track op False) (held_key_operations (w_owner w1)) (w_owner w1)"
    using release_all_accepted [OF b held_key_operations_plain, of "w_owner w1" n w1] by (metis prod.collapse)
  obtain n3 w3 where w3: "release_all b (held_button_operations (w_owner w2)) n2 w2 = (Inr n3, w3)"
    and o3: "w_owner w3 = fold (\<lambda>op. track op False) (held_button_operations (w_owner w2)) (w_owner w2)"
    using release_all_accepted [OF b held_button_operations_plain, of "w_owner w2" n2 w2] by (metis prod.collapse)
  have keys: "\<not> se_keys (w_owner w3) ! i" if "i < 256" for i
    using release_keys_clears [OF ok1 that]
    by (simp add: o3 o2 held_button_operations_eq held_key_operations_eq release_keys_flags release_buttons_flags)
  have "length (se_buttons (w_owner w2)) = 5"
    using ok1 by (simp add: o2 held_key_operations_eq release_keys_flags held_ok_def)
  then have buttons: "\<not> se_buttons (w_owner w3) ! i" if "i < 5" for i
    using release_buttons_clears [OF _ that] by (simp add: o3 held_button_operations_eq release_buttons_flags)
  have whl: "se_wheel (w_owner w3) = None"
    by (simp add: o3 o2 o1 held_button_operations_eq held_key_operations_eq release_keys_flags release_buttons_flags)
  have run: "release_held b w = (Inr \<lparr>cl_submitted_releases = n3, cl_remaining = held_count (w_owner w3)\<rparr>, w3)"
    using w1 w2 w3 by (simp add: release_held_def)
  have lengths: "length (fold (\<lambda>key ks. ks[unat (usage key) := False]) keys ks) = length ks"
    "length (fold (\<lambda>button bs. bs[button_code button - 1 := False]) buttons bs) = length bs" for keys ks buttons bs
    by (induction keys arbitrary: ks) (simp, simp, induction buttons arbitrary: bs, simp_all)
  have "length (se_keys (w_owner w3)) = 256" "length (se_buttons (w_owner w3)) = 5"
    using ok1 \<open>length (se_buttons (w_owner w2)) = 5\<close>
    by (simp_all add: o3 o2 held_button_operations_eq held_key_operations_eq release_keys_flags release_buttons_flags
        lengths lengths [unfolded One_nat_def] held_ok_def)
  then have "held_ok (w_owner w3)" using keys by (simp add: held_ok_def)
  then have "held_count (w_owner w3) = 0" using keys buttons whl by (simp add: held_count_zero)
  then show ?thesis using run by simp
qed

section \<open>Successful reconciliation\<close>

definition same_held :: "InputSession \<Rightarrow> InputSession \<Rightarrow> bool" where
  "same_held o1 o2 \<longleftrightarrow> se_keys o1 = se_keys o2 \<and> se_buttons o1 = se_buttons o2 \<and> se_wheel o1 = se_wheel o2"

lemma same_held_quiet: "quiet w w' \<Longrightarrow> same_held (w_owner w') (w_owner w)"
  by (simp add: same_held_def quiet_owner)

lemma same_held_track: "same_held o1 o2 \<Longrightarrow> same_held (track op False o1) (track op False o2)"
  by (simp add: same_held_def track_def split: Operation.split)

lemma same_held_tracks:
  "same_held o1 o2 \<Longrightarrow> same_held (fold (\<lambda>op. track op False) ops o1) (fold (\<lambda>op. track op False) ops o2)"
  by (induction ops arbitrary: o1 o2) (simp_all add: same_held_track)

lemma same_held_trans: "same_held o1 o2 \<Longrightarrow> same_held o2 o3 \<Longrightarrow> same_held o1 o3"
  by (simp add: same_held_def)

lemma clocked_reconciliation_quiet: "quiet w (snd (clocked_reconciliation b w))"
proof -
  have "quiet w (snd (check_reconciliation b now w))" for now w
    by (auto simp: check_reconciliation_def active_with_time_def check_active_def
        intro: quiet_intros owner_with_time_quiet)
  then show ?thesis
    using sample_clock_quiet [of w b] by (auto simp: clocked_reconciliation_def split: prod.split intro: quiet_trans)
qed

lemma update_report_held [simp]:
  "w_calls (update_report f w) = w_calls w" "same_held (w_owner (update_report f w)) (w_owner w)"
  "se_keys (w_owner (update_report f w)) = se_keys (w_owner w)"
  "se_buttons (w_owner (update_report f w)) = se_buttons (w_owner w)"
  "se_wheel (w_owner (update_report f w)) = se_wheel (w_owner w)"
  by (simp_all add: update_report_def same_held_def)

lemma reconcile_submit_ok:
  assumes "reconcile_submit b op w = (Inr u, w')"
  shows "\<exists>c. w_calls w' = w_calls w @ [c] \<and> nc_operation c = op \<and> nc_result c = Some Submitted
    \<and> same_held (w_owner w') (track op False (w_owner w))"
proof -
  let ?u = "update_report (\<lambda>r. r\<lparr>re_outcome := RecEffectUnknown\<rparr>) w"
  obtain r w1 where r: "submit_release b op ?u = (r, w1)" by fastforce
  obtain sh c where w1: "w1 = ?u\<lparr>w_shared := sh, w_calls := w_calls w @ [c]\<rparr>"
    and c: "nc_operation c = op" "nc_result c = r"
    using r by (auto simp: submit_release_def split: prod.splits)
  have ok: "r = Some Submitted" "w' = update_report (\<lambda>r. r\<lparr>
             re_submitted_releases := re_submitted_releases r + 1,
             re_remaining_releases := re_remaining_releases r - 1,
             re_outcome := RecInterrupted\<rparr>) (w1\<lparr>w_owner := track op False (w_owner w1)\<rparr>)"
    using assms r by (auto simp: reconcile_submit_def split: option.splits Submission.splits)
  have "same_held (track op False (w_owner ?u)) (track op False (w_owner w))"
    by (rule same_held_track) simp
  then show ?thesis using c by (intro exI [of _ c]) (simp add: ok w1 same_held_def)
qed

lemma map_prod_id_eq: "map_prod id f x = (r, y) \<longleftrightarrow> (\<exists>z. x = (r, z) \<and> y = f z)"
  by (cases x) auto

lemma reconcile_one_ok:
  assumes "reconcile_one b op w = (Inr u, w')"
  shows "\<exists>c. w_calls w' = w_calls w @ [c] \<and> nc_operation c = op \<and> nc_result c = Some Submitted
    \<and> same_held (w_owner w') (track op False (w_owner w))"
proof -
  obtain sh w1 where w1: "clocked_reconciliation b (w\<lparr>w_shared := sh\<rparr>) = (Inr (), w1)"
    and run: "\<exists>w2. reconcile_submit b op w1 = (Inr u, w2) \<and> w' = cancel_prepared b w2"
    using assms by (auto simp: reconcile_one_def Let_def map_prod_id_eq split: prod.splits option.splits sum.splits dest!: try_then_InrD)
  have "quiet w w1"
    using clocked_reconciliation_quiet [of "w\<lparr>w_shared := sh\<rparr>" b] w1 quiet_trans [OF quiet_intros(2)] by fastforce
  moreover from run obtain c w2 where "w' = cancel_prepared b w2" "w_calls w2 = w_calls w1 @ [c]" "nc_operation c = op"
    "nc_result c = Some Submitted" "same_held (w_owner w2) (track op False (w_owner w1))"
    using reconcile_submit_ok by blast
  ultimately show ?thesis
    using same_held_track [OF same_held_quiet [of w w1]] quiet_owner(1) [of w w1]
    by (intro exI [of _ c]) (simp add: cancel_prepared_def same_held_def)
qed

lemma reconcile_all_ok:
  "reconcile_all b ops w = (Inr u, w') \<Longrightarrow> \<exists>new. w_calls w' = w_calls w @ new \<and> map nc_operation new = ops
    \<and> (\<forall>c \<in> set new. nc_result c = Some Submitted)
    \<and> same_held (w_owner w') (fold (\<lambda>op. track op False) ops (w_owner w))"
proof (induction ops arbitrary: w)
  case Nil
  then show ?case by (simp add: same_held_def)
next
  case (Cons op ops)
  then obtain w1 where one: "reconcile_one b op w = (Inr (), w1)" and rest: "reconcile_all b ops w1 = (Inr u, w')"
    by (auto dest!: try_then_InrD)
  obtain c where c: "w_calls w1 = w_calls w @ [c]" "nc_operation c = op" "nc_result c = Some Submitted"
    "same_held (w_owner w1) (track op False (w_owner w))"
    using reconcile_one_ok [OF one] by blast
  obtain new where "w_calls w' = w_calls w1 @ new" "map nc_operation new = ops" "\<forall>c \<in> set new. nc_result c = Some Submitted"
    "same_held (w_owner w') (fold (\<lambda>op. track op False) ops (w_owner w1))"
    using Cons.IH [OF rest] by blast
  then show ?case
    using c same_held_trans [OF _ same_held_tracks [OF c(4)]] by (intro exI [of _ "c # new"]) simp
qed

end
