(* ===== verification/Input_Owner.thy ===== *)
theory Input_Owner
  imports Input_Release
begin

text \<open>
  The input owner as a machine: every public operation of the session, interleaved with
  arbitrary steps of the other owners of the shared state. Its invariant ties the tracked
  flags to the native calls and the receipts to the replay ledger; the properties of the
  owner follow from it for every backend and every sequence of operations.
\<close>

section \<open>The machine\<close>

datatype (plugins only: size) 'x session_op =
    SDispatch InputRequest
  | SReconcile HeldStateRequest
  | SMaintain HostInstant
  | SCleanup
  | SRevoke
  | SInvalidateView
  | SSuspend
  | SDrop
  | SIssueTicket InputTicketId HostInstant
  | SIssueReadinessTicket InputTicketId HostInstant
  | SObservationChallenge u128 HostInstant
  | SRenewObservation u128 HostInstant
  | SControlChallenge u128 HostInstant
  | SRenewControl u128 HostInstant
  | STakeControlLease
  | SElsewhere "'x shared \<Rightarrow> 'x shared"

fun session_step :: "'x backend \<Rightarrow> 'x session_op \<Rightarrow> 'x world \<Rightarrow> 'x world" where
  "session_step b (SDispatch request) w = snd (dispatch b request w)"
| "session_step b (SReconcile request) w = snd (reconcile_held b request w)"
| "session_step b (SMaintain now) w = snd (maintain b now w)"
| "session_step b SCleanup w = snd (cleanup b w)"
| "session_step b SRevoke w = revoke w"
| "session_step b SInvalidateView w = invalidate_view w"
| "session_step b SSuspend w = suspend w"
| "session_step b SDrop w = session_drop w"
| "session_step b (SIssueTicket ticket now) w = snd (issue_ticket b ticket now w)"
| "session_step b (SIssueReadinessTicket ticket now) w = snd (issue_readiness_ticket_timed b ticket now w)"
| "session_step b (SObservationChallenge nonce now) w = snd (session_issue_observation_challenge b nonce now w)"
| "session_step b (SRenewObservation nonce now) w = snd (renew_observation b nonce now w)"
| "session_step b (SControlChallenge nonce now) w = snd (session_issue_control_challenge b nonce now w)"
| "session_step b (SRenewControl nonce now) w = snd (renew_control b nonce now w)"
| "session_step b STakeControlLease w = snd (take_control_lease w)"
| "session_step b (SElsewhere f) w = w\<lparr>w_shared := f (w_shared w)\<rparr>"

text \<open>A \<open>PhysicalKey\<close> exists only for the usages its constructor accepts.\<close>

fun session_op_valid :: "'x session_op \<Rightarrow> bool" where
  "session_op_valid (SDispatch request) = event_valid (ir_event request)"
| "session_op_valid _ = True"

section \<open>The invariant\<close>

definition ledger_receipt :: "Receipt \<Rightarrow> LedgerReceipt" where
  "ledger_receipt receipt = \<lparr>lr_sequence = rc_sequence receipt, lr_outcome = rc_outcome receipt\<rparr>"

text \<open>The receipts of the session and of its ledger are the same ring.\<close>

definition receipts_agree :: "InputSession \<Rightarrow> bool" where
  "receipts_agree o_s \<longleftrightarrow>
     lg_receipts (se_ledger o_s) = map (map_option ledger_receipt) (se_receipts o_s)
     \<and> lg_receipt_cursor (se_ledger o_s) = se_receipt_cursor o_s
     \<and> lg_receipt_capacity (se_ledger o_s) = MAX_RETAINED_INPUT_RECEIPTS
     \<and> length (se_receipts o_s) = MAX_RETAINED_INPUT_RECEIPTS
     \<and> lg_lease (se_ledger o_s) = se_lease o_s"

text \<open>The ledger has completed \<open>n\<close> actions and none is in flight.\<close>

definition ledger_at :: "nat \<Rightarrow> InputSequenceLedger \<Rightarrow> bool" where
  "ledger_at n g \<longleftrightarrow> (\<exists>a. implements g a \<and> \<not> ol_pending a \<and> length (ol_outcomes a) = n)"

definition idle :: "InputSession \<Rightarrow> bool" where
  "idle o_s \<longleftrightarrow> receipts_agree o_s \<and> (\<exists>n. ledger_at n (se_ledger o_s))
     \<and> (se_wheel o_s = None \<or> lg_fenced (se_ledger o_s))"

definition owner_ok :: "'x world \<Rightarrow> bool" where
  "owner_ok w \<longleftrightarrow> accounted w \<and> idle (w_owner w)"

lemma ledger_at_fence: "ledger_at n g \<Longrightarrow> ledger_at n (fence g)"
  unfolding ledger_at_def fence_def by (metis implements_fenced outcome_log.select_convs outcome_log.update_convs outcome_log.surjective)

lemma revoke_simps [simp]:
  "w_calls (revoke w) = w_calls w"
  "w_owner (revoke w) = (w_owner w)\<lparr>se_ledger := fence (se_ledger (w_owner w))\<rparr>"
  by (simp_all add: revoke_def)

lemma fence_simps [simp]:
  "lg_fenced (fence g)" "lg_receipts (fence g) = lg_receipts g" "lg_receipt_cursor (fence g) = lg_receipt_cursor g"
  "lg_receipt_capacity (fence g) = lg_receipt_capacity g" "lg_lease (fence g) = lg_lease g"
  "lg_pending (fence g) = lg_pending g" "lg_next_sequence (fence g) = lg_next_sequence g"
  by (simp_all add: fence_def)

lemma accounted_revoke: "accounted w \<Longrightarrow> accounted (revoke w)"
  by (rule accounted_cong) simp_all

lemma receipts_agree_cong:
  "receipts_agree o1 \<Longrightarrow> se_ledger o2 = se_ledger o1 \<Longrightarrow> se_receipts o2 = se_receipts o1 \<Longrightarrow>
     se_receipt_cursor o2 = se_receipt_cursor o1 \<Longrightarrow> se_lease o2 = se_lease o1 \<Longrightarrow> receipts_agree o2"
  by (simp add: receipts_agree_def)

lemma receipts_agree_revoke: "receipts_agree (w_owner w) \<Longrightarrow> receipts_agree (w_owner (revoke w))"
  by (simp add: receipts_agree_def)

lemma idle_revoke: "idle (w_owner w) \<Longrightarrow> idle (w_owner (revoke w))"
  using receipts_agree_revoke [of w] ledger_at_fence by (auto simp: idle_def)

lemma owner_ok_revoke: "owner_ok w \<Longrightarrow> owner_ok (revoke w)"
  by (simp only: owner_ok_def accounted_revoke idle_revoke)

lemma idle_frame:
  "idle o1 \<Longrightarrow> same_frame o1 o2 \<Longrightarrow> se_wheel o2 = None \<or> se_wheel o2 = se_wheel o1 \<Longrightarrow> idle o2"
  by (auto simp: idle_def receipts_agree_def same_frame_def)

lemma owner_ok_cong:
  "owner_ok w \<Longrightarrow> w_calls w' = w_calls w \<Longrightarrow> se_keys (w_owner w') = se_keys (w_owner w) \<Longrightarrow>
     se_buttons (w_owner w') = se_buttons (w_owner w) \<Longrightarrow> se_wheel (w_owner w') = se_wheel (w_owner w) \<Longrightarrow>
     same_frame (w_owner w) (w_owner w') \<Longrightarrow> owner_ok w'"
  unfolding owner_ok_def using accounted_cong [of w w'] idle_frame [of "w_owner w" "w_owner w'"] by blast

lemma owner_ok_quiet: "quiet w w' \<Longrightarrow> owner_ok w \<Longrightarrow> owner_ok w'"
  by (erule owner_ok_cong) (simp_all add: quiet_owner same_frame_def)

section \<open>Recording a receipt\<close>

lemma receipts_agree_record:
  assumes o_s: "receipts_agree (w_owner w)" and pending: "lg_pending (se_ledger (w_owner w)) = Some (rc_sequence receipt)"
    and at: "implements (se_ledger (w_owner w)) a"
    and whl: "se_wheel (w_owner w) = None \<or> \<not> completes_fully (rc_outcome receipt)"
  shows "idle (w_owner (record_receipt receipt False w))"
    and "ledger_at (Suc (length (ol_outcomes a))) (se_ledger (w_owner (record_receipt receipt False w)))"
proof -
  let ?g = "se_ledger (w_owner w)"
  let ?rec = "record_outcome (se_lease (w_owner w)) (rc_sequence receipt) (rc_outcome receipt) ?g"
  have lease: "se_lease (w_owner w) = lg_lease ?g" using o_s by (simp add: receipts_agree_def)
  obtain g' where run: "?rec = (Inr (), g')"
    using pending by (simp add: record_outcome_def check_lease_def lease Let_def)
  have abs: "fst (log_record (rc_sequence receipt) (rc_outcome receipt) a) = Inr ()"
    and impl: "implements g' (snd (log_record (rc_sequence receipt) (rc_outcome receipt) a))"
    using record_refines [OF at, of "rc_sequence receipt" "rc_outcome receipt"] run by (simp_all add: lease)
  have at': "ledger_at (Suc (length (ol_outcomes a))) g'"
    using impl abs unfolding ledger_at_def
    by (intro exI conjI) (auto simp: log_record_def split: if_splits)
  let ?w = "w\<lparr>w_owner := (w_owner w)\<lparr>se_ledger := g',
      se_receipts := (se_receipts (w_owner w))[se_receipt_cursor (w_owner w) := Some receipt],
      se_receipt_cursor := (se_receipt_cursor (w_owner w) + 1) mod length (se_receipts (w_owner w))\<rparr>\<rparr>"
  have final: "record_receipt receipt False w = (if completes_fully (rc_outcome receipt) then ?w else revoke ?w)"
    using run by (simp add: record_receipt_def)
  have agree: "receipts_agree (w_owner ?w)"
    using o_s pending run
    by (auto simp: receipts_agree_def record_outcome_def check_lease_def Let_def map_update ledger_receipt_def)
  show "ledger_at (Suc (length (ol_outcomes a))) (se_ledger (w_owner (record_receipt receipt False w)))"
    using at' ledger_at_fence [OF at'] by (simp add: final)
  then show "idle (w_owner (record_receipt receipt False w))"
    using agree receipts_agree_revoke [OF agree] whl by (auto simp: final idle_def)
qed

lemma record_receipt_owner [simp]:
  "w_calls (record_receipt receipt pointer w) = w_calls w"
  "se_keys (w_owner (record_receipt receipt pointer w)) = se_keys (w_owner w)"
  "se_buttons (w_owner (record_receipt receipt pointer w)) = se_buttons (w_owner w)"
  "se_wheel (w_owner (record_receipt receipt pointer w)) = se_wheel (w_owner w)"
  "se_lease (w_owner (record_receipt receipt pointer w)) = se_lease (w_owner w)"
  "se_session (w_owner (record_receipt receipt pointer w)) = se_session (w_owner w)"
  "se_monitor (w_owner (record_receipt receipt pointer w)) = se_monitor (w_owner w)"
  by (simp_all add: record_receipt_def Let_def case_prod_beta)

section \<open>Dispatch\<close>

text \<open>The reliable requests that reach the native boundary, and the pointer states that do.\<close>

definition admitted :: "InputRequest \<Rightarrow> 'x world \<Rightarrow> bool" where
  "admitted request w \<longleftrightarrow>
     ic_session (ir_credentials request) = se_session (w_owner w)
     \<and> ic_lease (ir_credentials request) = se_lease (w_owner w) \<and> \<not> is_pointer (ir_event request)
     \<and> fst (admit (se_lease (w_owner w)) (ir_sequence request) (se_ledger (w_owner w))) = Inr Admitted"

definition newer_pointer :: "InputRequest \<Rightarrow> 'x world \<Rightarrow> bool" where
  "newer_pointer request w \<longleftrightarrow>
     ic_session (ir_credentials request) = se_session (w_owner w)
     \<and> ic_lease (ir_credentials request) = se_lease (w_owner w) \<and> is_pointer (ir_event request)
     \<and> \<not> is_some_and (\<lambda>floor. ir_sequence request \<le> floor) (se_pointer_floor (w_owner w))
     \<and> is_ok (check_active w)"

definition admit_world :: "InputRequest \<Rightarrow> 'x world \<Rightarrow> 'x world" where
  "admit_world request w = w\<lparr>w_owner := (w_owner w)\<lparr>se_ledger :=
     snd (admit (se_lease (w_owner w)) (ir_sequence request) (se_ledger (w_owner w)))\<rparr>\<rparr>"

definition pointer_world :: "InputRequest \<Rightarrow> 'x world \<Rightarrow> 'x world" where
  "pointer_world request w = w\<lparr>w_owner := (w_owner w)\<lparr>se_pointer_floor := Some (ir_sequence request)\<rparr>\<rparr>"

lemma dispatch_admitted:
  "admitted request w \<Longrightarrow> dispatch b request w = dispatch_attempt b request False (admit_world request w)"
  by (simp add: admitted_def dispatch_def admit_world_def Let_def case_prod_beta)

lemma dispatch_pointer:
  "newer_pointer request w \<Longrightarrow> dispatch b request w = dispatch_attempt b request True (pointer_world request w)"
  by (auto simp: newer_pointer_def dispatch_def pointer_world_def Let_def is_ok_def split: sum.splits)

lemma admit_refused:
  "fst (admit l q g) \<noteq> Inr Admitted \<Longrightarrow>
     snd (admit l q g) = g \<or> (snd (admit l q g) = fence g \<and> (\<exists>e. fst (admit l q g) = Inl e))"
  by (auto simp: admit_def check_lease_def ok_or_def fence_def split: option.splits if_splits)

lemma revoke_fenced: "revoke (w\<lparr>w_owner := (w_owner w)\<lparr>se_ledger := fence (se_ledger (w_owner w))\<rparr>\<rparr>) = revoke w"
  by (simp add: revoke_def fence_def)

lemma world_same_ledger: "w\<lparr>w_owner := (w_owner w)\<lparr>se_ledger := se_ledger (w_owner w)\<rparr>\<rparr> = w"
  by simp

lemma dispatch_refused:
  assumes "\<not> admitted request w" "\<not> newer_pointer request w"
  shows "snd (dispatch b request w) = w \<or> snd (dispatch b request w) = revoke w"
proof (cases "ic_session (ir_credentials request) = se_session (w_owner w)
    \<and> ic_lease (ir_credentials request) = se_lease (w_owner w) \<and> \<not> is_pointer (ir_event request)")
  case False
  then consider "ic_session (ir_credentials request) \<noteq> se_session (w_owner w)"
    | "ic_session (ir_credentials request) = se_session (w_owner w)" "ic_lease (ir_credentials request) \<noteq> se_lease (w_owner w)"
    | "ic_session (ir_credentials request) = se_session (w_owner w)" "ic_lease (ir_credentials request) = se_lease (w_owner w)"
      "is_pointer (ir_event request)"
    by blast
  then show ?thesis
  proof cases
    case 3
    then have "is_some_and (\<lambda>floor. ir_sequence request \<le> floor) (se_pointer_floor (w_owner w)) \<or> (\<exists>e. check_active w = Inl e)"
      using assms(2) by (cases "check_active w") (simp_all add: newer_pointer_def)
    then show ?thesis using 3 by (elim disjE exE) (simp_all add: dispatch_def Let_def)
  qed (simp_all add: dispatch_def Let_def)
next
  case True
  let ?a = "admit (se_lease (w_owner w)) (ir_sequence request) (se_ledger (w_owner w))"
  have na: "fst ?a \<noteq> Inr Admitted" using True assms(1) by (simp add: admitted_def)
  obtain r g where a: "?a = (r, g)" by fastforce
  have g: "g = se_ledger (w_owner w) \<or> (g = fence (se_ledger (w_owner w)) \<and> (\<exists>e. r = Inl e))"
    using admit_refused [OF na] by (simp add: a)
  show ?thesis
  proof (cases r)
    case (Inl e)
    then have "snd (dispatch b request w) = (if lg_fenced g then revoke else id) (w\<lparr>w_owner := (w_owner w)\<lparr>se_ledger := g\<rparr>\<rparr>)"
      using True by (simp add: dispatch_def a is_fenced_def)
    then show ?thesis using g by (elim disjE) (simp_all add: revoke_fenced)
  next
    case (Inr admission)
    then have "snd (dispatch b request w) = w\<lparr>w_owner := (w_owner w)\<lparr>se_ledger := g\<rparr>\<rparr>"
      using True na by (cases admission) (simp_all add: dispatch_def Let_def a)
    then show ?thesis using g Inr by simp
  qed
qed

lemma dispatch_attempt_snd [simp]:
  "snd (dispatch_attempt b request pointer w) = snd (run_attempt b request pointer w)"
  by (simp add: dispatch_attempt_def)

lemma run_attempt_accounted:
  assumes "accounted w" "event_valid (ir_event request)"
    and "se_wheel (w_owner w) = None \<or> lg_fenced (se_ledger (w_owner w))"
  shows "accounted (snd (run_attempt b request pointer w))"
  using assms(3)
proof (cases rule: run_attempt_cases [of w b request pointer])
  case (1 s new receipt)
  have "accounted (start_attempt request pointer w)"
    using assms(1) by (rule accounted_cong) simp_all
  then have "accounted s"
    using tracking.execute_keeps [of "start_attempt request pointer w" "ir_event request" b] assms(2,3) 1(2) by simp
  then show ?thesis unfolding 1(1) by (rule accounted_cong) (simp_all add: world_of_def)
qed

lemma admitted_ledger:
  assumes "idle (w_owner w)" "admitted request w"
  obtains a where "implements (se_ledger (w_owner (admit_world request w))) a"
    "lg_pending (se_ledger (w_owner (admit_world request w))) = Some (ir_sequence request)"
    "unat (ir_sequence request) = length (ol_outcomes a)"
    "ledger_at (length (ol_outcomes a)) (se_ledger (w_owner w))"
    "receipts_agree (w_owner (admit_world request w))"
    "\<not> lg_fenced (se_ledger (w_owner w))" "se_wheel (w_owner (admit_world request w)) = None"
    "\<not> lg_fenced (se_ledger (w_owner (admit_world request w)))"
proof -
  let ?g = "se_ledger (w_owner w)" and ?q = "ir_sequence request"
  obtain a where a: "implements ?g a" "\<not> ol_pending a"
    using assms(1) by (auto simp: idle_def ledger_at_def)
  have lease: "se_lease (w_owner w) = lg_lease ?g" and cap: "lg_receipt_capacity ?g = MAX_RETAINED_INPUT_RECEIPTS"
    using assms(1) by (simp_all add: idle_def receipts_agree_def)
  have adm: "fst (admit (lg_lease ?g) ?q ?g) = Inr Admitted"
    using assms(2) by (simp add: admitted_def lease)
  then have log: "fst (log_admit (lg_receipt_capacity ?g) ?q a) = Inr Admitted"
    using admit_refines(1) [OF a(1), of ?q] by simp
  then have q: "unat ?q = length (ol_outcomes a)" and la: "snd (log_admit (lg_receipt_capacity ?g) ?q a) = a\<lparr>ol_pending := True\<rparr>"
    by (auto simp: log_admit_def Let_def split: if_splits)
  have g': "snd (admit (lg_lease ?g) ?q ?g) = ?g\<lparr>lg_next_sequence := checked_add ?q 1, lg_pending := Some ?q\<rparr>"
    and nf: "\<not> lg_fenced ?g"
    using adm by (auto simp: admit_def check_lease_def ok_or_def split: option.splits if_splits)
  show thesis
  proof (rule that [of "a\<lparr>ol_pending := True\<rparr>"])
    show "implements (se_ledger (w_owner (admit_world request w))) (a\<lparr>ol_pending := True\<rparr>)"
      using admit_refines(2) [OF a(1), of ?q] la by (simp add: admit_world_def lease)
    show "receipts_agree (w_owner (admit_world request w))"
      using assms(1) by (simp add: idle_def receipts_agree_def admit_world_def lease g')
    show "se_wheel (w_owner (admit_world request w)) = None"
      using assms(1) nf by (auto simp: idle_def admit_world_def)
    show "\<not> lg_fenced (se_ledger (w_owner (admit_world request w)))"
      using nf by (simp add: admit_world_def lease g')
  qed (use q nf a in \<open>auto simp: admit_world_def lease g' ledger_at_def\<close>)
qed

section \<open>One step of the owner\<close>

text \<open>
  Every call is a release, or was checked for the owner's lease while its ledger was open.
  The identity of the owner is fixed and a fence stays.
\<close>

definition call_allowed :: "InputSession \<Rightarrow> native_call \<Rightarrow> bool" where
  "call_allowed o_s c \<longleftrightarrow> is_release (nc_operation c)
     \<or> (\<not> lg_fenced (se_ledger o_s) \<and> (\<exists>credentials. authorized_call o_s credentials c))"

text \<open>The number of reliable actions the ledger has consumed.\<close>

definition consumed :: "InputSession \<Rightarrow> nat" where
  "consumed o_s = (case lg_next_sequence (se_ledger o_s) of None \<Rightarrow> 2 ^ 64 | Some q \<Rightarrow> unat q)"

lemma ledger_at_consumed: "ledger_at n (se_ledger o_s) \<Longrightarrow> consumed o_s = n"
  by (auto simp: ledger_at_def implements_def consumed_def log_next_def split: option.splits)

lemma consumed_bound: "consumed o_s \<le> 2 ^ 64"
proof (cases "lg_next_sequence (se_ledger o_s)")
  case (Some q)
  moreover have "unat q < 2 ^ 64" using unsigned_less [of q] by simp
  ultimately show ?thesis by (simp add: consumed_def)
qed (simp add: consumed_def)

text \<open>Receipts are overwritten only by the actions that share their place in the ring.\<close>

definition slots_kept :: "InputSession \<Rightarrow> InputSession \<Rightarrow> bool" where
  "slots_kept o_s o_s' \<longleftrightarrow>
     (\<forall>i. (\<forall>k. consumed o_s \<le> k \<longrightarrow> k < consumed o_s' \<longrightarrow> k mod MAX_RETAINED_INPUT_RECEIPTS \<noteq> i)
        \<longrightarrow> se_receipts o_s' ! i = se_receipts o_s ! i)"

lemma slots_kept_trans:
  "slots_kept o1 o2 \<Longrightarrow> slots_kept o2 o3 \<Longrightarrow> consumed o1 \<le> consumed o2 \<Longrightarrow> consumed o2 \<le> consumed o3 \<Longrightarrow> slots_kept o1 o3"
  unfolding slots_kept_def by (metis order_less_le_trans order_trans)

definition proceeds :: "nat \<Rightarrow> 'x world \<Rightarrow> 'x world \<Rightarrow> bool" where
  "proceeds n w w' \<longleftrightarrow> owner_ok w' \<and> consumed (w_owner w') = consumed (w_owner w) + n
     \<and> slots_kept (w_owner w) (w_owner w')
     \<and> se_lease (w_owner w') = se_lease (w_owner w) \<and> se_session (w_owner w') = se_session (w_owner w)
     \<and> se_monitor (w_owner w') = se_monitor (w_owner w)
     \<and> (lg_fenced (se_ledger (w_owner w)) \<longrightarrow> lg_fenced (se_ledger (w_owner w')))
     \<and> (\<exists>new. w_calls w' = w_calls w @ new \<and> list_all (call_allowed (w_owner w)) new)"

lemma proceedsI:
  "owner_ok w' \<Longrightarrow> same_frame (w_owner w) (w_owner w') \<Longrightarrow> w_calls w' = w_calls w @ new \<Longrightarrow>
     list_all (call_allowed (w_owner w)) new \<Longrightarrow> proceeds 0 w w'"
  by (auto simp: proceeds_def same_frame_def consumed_def slots_kept_def)

lemma proceeds_refl: "owner_ok w \<Longrightarrow> proceeds 0 w w"
  by (auto simp: proceeds_def slots_kept_def)

lemma call_allowed_later:
  "proceeds n w w' \<Longrightarrow> call_allowed (w_owner w') c \<Longrightarrow> call_allowed (w_owner w) c"
  by (auto simp: proceeds_def call_allowed_def authorized_call_def)

lemma proceeds_trans:
  assumes "proceeds m w w'" "proceeds n w' w''"
  shows "proceeds (m + n) w w''"
proof -
  obtain new new' where new: "w_calls w' = w_calls w @ new" "w_calls w'' = w_calls w' @ new'"
    "list_all (call_allowed (w_owner w)) new" "list_all (call_allowed (w_owner w')) new'"
    using assms by (auto simp: proceeds_def)
  then have "w_calls w'' = w_calls w @ (new @ new')" "list_all (call_allowed (w_owner w)) (new @ new')"
    using call_allowed_later [OF assms(1)] by (auto simp: list_all_iff)
  moreover have "owner_ok w''" "se_lease (w_owner w'') = se_lease (w_owner w)"
    "se_session (w_owner w'') = se_session (w_owner w)" "se_monitor (w_owner w'') = se_monitor (w_owner w)"
    "lg_fenced (se_ledger (w_owner w)) \<longrightarrow> lg_fenced (se_ledger (w_owner w''))"
    "consumed (w_owner w'') = consumed (w_owner w) + (m + n)"
    using assms by (simp_all add: proceeds_def)
  moreover have "slots_kept (w_owner w) (w_owner w'')"
    using assms slots_kept_trans [of "w_owner w" "w_owner w'"] by (simp add: proceeds_def)
  ultimately show ?thesis unfolding proceeds_def by blast
qed

lemmas proceeds_then = proceeds_trans [where m = 0 and n = 0, simplified]

lemma proceeds_revoke: "owner_ok w \<Longrightarrow> proceeds 0 w (revoke w)"
  using owner_ok_revoke [of w] by (simp add: proceeds_def consumed_def slots_kept_def)

lemma proceeds_quiet: "owner_ok w \<Longrightarrow> quiet w w' \<Longrightarrow> proceeds 0 w w'"
  using owner_ok_quiet [of w w'] by (simp add: proceeds_def consumed_def slots_kept_def quiet_owner)

lemma attempt_allowed:
  "truthful o_s request new receipt \<Longrightarrow> new = [] \<or> \<not> lg_fenced (se_ledger o_s) \<Longrightarrow> list_all (call_allowed o_s) new"
  by (auto simp: truthful_def list_all_iff call_allowed_def)

lemma proceeds_attempt:
  assumes "owner_ok w'" "same_frame o_s (w_owner s)" "w_calls s = w_calls w @ new"
    and "truthful o_s request new receipt" "new = [] \<or> \<not> lg_fenced (se_ledger o_s)"
    and "w' = record_receipt receipt pointer (world_of s)"
    and "se_lease o_s = se_lease (w_owner w)" "se_session o_s = se_session (w_owner w)"
    and "se_monitor o_s = se_monitor (w_owner w)" "lg_fenced (se_ledger o_s) = lg_fenced (se_ledger (w_owner w))"
    and "lg_fenced (se_ledger (w_owner w)) \<longrightarrow> lg_fenced (se_ledger (w_owner w'))"
    and "consumed (w_owner w') = consumed (w_owner w) + n" "slots_kept (w_owner w) (w_owner w')"
  shows "proceeds n w w'"
proof -
  have "list_all (call_allowed (w_owner w)) new"
    using attempt_allowed [OF assms(4,5)] assms(7-10) by (simp add: list_all_iff call_allowed_def authorized_call_def)
  then show ?thesis
    using assms unfolding proceeds_def by (simp add: world_of_def same_frame_def)
qed

lemma idle_cursor:
  "idle o_s \<Longrightarrow> se_receipt_cursor o_s = consumed o_s mod MAX_RETAINED_INPUT_RECEIPTS"
proof -
  assume idle: "idle o_s"
  then obtain n where n: "ledger_at n (se_ledger o_s)" by (auto simp: idle_def)
  then obtain a where "implements (se_ledger o_s) a" "length (ol_outcomes a) = consumed o_s"
    using ledger_at_consumed [OF n] by (auto simp: ledger_at_def)
  then have "lg_receipt_cursor (se_ledger o_s) = consumed o_s mod lg_receipt_capacity (se_ledger o_s)"
    unfolding implements_def by simp
  moreover have "lg_receipt_cursor (se_ledger o_s) = se_receipt_cursor o_s"
    "lg_receipt_capacity (se_ledger o_s) = MAX_RETAINED_INPUT_RECEIPTS"
    using idle by (simp_all add: idle_def receipts_agree_def)
  ultimately show ?thesis by simp
qed

lemma record_receipt_False:
  "se_receipts (w_owner (record_receipt receipt False w)) =
     (se_receipts (w_owner w))[se_receipt_cursor (w_owner w) := Some receipt]"
  by (simp add: record_receipt_def Let_def case_prod_beta)

lemma admitted_step:
  assumes ok: "owner_ok w" "event_valid (ir_event request)" "admitted request w"
  shows "proceeds 1 w (snd (dispatch b request w)) \<and> unat (ir_sequence request) = consumed (w_owner w)"
proof -
  let ?w = "admit_world request w" and ?w' = "snd (dispatch b request w)"
  have idle: "idle (w_owner w)" and acc: "accounted w" using ok(1) by (simp_all add: owner_ok_def)
  obtain a where a: "implements (se_ledger (w_owner ?w)) a"
    "lg_pending (se_ledger (w_owner ?w)) = Some (ir_sequence request)"
    "unat (ir_sequence request) = length (ol_outcomes a)"
    "ledger_at (length (ol_outcomes a)) (se_ledger (w_owner w))"
    "receipts_agree (w_owner ?w)" "\<not> lg_fenced (se_ledger (w_owner w))" "se_wheel (w_owner ?w) = None"
    "\<not> lg_fenced (se_ledger (w_owner ?w))"
    by (rule admitted_ledger [OF idle ok(3)])
  have accw: "accounted ?w" using acc by (rule accounted_cong) (simp_all add: admit_world_def)
  have w': "?w' = snd (run_attempt b request False ?w)" by (simp add: dispatch_admitted [OF ok(3)])
  have accw': "accounted ?w'" unfolding w' using run_attempt_accounted [OF accw ok(2)] a(7) by simp
  have "se_wheel (w_owner ?w) = None \<or> lg_fenced (se_ledger (w_owner ?w))" using a(7) by simp
  then show ?thesis
  proof (cases rule: run_attempt_cases [where b = b and request = request and pointer = False])
    case (1 s new receipt)
    have s: "w_owner (world_of s) = w_owner s" by (simp add: world_of_def)
    have ledger: "se_ledger (w_owner s) = se_ledger (w_owner ?w)" "receipts_agree (w_owner s)"
      using 1(4) a(5) by (simp_all add: same_frame_def receipts_agree_def)
    have pending: "lg_pending (se_ledger (w_owner s)) = Some (rc_sequence receipt)"
      using a(2) 1(6) by (simp add: ledger truthful_def)
    note rec = receipts_agree_record [of "world_of s" receipt a, unfolded s,
        OF ledger(2) pending a(1) [folded ledger(1)] 1(8), folded 1(1), folded w']
    have receipts: "se_receipts (w_owner s) = se_receipts (w_owner w)" "se_receipt_cursor (w_owner s) = se_receipt_cursor (w_owner w)"
      using 1(4) by (simp_all add: same_frame_def admit_world_def)
    have cursor: "se_receipt_cursor (w_owner w) = consumed (w_owner w) mod MAX_RETAINED_INPUT_RECEIPTS"
      by (rule idle_cursor [OF idle])
    have "proceeds 1 w ?w'"
    proof (rule proceeds_attempt [OF _ 1(4) _ 1(6,7)])
      show "owner_ok ?w'" using accw' rec(1) by (simp add: owner_ok_def)
      show "?w' = record_receipt receipt False (world_of s)" by (simp only: w' 1(1))
      show "consumed (w_owner ?w') = consumed (w_owner w) + 1"
        using ledger_at_consumed [OF rec(2)] ledger_at_consumed [OF a(4)] by simp
      then have "slots_kept (w_owner w) (w_owner ?w')"
        using cursor by (auto simp: slots_kept_def w' 1(1) record_receipt_False s receipts)
      then show "slots_kept (w_owner w) (w_owner ?w')" .
    qed (use 1(5) a(6,8) in \<open>simp_all add: admit_world_def\<close>)
    then show ?thesis using a(3) ledger_at_consumed [OF a(4)] by simp
  qed
qed

lemma pointer_step:
  assumes ok: "owner_ok w" "event_valid (ir_event request)" "newer_pointer request w"
  shows "proceeds 0 w (snd (dispatch b request w))"
proof -
  let ?w = "pointer_world request w" and ?w' = "snd (dispatch b request w)"
  have w: "owner_ok ?w" "same_frame (w_owner w) (w_owner ?w)" "w_calls ?w = w_calls w"
    using ok(1) by (auto simp: pointer_world_def same_frame_def elim!: owner_ok_cong)
  have w': "?w' = snd (run_attempt b request True ?w)" by (simp add: dispatch_pointer [OF ok(3)])
  have pre: "se_wheel (w_owner ?w) = None \<or> lg_fenced (se_ledger (w_owner ?w))"
    using w(1) by (simp add: owner_ok_def idle_def)
  have acc: "accounted ?w'"
    unfolding w' using run_attempt_accounted [OF _ ok(2) pre] w(1) by (simp add: owner_ok_def)
  from pre show ?thesis
  proof (cases rule: run_attempt_cases [where b = b and request = request and pointer = True])
    case (1 s new receipt)
    let ?s = "world_of s"
    have s: "w_owner ?s = w_owner s" by (simp add: world_of_def)
    have frame: "same_frame (w_owner w) (w_owner ?s)"
      using 1(4) w(2) by (simp add: s same_frame_def)
    have final: "?w' = (if completes_fully (rc_outcome receipt) then ?s else revoke ?s)"
      by (simp add: w' 1(1) record_receipt_def)
    have "receipts_agree (w_owner ?s)" "ledger_at k (se_ledger (w_owner w)) \<Longrightarrow> ledger_at k (se_ledger (w_owner ?s))" for k
      using frame ok(1) by (simp_all add: owner_ok_def idle_def same_frame_def receipts_agree_def)
    then have "idle (w_owner ?w')"
      using ok(1) 1(8) receipts_agree_revoke [of ?s] ledger_at_fence by (auto simp: owner_ok_def idle_def final s)
    then have "owner_ok ?w'" using acc by (simp add: owner_ok_def)
    then show ?thesis
    proof (rule proceeds_attempt [OF _ 1(4) _ 1(6,7)])
      show "?w' = record_receipt receipt True ?s" by (simp only: w' 1(1))
    qed (use 1(5) w(2,3) frame in \<open>simp_all add: final same_frame_def consumed_def slots_kept_def\<close>)
  qed
qed

lemma only_releases_proceeds:
  assumes "owner_ok w" "only_releases (w_owner w) (w_calls w) w'" "accounted w'"
  shows "proceeds 0 w w'"
proof -
  obtain new where "w_calls w' = w_calls w @ new" "\<forall>c \<in> set new. is_release (nc_operation c)"
    and frame: "same_frame (w_owner w) (w_owner w')"
    and "se_wheel (w_owner w') = None \<or> se_wheel (w_owner w') = se_wheel (w_owner w)"
    using assms(2) by (auto simp: only_releases_def)
  moreover from this have "owner_ok w'" using assms(1,3) idle_frame [OF _ frame] by (simp add: owner_ok_def)
  ultimately show ?thesis by (intro proceedsI) (auto simp: list_all_iff call_allowed_def)
qed

lemma only_releases_refl: "only_releases (w_owner w) (w_calls w) w"
  by (simp add: only_releases_def same_frame_def)

lemma release_held_step:
  assumes "owner_ok w"
  shows "proceeds 0 w (snd (release_held b w))"
    and "same_frame (w_owner w) (w_owner (snd (release_held b w)))"
  using assms only_releases_proceeds [OF assms] releasing.release_held_keeps [OF only_releases_refl, of w b]
    released.release_held_keeps [of w b]
  by (auto simp: owner_ok_def only_releases_def)

lemma cleanup_step: "owner_ok w \<Longrightarrow> proceeds 0 w (snd (cleanup b w))"
  unfolding cleanup_def
  using proceeds_then [OF proceeds_revoke release_held_step(1)] owner_ok_revoke by blast

lemma settle_step: "owner_ok w \<Longrightarrow> proceeds 0 w (snd (settle b w))"
  by (simp add: settle_def cleanup_step proceeds_refl)

lemma confirm_release_quiet: "quiet w (confirm_release b w)"
  by (simp add: confirm_release_def quiet_intros)

lemma proceeds_ok: "proceeds n w w' \<Longrightarrow> owner_ok w'"
  by (simp add: proceeds_def)

lemma maintain_step:
  assumes "owner_ok w"
  shows "proceeds 0 w (snd (maintain b now w))"
proof -
  obtain r w1 where r: "owner_with_time b now control_status w = (r, w1)" by fastforce
  have p1: "proceeds 0 w w1" using proceeds_quiet [OF assms owner_with_time_quiet, of b now control_status] r by simp
  note ok1 = proceeds_ok [OF p1]
  have "proceeds 0 w1 (snd (try_then (release_held b w1) (\<lambda>report w.
            (Inr report, if cl_remaining report = 0 \<and> \<not> released then confirm_release b w else w))))" for released
  proof (rule try_then_keeps [where P = "proceeds 0 w1"])
    show "proceeds 0 w1 (snd (release_held b w1))" by (rule release_held_step(1) [OF ok1])
  qed (auto intro: proceeds_then proceeds_quiet [OF proceeds_ok confirm_release_quiet])
  moreover have "proceeds 0 w (snd (settle b (revoke w1)))"
    by (rule proceeds_then [OF p1 proceeds_then [OF proceeds_revoke [OF ok1] settle_step [OF owner_ok_revoke [OF ok1]]]])
  ultimately show ?thesis
    using r settle_step [OF assms] settle_step [OF ok1] proceeds_then [OF p1]
    by (auto simp: maintain_def split: sum.split ControlStatus.split)
qed

lemma update_report_quiet_frame:
  "w_calls (update_report f w) = w_calls w"
  "se_keys (w_owner (update_report f w)) = se_keys (w_owner w)"
  "se_buttons (w_owner (update_report f w)) = se_buttons (w_owner w)"
  "se_wheel (w_owner (update_report f w)) = se_wheel (w_owner w)"
  "same_frame (w_owner w) (w_owner (update_report f w))"
  by (simp_all add: update_report_def same_frame_def)

lemma update_report_step: "owner_ok w \<Longrightarrow> proceeds 0 w (update_report f w)"
  using owner_ok_cong [of w "update_report f w"]
  by (intro proceedsI [where new = "[]"]) (simp_all add: update_report_quiet_frame)

text \<open>The reconciliation proper, once the request is accepted.\<close>

definition begin_reconciliation :: "HeldStateRequest \<Rightarrow> 'x world \<Rightarrow> 'x world" where
  "begin_reconciliation request w = w\<lparr>w_owner := (w_owner w)\<lparr>
     se_reconciliation_floor := Some (hr_sequence request),
     se_reconciliation := Some \<lparr>re_sequence = hr_sequence request,
       re_outcome = RecInterrupted, re_submitted_releases = 0,
       re_remaining_releases = of_nat (length (missing_releases (hr_held request) (w_owner w))),
       re_refusal = None\<rparr>\<rparr>\<rparr>"

definition reconciliation_run :: "'x backend \<Rightarrow> HeldStateRequest \<Rightarrow> 'x world \<Rightarrow> (stop + unit) \<times> 'x world" where
  "reconciliation_run b request w =
     try_then (clocked_reconciliation b (begin_reconciliation request w))
       (\<lambda>_ w'. reconcile_all b (missing_releases (hr_held request) (w_owner w)) w')"

lemma reconciliation_run_step:
  assumes "owner_ok w"
  shows "proceeds 0 w (snd (reconciliation_run b request w))"
proof (rule only_releases_proceeds [OF assms])
  show "only_releases (w_owner w) (w_calls w) (snd (reconciliation_run b request w))"
    unfolding reconciliation_run_def begin_reconciliation_def
    by (intro releasing.try_keeps releasing.clocked_reconciliation_keeps releasing.report_keeps
        releasing.reconcile_all_keeps missing_releases_plain only_releases_refl) simp
  show "accounted (snd (reconciliation_run b request w))"
    unfolding reconciliation_run_def begin_reconciliation_def using assms
    by (intro released.try_keeps released.clocked_reconciliation_keeps released.report_keeps
        released.reconcile_all_keeps missing_releases_plain) (simp_all add: owner_ok_def)
qed

lemma reconcile_held_cases:
  obtains (ignored) "snd (reconcile_held b request w) = w" "fst (reconcile_held b request w) = Inr (ignored_report request)"
  | (gap) "snd (reconcile_held b request w) = revoke w" "\<exists>e. fst (reconcile_held b request w) = Inl e"
  | (run) r w' where "reconciliation_run b request w = (r, w')" "\<not> lg_fenced (se_ledger (w_owner w))"
      "reconcile_held b request w =
        (case r of
           Inl Unwind \<Rightarrow> (Inl Unwind, revoke w')
         | Inl (Refuse error) \<Rightarrow>
             let w'' = update_report (\<lambda>r. r\<lparr>
                       re_outcome := (if re_outcome r \<noteq> RecEffectUnknown then RecRefused else re_outcome r),
                       re_refusal := Some error\<rparr>) (revoke w')
             in (Inr (the (se_reconciliation (w_owner w''))), w'')
         | Inr _ \<Rightarrow>
             let w'' = update_report (\<lambda>r. r\<lparr>re_outcome := RecApplied\<rparr>) w'
             in (Inr (the (se_reconciliation (w_owner w''))), w''))"
proof -
  let ?o = "w_owner w"
  show thesis
  proof (cases "hr_session request \<noteq> se_session ?o \<or> hr_lease request \<noteq> se_lease ?o
         \<or> \<not> is_ok (check_active w)
         \<or> is_some_and (\<lambda>floor. hr_sequence request \<le> floor) (se_reconciliation_floor ?o)")
    case True
    then show thesis by (intro ignored) (simp_all add: reconcile_held_def Let_def)
  next
    case False
    show thesis
    proof (cases "next_sequence (se_ledger ?o)")
      case None
      with False show thesis by (intro ignored) (simp_all add: reconcile_held_def Let_def)
    next
      case (Some expected)
      consider "hr_next_action request < expected"
        | "\<not> hr_next_action request < expected" "hr_next_action request > expected \<or> is_some (pending_sequence (se_ledger ?o))"
        | "\<not> hr_next_action request < expected" "\<not> (hr_next_action request > expected \<or> is_some (pending_sequence (se_ledger ?o)))"
        by blast
      then show thesis
      proof cases
        case 1
        with False Some show thesis by (intro ignored) (simp_all add: reconcile_held_def Let_def)
      next
        case 2
        with False Some show thesis by (intro gap) (simp_all add: reconcile_held_def Let_def)
      next
        case 3
        obtain r w' where r: "reconciliation_run b request w = (r, w')" by fastforce
        have "\<not> lg_fenced (se_ledger ?o)"
          using False by (auto simp: check_active_def is_fenced_def split: if_splits)
        then show thesis
          using False Some 3 r
          by (intro run [OF r]) (simp_all add: reconcile_held_def Let_def reconciliation_run_def begin_reconciliation_def)
      qed
    qed
  qed
qed

lemma reconcile_step:
  assumes "owner_ok w"
  shows "proceeds 0 w (snd (reconcile_held b request w))"
proof (cases rule: reconcile_held_cases [of b request w])
  case (run r w')
  have p: "proceeds 0 w w'" using reconciliation_run_step [OF assms, of b request] run(1) by simp
  note ok = proceeds_ok [OF p]
  show ?thesis
    unfolding run(3) Let_def
    using proceeds_then [OF p proceeds_revoke [OF ok]] proceeds_then [OF p update_report_step [OF ok]]
      proceeds_then [OF proceeds_then [OF p proceeds_revoke [OF ok]] update_report_step [OF owner_ok_revoke [OF ok]]]
    by (simp split: sum.split stop.split)
qed (simp_all add: assms proceeds_refl proceeds_revoke)

lemma dispatch_step:
  assumes "owner_ok w" "event_valid (ir_event request)"
  shows "proceeds (if admitted request w then 1 else 0) w (snd (dispatch b request w))"
proof (cases "admitted request w \<or> newer_pointer request w")
  case True
  moreover have "newer_pointer request w \<Longrightarrow> \<not> admitted request w"
    by (simp add: newer_pointer_def admitted_def)
  ultimately show ?thesis
    using admitted_step [OF assms, of b] pointer_step [OF assms, of b] by (cases "admitted request w") simp_all
next
  case False
  then show ?thesis
    using dispatch_refused [of request w b] proceeds_refl [OF assms(1)] proceeds_revoke [OF assms(1)] by auto
qed

lemma active_with_time_quiet: "quiet w (snd (active_with_time b now f w))"
  by (auto simp: active_with_time_def check_active_def intro: quiet_intros owner_with_time_quiet)

lemma issue_ticket_snapshot_quiet: "quiet w (snd (issue_ticket_snapshot b ticket now presented w))"
  unfolding issue_ticket_snapshot_def
  by (rule try_then_keeps [where P = "quiet w"])
    (auto simp: active_with_time_quiet intro: quiet_trans quiet_intros split: prod.split)

lemma issue_ticket_quiet: "quiet w (snd (issue_ticket b ticket now w))"
  by (auto simp: issue_ticket_def issue_ticket_timed_def issue_ticket_authority_timed_def issue_ticket_proof_timed_def
      issue_ticket_snapshot_quiet intro!: try_then_keeps [where P = "quiet w"])

lemma take_control_lease_step: "owner_ok w \<Longrightarrow> proceeds 0 w (snd (take_control_lease w))"
  using owner_ok_cong [of w "w\<lparr>w_owner := (w_owner w)\<lparr>se_control_taken := True\<rparr>\<rparr>"]
  by (auto simp: take_control_lease_def Let_def proceeds_refl same_frame_def intro!: proceedsI [where new = "[]"])

fun step_consumes :: "'x session_op \<Rightarrow> 'x world \<Rightarrow> u64 list" where
  "step_consumes (SDispatch request) w = (if admitted request w then [ir_sequence request] else [])"
| "step_consumes _ w = []"

lemma session_step_proceeds:
  assumes "owner_ok w" "session_op_valid x"
  shows "proceeds (length (step_consumes x w)) w (session_step b x w)"
proof -
  note quiet = proceeds_quiet [OF assms(1)]
  have "proceeds 0 w (session_step b x w)" if "\<forall>request. x \<noteq> SDispatch request"
    using that
    by (cases x) (simp_all add: assms(1) reconcile_step maintain_step cleanup_step proceeds_revoke invalidate_view_def
        suspend_def session_drop_def issue_readiness_ticket_timed_def take_control_lease_step
        session_issue_observation_challenge_def renew_observation_def session_issue_control_challenge_def
        renew_control_def quiet active_with_time_quiet issue_ticket_quiet issue_ticket_snapshot_quiet quiet_intros)
  moreover have "proceeds (length (step_consumes x w)) w (session_step b x w)" if "x = SDispatch request" for request
    using dispatch_step [OF assms(1), of request b] assms(2) by (simp add: that split: if_splits)
  ultimately show ?thesis by (cases x) simp_all
qed

section \<open>Runs\<close>

definition open_session ::
  "'x backend \<Rightarrow> nat \<Rightarrow> InputCredentials \<Rightarrow> InputBounds \<Rightarrow> Capabilities \<Rightarrow> HostInstant \<Rightarrow> 'x shared \<Rightarrow> 'x world option" where
  "open_session b address credentials bounds capabilities now sh =
     (case from_shared_authority b address credentials bounds capabilities now sh of
        (Inl _, _) \<Rightarrow> None
      | (Inr o_s, sh') \<Rightarrow> Some \<lparr>w_owner = o_s, w_shared = sh', w_calls = []\<rparr>)"

lemma open_session_ok:
  assumes "open_session b address credentials bounds capabilities now sh = Some w"
  shows "owner_ok w" "w_calls w = []" "consumed (w_owner w) = 0" "\<not> lg_fenced (se_ledger (w_owner w))"
proof -
  obtain ledger where new: "ledger_new (ic_lease credentials) MAX_RETAINED_INPUT_RECEIPTS = Inr ledger"
    and o_s: "se_ledger (w_owner w) = ledger" "se_receipts (w_owner w) = replicate MAX_RETAINED_INPUT_RECEIPTS None"
      "se_receipt_cursor (w_owner w) = 0" "se_keys (w_owner w) = replicate 256 False"
      "se_buttons (w_owner w) = replicate 5 False" "se_wheel (w_owner w) = None"
      "se_lease (w_owner w) = ic_lease credentials" "w_calls w = []"
    using assms
    by (auto simp: open_session_def from_shared_authority_def Let_def split: prod.splits sum.splits if_splits)
  have "accounted w" by (simp add: accounted_def held_ok_def o_s may_hold_def)
  moreover have "ledger_at 0 ledger"
    using implements_new [OF new] by (auto simp: ledger_at_def)
  then have "idle (w_owner w)"
    using new by (auto simp: idle_def receipts_agree_def o_s ledger_new_def split: if_splits)
  ultimately show "owner_ok w" by (simp add: owner_ok_def)
  show "w_calls w = []" by (rule o_s)
  show "consumed (w_owner w) = 0" "\<not> lg_fenced (se_ledger (w_owner w))"
    using new by (auto simp: consumed_def o_s ledger_new_def split: if_splits)
qed

text \<open>The sequence numbers of the reliable actions a run takes to the native boundary.\<close>

fun run_consumes :: "'x backend \<Rightarrow> 'x session_op list \<Rightarrow> 'x world \<Rightarrow> u64 list" where
  "run_consumes b [] w = []"
| "run_consumes b (x # xs) w = step_consumes x w @ run_consumes b xs (session_step b x w)"

lemma session_run_proceeds:
  "owner_ok w \<Longrightarrow> list_all session_op_valid xs \<Longrightarrow>
     proceeds (length (run_consumes b xs w)) w (fold (session_step b) xs w)"
proof (induction xs arbitrary: w)
  case (Cons x xs)
  then have "proceeds (length (step_consumes x w)) w (session_step b x w)"
    by (simp add: session_step_proceeds)
  from proceeds_trans [OF this Cons.IH [OF proceeds_ok [OF this]]] show ?case using Cons.prems by simp
qed (simp add: proceeds_refl)

lemma step_consumes_number:
  "owner_ok w \<Longrightarrow> session_op_valid x \<Longrightarrow>
     step_consumes x w = map of_nat [consumed (w_owner w)..<consumed (w_owner w) + length (step_consumes x w)]"
proof (cases x)
  case (SDispatch request)
  assume "owner_ok w" "session_op_valid x"
  then have "admitted request w \<Longrightarrow> consumed (w_owner w) = unat (ir_sequence request)"
    using admitted_step [of w request] by (simp add: SDispatch)
  then show ?thesis by (simp add: SDispatch)
qed simp_all

lemma run_consumes_numbers:
  "owner_ok w \<Longrightarrow> list_all session_op_valid xs \<Longrightarrow>
     \<exists>n. run_consumes b xs w = map of_nat [consumed (w_owner w)..<consumed (w_owner w) + n]
       \<and> consumed (w_owner w) + n \<le> 2 ^ 64"
proof (induction xs arbitrary: w)
  case (Cons x xs)
  let ?w = "session_step b x w" and ?k = "length (step_consumes x w)"
  have p: "proceeds ?k w ?w" using Cons.prems by (simp add: session_step_proceeds)
  then obtain n where rest: "run_consumes b xs ?w = map of_nat [consumed (w_owner ?w)..<consumed (w_owner ?w) + n]"
    and bound: "consumed (w_owner ?w) + n \<le> 2 ^ 64"
    using Cons.IH [of ?w] Cons.prems(2) proceeds_ok by auto
  have later: "consumed (w_owner ?w) = consumed (w_owner w) + ?k" using p by (simp add: proceeds_def)
  have "step_consumes x w = map of_nat [consumed (w_owner w)..<consumed (w_owner w) + ?k]"
    using Cons.prems by (intro step_consumes_number) simp_all
  then have "run_consumes b (x # xs) w = map of_nat ([consumed (w_owner w)..<consumed (w_owner w) + ?k]
      @ [consumed (w_owner w) + ?k..<consumed (w_owner w) + ?k + n])"
    unfolding map_append using rest later by simp
  then have "run_consumes b (x # xs) w = map of_nat [consumed (w_owner w)..<consumed (w_owner w) + (?k + n)]"
    unfolding upt_add_eq_append [of "consumed (w_owner w)" "consumed (w_owner w) + ?k" n, OF le_add1, symmetric]
    by (simp only: add.assoc)
  then show ?case using bound later by (intro exI [of _ "?k + n"]) simp
qed (use consumed_bound in \<open>auto intro: exI [of _ 0]\<close>)

section \<open>Replays\<close>

lemma receipt_place:
  assumes idle: "idle o_s" and i: "i < MAX_RETAINED_INPUT_RECEIPTS" "se_receipts o_s ! i = Some receipt"
  shows "i = unat (rc_sequence receipt) mod MAX_RETAINED_INPUT_RECEIPTS"
proof -
  let ?w = "MAX_RETAINED_INPUT_RECEIPTS" and ?g = "se_ledger o_s"
  obtain a where a: "implements ?g a" using idle by (auto simp: idle_def ledger_at_def)
  have cap: "lg_receipt_capacity ?g = ?w" using idle by (simp add: idle_def receipts_agree_def)
  have small: "length (ol_outcomes a) \<le> 2 ^ 64" using implements_small [OF a] by (simp add: log_next_def split: if_splits)
  have "lg_receipts ?g ! i = Some (ledger_receipt receipt)"
    using idle i by (simp add: idle_def receipts_agree_def)
  then have "ring_slot ?w (ol_outcomes a) i = Some (ledger_receipt receipt)"
    using a i(1) by (simp add: implements_def cap)
  then obtain j where j: "latest_in_slot ?w (length (ol_outcomes a)) i = Some j" "rc_sequence receipt = of_nat j"
    by (auto simp: ring_slot_def ledger_receipt_def)
  have w: "0 < ?w" by (simp add: MAX_RETAINED_INPUT_RECEIPTS_def)
  then have "j < length (ol_outcomes a)" "j mod ?w = i" using j(1) by (simp_all add: latest_in_slot_iff)
  moreover from this have "unat (rc_sequence receipt) = j" using small by (simp add: j(2) unat_of_nat_less)
  ultimately show ?thesis by simp
qed

lemma retained_receiptI:
  assumes idle: "idle o_s"
    and i: "i < MAX_RETAINED_INPUT_RECEIPTS" "se_receipts o_s ! i = Some receipt" and q: "rc_sequence receipt = q"
  shows "retained_receipt q o_s = Some receipt"
  unfolding retained_receipt_def
proof (rule find_unique)
  have len: "length (se_receipts o_s) = MAX_RETAINED_INPUT_RECEIPTS" using idle by (simp add: idle_def receipts_agree_def)
  then show "receipt \<in> set (flatten (se_receipts o_s))" using i by (auto simp: in_set_conv_nth intro!: exI [of _ i])
  show "rc_sequence receipt = q" by (rule q)
  fix r assume "r \<in> set (flatten (se_receipts o_s))" and r: "rc_sequence r = q"
  then obtain j where j: "j < MAX_RETAINED_INPUT_RECEIPTS" "se_receipts o_s ! j = Some r"
    using len by (auto simp: in_set_conv_nth)
  have "j = i" using receipt_place [OF idle j] receipt_place [OF idle i] r q by simp
  then show "r = receipt" using i(2) j(2) by simp
qed

lemma admit_completed:
  assumes idle: "idle o_s" and q: "unat q < consumed o_s" "consumed o_s \<le> unat q + MAX_RETAINED_INPUT_RECEIPTS"
  shows "\<exists>outcome. admit (se_lease o_s) q (se_ledger o_s) = (Inr (Completed outcome), se_ledger o_s)"
proof -
  let ?g = "se_ledger o_s"
  obtain n where n: "ledger_at n ?g" using idle by (auto simp: idle_def)
  then obtain a where a: "implements ?g a" "\<not> ol_pending a" "length (ol_outcomes a) = consumed o_s"
    using ledger_at_consumed [OF n] by (auto simp: ledger_at_def)
  have cap: "lg_receipt_capacity ?g = MAX_RETAINED_INPUT_RECEIPTS" and lease: "se_lease o_s = lg_lease ?g"
    using idle by (simp_all add: idle_def receipts_agree_def)
  have "lg_pending ?g = None" using a(1,2) by (auto simp: implements_def split: option.splits)
  then show ?thesis
    using q a(3) by (simp add: admit_def check_lease_def lease retained_eq [OF a(1)] cap)
qed

text \<open>The place of a receipt in the ring after an admitted request.\<close>

lemma admitted_receipt:
  assumes ok: "owner_ok w" "admitted request w"
    and run: "dispatch b request w = (Inr (DispatchCompleted receipt), w')"
  shows "se_receipts (w_owner w') ! (unat (ir_sequence request) mod MAX_RETAINED_INPUT_RECEIPTS) = Some receipt
    \<and> rc_sequence receipt = ir_sequence request"
proof -
  let ?w = "admit_world request w"
  have idle: "idle (w_owner w)" using ok(1) by (simp add: owner_ok_def)
  obtain a :: outcome_log where a: "unat (ir_sequence request) = length (ol_outcomes a)"
    "ledger_at (length (ol_outcomes a)) (se_ledger (w_owner w))" "se_wheel (w_owner ?w) = None"
    using admitted_ledger [OF idle ok(2)] by blast
  have run': "run_attempt b request False ?w = (Inr receipt, w')"
    using run by (cases "run_attempt b request False ?w"; cases "fst (run_attempt b request False ?w)")
      (simp_all add: dispatch_admitted [OF ok(2)] dispatch_attempt_def)
  have "se_wheel (w_owner ?w) = None \<or> lg_fenced (se_ledger (w_owner ?w))" using a(3) by simp
  then show ?thesis
  proof (cases rule: run_attempt_cases [where b = b and request = request and pointer = False])
    case (1 s new receipt')
    then have "receipt' = receipt" using run' by simp
    moreover have "se_receipts (w_owner s) = se_receipts (w_owner w)" "se_receipt_cursor (w_owner s) = se_receipt_cursor (w_owner w)"
      using 1(4) by (simp_all add: same_frame_def admit_world_def)
    moreover have "se_receipt_cursor (w_owner w) = unat (ir_sequence request) mod MAX_RETAINED_INPUT_RECEIPTS"
      using idle_cursor [OF idle] ledger_at_consumed [OF a(2)] a(1) by simp
    moreover have "length (se_receipts (w_owner w)) = MAX_RETAINED_INPUT_RECEIPTS"
      using idle by (simp add: idle_def receipts_agree_def)
    ultimately show ?thesis
      using 1(1,6) run' by (simp add: record_receipt_False world_of_def truthful_def MAX_RETAINED_INPUT_RECEIPTS_def)
  qed
qed

section \<open>Applied reconciliation\<close>

lemma reconciliation_run_reports: "is_some (se_reconciliation (w_owner (snd (reconciliation_run b request w))))"
  unfolding reconciliation_run_def
  by (intro reporting.try_keeps reporting.clocked_reconciliation_keeps reporting.reconcile_all_keeps missing_releases_plain)
    (simp_all add: begin_reconciliation_def)

lemma reconcile_applied:
  assumes "reconcile_held b request w = (Inr report, w')" "re_outcome report = RecApplied"
  shows "\<exists>w1. reconciliation_run b request w = (Inr (), w1) \<and> w' = update_report (\<lambda>r. r\<lparr>re_outcome := RecApplied\<rparr>) w1"
proof (cases rule: reconcile_held_cases [of b request w])
  case ignored
  then show ?thesis using assms by (simp add: ignored_report_def)
next
  case gap
  then show ?thesis using assms by auto
next
  case (run r w1)
  obtain old where old: "se_reconciliation (w_owner w1) = Some old"
    using reconciliation_run_reports [of b request w] run(1) by (auto simp: is_some_iff)
  show ?thesis
  proof (cases r)
    case (Inr u)
    then show ?thesis using run assms(1) by (simp add: Let_def)
  next
    case (Inl e)
    then show ?thesis
      using run(3) assms old by (cases e) (auto simp: Let_def update_report_def split: if_splits)
  qed
qed

lemma missing_releases_eq:
  "missing_releases held o_s =
     map (\<lambda>key. OKey key Release)
       (concat (map (\<lambda>u. case physical_key_new (of_nat u) of None \<Rightarrow> []
          | Some key \<Rightarrow> if se_keys o_s ! u \<and> \<not> held_key held key then [key] else []) [0..<256]))
     @ map (\<lambda>button. OButton button False)
       (filter (\<lambda>button. se_buttons o_s ! (button_code button - 1) \<and> \<not> held_button held button) all_buttons)"
proof -
  have "concat (map (\<lambda>u. case physical_key_new (of_nat u) of None \<Rightarrow> []
       | Some key \<Rightarrow> if se_keys o_s ! u \<and> \<not> held_key held key then [OKey key Release] else []) us)
    = map (\<lambda>key. OKey key Release) (concat (map (\<lambda>u. case physical_key_new (of_nat u) of None \<Rightarrow> []
          | Some key \<Rightarrow> if se_keys o_s ! u \<and> \<not> held_key held key then [key] else []) us))" for us
    by (induction us) (auto split: option.split)
  moreover have "concat (map (\<lambda>button. if P button then [OButton button False] else []) bs)
    = map (\<lambda>button. OButton button False) (filter P bs)" for P bs
    by (induction bs) auto
  ultimately show ?thesis unfolding missing_releases_def by simp
qed

lemma missing_key_iff:
  "key \<in> set (concat (map (\<lambda>u. case physical_key_new (of_nat u) of None \<Rightarrow> []
      | Some key \<Rightarrow> if se_keys o_s ! u \<and> \<not> held_key held key then [key] else []) [0..<256]))
    \<longleftrightarrow> valid_key key \<and> se_keys o_s ! unat (usage key) \<and> \<not> held_key held key"
proof
  assume "key \<in> set (concat (map (\<lambda>u. case physical_key_new (of_nat u) of None \<Rightarrow> []
      | Some key \<Rightarrow> if se_keys o_s ! u \<and> \<not> held_key held key then [key] else []) [0..<256]))"
  then obtain u where u: "u < 256" "physical_key_new (of_nat u) = Some key" "se_keys o_s ! u" "\<not> held_key held key"
    by (auto split: option.splits if_splits)
  moreover have "unat (usage key) = u" using u(1,2) by (auto simp: physical_key_new_Some unat_of_nat_less)
  moreover have "valid_key key" using u(2) by (auto simp: valid_key_def physical_key_new_Some)
  ultimately show "valid_key key \<and> se_keys o_s ! unat (usage key) \<and> \<not> held_key held key" by simp
next
  assume key: "valid_key key \<and> se_keys o_s ! unat (usage key) \<and> \<not> held_key held key"
  then have "unat (usage key) < 256" "physical_key_new (of_nat (unat (usage key))) = Some key"
    using valid_key_usage [of key] by (auto simp: valid_key_def)
  then show "key \<in> set (concat (map (\<lambda>u. case physical_key_new (of_nat u) of None \<Rightarrow> []
      | Some key \<Rightarrow> if se_keys o_s ! u \<and> \<not> held_key held key then [key] else []) [0..<256]))"
    using key by (auto intro!: bexI [of _ "unat (usage key)"])
qed

lemma missing_releases_flags:
  fixes o_s :: InputSession and held :: HeldState
  assumes "held_ok o_s"
  defines "o' \<equiv> fold (\<lambda>op. track op False) (missing_releases held o_s) o_s"
  shows "valid_key key \<Longrightarrow> se_keys o' ! unat (usage key) \<longleftrightarrow> se_keys o_s ! unat (usage key) \<and> held_key held key"
    and "se_buttons o' ! (button_code button - 1) \<longleftrightarrow> se_buttons o_s ! (button_code button - 1) \<and> held_button held button"
proof -
  let ?keys = "concat (map (\<lambda>u. case physical_key_new (of_nat u) of None \<Rightarrow> []
      | Some key \<Rightarrow> if se_keys o_s ! u \<and> \<not> held_key held key then [key] else []) [0..<256])"
  let ?buttons = "filter (\<lambda>button. se_buttons o_s ! (button_code button - 1) \<and> \<not> held_button held button) all_buttons"
  have len: "length (se_keys o_s) = 256" "length (se_buttons o_s) = 5" using assms(1) by (simp_all add: held_ok_def)
  have slots: "list_all valid_key ?keys" unfolding list_all_iff using missing_key_iff by blast
  have keys: "se_keys o' = fold (\<lambda>key ks. ks[unat (usage key) := False]) ?keys (se_keys o_s)"
    and buttons: "se_buttons o' = fold (\<lambda>button bs. bs[button_code button - 1 := False]) ?buttons (se_buttons o_s)"
    unfolding o'_def missing_releases_eq fold_append o_apply release_buttons_flags release_keys_flags by simp_all
  show "valid_key key \<Longrightarrow> se_keys o' ! unat (usage key) \<longleftrightarrow> se_keys o_s ! unat (usage key) \<and> held_key held key"
    unfolding keys using key_array.get_puts [OF len(1) slots, of key False] missing_key_iff [of key o_s held] by auto
  have "button \<in> set all_buttons" by (cases button) (simp_all add: all_buttons_def)
  then show "se_buttons o' ! (button_code button - 1) \<longleftrightarrow> se_buttons o_s ! (button_code button - 1) \<and> held_button held button"
    unfolding buttons using button_array.get_puts [OF len(2), where j = button and v = False and ks = ?buttons]
    by (auto simp: list_all_iff)
qed

section \<open>Confirming the release of a suspended owner\<close>

text \<open>
  What the maintenance of an owner contributes to the authority. A confirmed release is reported by
  the native owner alone: the documentation of \<open>confirm_suspension_release\<close> reserves it to the owner
  that released everything, and \<open>maintain\<close> is its only caller. So neither the sink nor another thread
  turns an authority without a confirmed release into one with it; they may change everything else.
\<close>

definition released :: "'x shared \<Rightarrow> bool" where
  "released sh \<longleftrightarrow> is_some_and su_released (sa_suspension (sh_authority sh))"

definition only_owner_confirms :: "'x backend \<Rightarrow> bool" where
  "only_owner_confirms b \<longleftrightarrow> (\<forall>op sh. \<not> released sh \<longrightarrow>
     \<not> released (snd (be_prepare b op sh)) \<and> \<not> released (snd (be_submit b op sh))
     \<and> \<not> released (be_cancel_prepared b sh) \<and> \<not> released (be_lock b sh))"

definition release_confirmed :: "'x world \<Rightarrow> bool" where
  "release_confirmed w \<longleftrightarrow> released (w_shared w)"

lemma release_one_unconfirmed:
  "only_owner_confirms b \<Longrightarrow> \<not> release_confirmed w \<Longrightarrow> \<not> release_confirmed (snd (release_one b op w))"
  by (auto simp: release_one_def submit_release_def release_confirmed_def only_owner_confirms_def Let_def
      split: option.split sum.split prod.split)
    (metis snd_conv)+

lemma release_all_unconfirmed:
  "only_owner_confirms b \<Longrightarrow> \<not> release_confirmed w \<Longrightarrow> \<not> release_confirmed (snd (release_all b ops n w))"
proof (induction ops arbitrary: w n)
  case (Cons op ops)
  obtain r w1 where r: "release_one b op w = (r, w1)" by fastforce
  have "\<not> release_confirmed w1" using release_one_unconfirmed [OF Cons.prems, of op] r by simp
  then show ?case using Cons r by (cases r) auto
qed simp

lemma release_wheel_unconfirmed:
  "only_owner_confirms b \<Longrightarrow> \<not> release_confirmed w \<Longrightarrow> \<not> release_confirmed (snd (release_wheel b w))"
  using release_one_unconfirmed [of b w]
  by (auto simp: release_wheel_def cancel_prepared_def release_confirmed_def only_owner_confirms_def split: option.split)

lemma release_held_unconfirmed:
  assumes "only_owner_confirms b" "\<not> release_confirmed w"
  shows "\<not> release_confirmed (snd (release_held b w))"
  unfolding release_held_def
  by (intro try_then_keeps [where P = "\<lambda>w. \<not> release_confirmed w"])
    (simp_all add: release_wheel_unconfirmed [OF assms] release_all_unconfirmed [OF assms(1)])

lemma control_status_leaves: "snd (control_status now a) \<in> {a, lapse_passed_view (serialized_time now a) a}"
  by (simp add: control_status_def need_def Let_def try_then_def split: sum.split)

lemma control_status_unconfirmed:
  assumes "\<not> is_some_and su_released (sa_suspension a)"
  shows "\<not> is_some_and su_released (sa_suspension (snd (control_status now a)))"
proof -
  have "\<not> is_some_and su_released (sa_suspension (lapse_passed_view t a))" for t
    using assms by (simp add: lapse_passed_view_def lapse_view_def Let_def split: option.split)
  then show ?thesis using assms control_status_leaves [of now a] by auto
qed

lemma owner_status_unconfirmed:
  assumes "only_owner_confirms b" "\<not> release_confirmed w"
  shows "\<not> release_confirmed (snd (owner_with_time b now control_status w))"
proof -
  have "\<not> released (be_lock b (w_shared w))"
    using assms by (simp add: only_owner_confirms_def release_confirmed_def)
  then show ?thesis
    using assms(2) control_status_unconfirmed [of "sh_authority (be_lock b (w_shared w))"]
    by (auto simp: release_confirmed_def released_def owner_with_time_def monitor_with_time_def monitor_with_def Let_def
        revoke_flag_def split: prod.splits) (metis snd_conv)+
qed

lemma revoke_unconfirmed: "release_confirmed (revoke w) \<longleftrightarrow> release_confirmed w"
  by (simp add: release_confirmed_def released_def revoke_def revoke_flag_def)

lemma settle_unconfirmed:
  "only_owner_confirms b \<Longrightarrow> \<not> release_confirmed w \<Longrightarrow> \<not> release_confirmed (snd (settle b w))"
  using release_held_unconfirmed [of b "revoke w"] by (simp add: settle_def cleanup_def revoke_unconfirmed)

end
