(* ===== verification/Input_Guarantees.thy ===== *)
theory Input_Guarantees
  imports Input_Owner
begin

text \<open>
  The guarantees of the input owner, for every backend, every sequence of its operations and
  every interleaving with other owners of the shared authority, with a concrete session on
  which each of them applies.
\<close>

section \<open>An example\<close>

text \<open>A backend that accepts everything, alone with its authority, at a fixed time.\<close>

definition example_backend :: "unit backend" where
  "example_backend = \<lparr>
     be_prepare = (\<lambda>_ sh. (Some (Inr ()), sh)),
     be_revalidate = (\<lambda>_ sh. (Some (Inr ()), sh)),
     be_submit_until = (\<lambda>_ _ sh. (Some Submitted, sh)),
     be_submit = (\<lambda>_ sh. (Some Submitted, sh)),
     be_cancel_prepared = id,
     be_repeat_requires_pair = (\<lambda>_. False),
     be_line_scroll_requires_pairs = (\<lambda>_. False),
     be_clock = (\<lambda>sh. (millis 100, sh)),
     be_lock = id\<rparr>"

definition example_credentials :: InputCredentials where
  "example_credentials = \<lparr>ic_session = Opaque 5, ic_lease = Opaque 1, ic_ticket = Opaque 7,
     ic_view = \<lparr>iv_geometry = Generation 1, iv_viewport = Generation 1, iv_configuration = Generation 1,
       iv_recovery = Generation 1\<rparr>\<rparr>"

definition example_shared :: "unit shared" where
  "example_shared = \<lparr>sh_authority = example_session, sh_poisoned = False, sh_revoked = False, sh_env = ()\<rparr>"

definition example_bounds :: InputBounds where
  "example_bounds = \<lparr>ib_origin = \<lparr>dp_x = 0, dp_y = 0\<rparr>, ib_width = 100, ib_height = 100\<rparr>"

definition example_world :: "unit world" where
  "example_world = the (open_session example_backend 1 example_credentials example_bounds (Capabilities 0xff)
     (millis 0) example_shared)"

lemmas session_evals =
  open_session_def from_shared_authority_def example_backend_def example_credentials_def example_shared_def
  example_session_eq authorize_submission_def find_ticket_def serialized_time_def claim_native_owner_def
  lease_id_def ledger_new_def authority_evals

lemma example_open:
  "open_session example_backend 1 example_credentials example_bounds (Capabilities 0xff)
     (millis 0) example_shared = Some example_world"
proof -
  have "open_session example_backend 1 example_credentials example_bounds (Capabilities 0xff)
     (millis 0) example_shared \<noteq> None"
    by (simp add: session_evals MAX_RETAINED_INPUT_RECEIPTS_def)
  then show ?thesis by (simp add: example_world_def)
qed

lemma example_world_eq:
  "example_world = \<lparr>w_owner = \<lparr>
       se_monitor = \<lparr>im_lease = Opaque 1, im_native_owner = 1\<rparr>, se_session = Opaque 5, se_lease = Opaque 1,
       se_view = ic_view example_credentials, se_bounds = example_bounds, se_capabilities = Capabilities 0xff,
       se_ledger = \<lparr>lg_lease = Opaque 1, lg_next_sequence = Some 0, lg_pending = None,
         lg_receipts = replicate MAX_RETAINED_INPUT_RECEIPTS None, lg_receipt_capacity = MAX_RETAINED_INPUT_RECEIPTS,
         lg_receipt_cursor = 0, lg_fenced = False\<rparr>,
       se_receipts = replicate MAX_RETAINED_INPUT_RECEIPTS None, se_receipt_cursor = 0,
       se_keys = replicate 256 False, se_buttons = replicate 5 False, se_wheel = None, se_pointer_floor = None,
       se_mode = AbsoluteMode, se_mode_epoch = 0, se_cumulative = (0, 0), se_reconciliation_floor = None,
       se_reconciliation = None, se_clock = millis 0, se_control_taken = False\<rparr>,
     w_shared = example_shared\<lparr>sh_authority := example_session\<lparr>sa_native_owner := Some 1, sa_last_checked := Some (millis 0)\<rparr>\<rparr>,
     w_calls = []\<rparr>"
proof -
  have "MAX_RETAINED_INPUT_RECEIPTS \<noteq> 0" by (simp add: MAX_RETAINED_INPUT_RECEIPTS_def)
  then show ?thesis unfolding example_world_def by (simp add: session_evals)
qed

definition example_press :: InputRequest where
  "example_press = \<lparr>ir_credentials = example_credentials, ir_sequence = 0, ir_event = EvKey (PhysicalKey 4) Press\<rparr>"

definition example_pressed :: "unit world" where
  "example_pressed = snd (dispatch example_backend example_press example_world)"

lemma example_valid: "session_op_valid (SDispatch example_press)"
  by (simp add: example_press_def valid_key_def physical_key_new_def)

definition example_receipt :: Receipt where
  "example_receipt = \<lparr>rc_sequence = 0, rc_outcome = SubmittedToOs, rc_submitted_operations = 1, rc_refusal = None\<rparr>"

lemmas dispatch_evals =
  dispatch_def dispatch_attempt_def run_attempt_def execute_def sample_clock_def check_at_boundary_def check_active_def
  owner_with_time_def monitor_with_time_def monitor_with_def follow_recovery_def submission_deadline_def
  is_native_owner_def map_refusal_def lift_refusal_def key_transition_def require_def cap_contains_def one_def
  submit_authorized_def track_def cancel_prepared_def finish_def attempt_receipt_def world_of_def record_receipt_def
  record_outcome_def completes_fully_def admit_def check_lease_def retained_def is_fenced_def

lemma example_dispatch:
  "dispatch example_backend example_press example_world = (Inr (DispatchCompleted example_receipt), example_pressed)"
  "TKey (PhysicalKey 4) \<in> may_hold (w_calls example_pressed)"
  "w_calls example_pressed \<noteq> []"
  unfolding example_pressed_def
  by (simp_all add: dispatch_evals session_evals example_world_eq example_press_def example_receipt_def may_hold_def
      may_hold_after_def MAX_RETAINED_INPUT_RECEIPTS_def)

lemma example_pressed_eq:
  "w_owner example_pressed = (w_owner example_world)\<lparr>
     se_ledger := (se_ledger (w_owner example_world))\<lparr>lg_next_sequence := Some 1,
       lg_receipts := (replicate MAX_RETAINED_INPUT_RECEIPTS None)[0 := Some \<lparr>lr_sequence = 0, lr_outcome = SubmittedToOs\<rparr>],
       lg_receipt_cursor := 1\<rparr>,
     se_receipts := (replicate MAX_RETAINED_INPUT_RECEIPTS None)[0 := Some example_receipt],
     se_receipt_cursor := 1, se_keys := (replicate 256 False)[4 := True], se_clock := millis 100\<rparr>"
  "w_shared example_pressed = example_shared\<lparr>sh_authority :=
     example_session\<lparr>sa_native_owner := Some 1, sa_last_checked := Some (millis 100)\<rparr>\<rparr>"
  "map nc_operation (w_calls example_pressed) = [OKey (PhysicalKey 4) Press]"
  unfolding example_pressed_def
  by (simp_all add: dispatch_evals session_evals example_world_eq example_press_def example_receipt_def
      MAX_RETAINED_INPUT_RECEIPTS_def)

lemma example_call: "c \<in> set (w_calls example_pressed) \<Longrightarrow> nc_operation c = OKey (PhysicalKey 4) Press"
proof -
  assume "c \<in> set (w_calls example_pressed)"
  then have "nc_operation c \<in> set (map nc_operation (w_calls example_pressed))" by simp
  then show ?thesis unfolding example_pressed_eq(3) by simp
qed

lemma example_accepts: "accepts_releases example_backend"
  by (simp add: accepts_releases_def example_backend_def)

lemma example_reserved: "only_owner_confirms example_backend"
  by (simp add: only_owner_confirms_def example_backend_def)

lemma example_ops: "list_all session_op_valid [SDispatch example_press]"
  using example_valid by simp

lemma example_fold: "example_pressed = fold (session_step example_backend) [SDispatch example_press] example_world"
  by (simp add: example_pressed_def)

lemma example_ok: "owner_ok example_pressed"
  unfolding example_fold
  by (rule proceeds_ok [OF session_run_proceeds [OF open_session_ok(1) [OF example_open] example_ops]])

lemma example_admitted: "admitted example_press example_world" "\<not> admitted example_press example_pressed"
proof -
  show "admitted example_press example_world"
    by (simp add: admitted_def example_press_def example_world_eq example_credentials_def
        dispatch_evals MAX_RETAINED_INPUT_RECEIPTS_def)
  have "consumed (w_owner example_pressed) = 1" "ir_sequence example_press = 0"
    by (simp_all add: consumed_def example_pressed_eq example_press_def)
  then show "\<not> admitted example_press example_pressed"
    using admitted_step [OF example_ok, of example_press] example_valid by auto
qed

lemma example_held_ok: "held_ok (w_owner example_pressed)"
  using example_ok by (simp add: owner_ok_def accounted_def)

lemma example_cleanup:
  "\<exists>report w2. cleanup example_backend example_pressed = (Inr report, w2) \<and> cl_remaining report = 0"
  using release_held_accepted [OF example_accepts, of "revoke example_pressed"] example_held_ok
  unfolding cleanup_def by (simp add: held_ok_def) (metis prod.collapse)

definition example_snapshot :: HeldStateRequest where
  "example_snapshot = \<lparr>hr_session = Opaque 5, hr_lease = Opaque 1, hr_sequence = 0, hr_next_action = 1,
     hr_held = held_empty\<rparr>"

lemma example_missing:
  assumes "se_keys o_s = (replicate 256 False)[4 := True]" "se_buttons o_s = replicate 5 False"
  shows "missing_releases held_empty o_s = [OKey (PhysicalKey 4) Release]"
    and "held_key_operations o_s = [OKey (PhysicalKey 4) Release]"
proof -
  show "missing_releases held_empty o_s = [OKey (PhysicalKey 4) Release]"
    unfolding missing_releases_def assms by code_simp
  show "held_key_operations o_s = [OKey (PhysicalKey 4) Release]"
    unfolding held_key_operations_def assms by code_simp
qed

lemma example_pressed_flags:
  "se_keys (w_owner example_pressed) = (replicate 256 False)[4 := True]"
  "se_buttons (w_owner example_pressed) = replicate 5 False"
  by (simp_all add: example_pressed_eq example_world_eq)

lemmas release_evals =
  reconcile_one_def reconcile_submit_def clocked_reconciliation_def check_reconciliation_def active_with_time_def
  has_live_control_def update_report_def submit_release_def release_held_def release_wheel_def release_one_def
  next_sequence_def pending_sequence_def

lemma example_reconciliation:
  "\<exists>report w2. reconcile_held example_backend example_snapshot example_pressed = (Inr report, w2)
     \<and> re_outcome report = RecApplied"
  by (simp add: reconcile_held_def example_snapshot_def example_missing release_evals dispatch_evals session_evals
      example_pressed_eq example_world_eq)

lemma replicate_update_same: "(replicate n x)[i := x] = replicate n x"
  by (cases "i < n") (simp_all add: list_eq_iff_nth_eq nth_list_update)

lemma example_maintain:
  "\<exists>r w2. maintain example_backend (millis 600) example_pressed = (r, w2) \<and> release_confirmed w2"
  by (simp add: maintain_def control_status_def need_def lapse_view_def clear_tickets_def MAX_VIEW_SUSPENSION_def
      release_confirmed_def released_def confirm_release_def monitor_confirm_suspension_release_def confirm_suspension_release_def
      held_count_def held_button_operations_def all_buttons_def replicate_update_same
      example_missing release_evals dispatch_evals session_evals example_pressed_eq example_world_eq)

lemma example_unconfirmed: "\<not> release_confirmed example_pressed"
  by (simp add: release_confirmed_def released_def example_pressed_eq example_shared_def example_session_eq)

section \<open>Properties\<close>

text \<open>C16. Nothing is lost track of. In every run of the owner, over every backend that may
  refuse, panic or leave a call's effect unknown, and under every interleaving with other
  owners, each key, button and wheel direction that the operating system may hold down
  because of the owner's calls has its flag set, so cleanup knows to release it.\<close>

theorem held_inputs_are_tracked:
  assumes "open_session b address credentials bounds capabilities now sh = Some w"
    and "list_all session_op_valid ops" and "t \<in> may_hold (w_calls (fold (session_step b) ops w))"
  shows "tracked (w_owner (fold (session_step b) ops w)) t"
  using session_run_proceeds [OF open_session_ok(1) [OF assms(1)] assms(2), of b] assms(3)
  by (simp add: proceeds_def owner_ok_def accounted_def)

theorem held_inputs_are_tracked_witness:
  "TKey (PhysicalKey 4) \<in> may_hold (w_calls example_pressed) \<and> tracked (w_owner example_pressed) (TKey (PhysicalKey 4))"
  using held_inputs_are_tracked [OF example_open, of "[SDispatch example_press]" "TKey (PhysicalKey 4)"]
    example_dispatch(2) example_valid by (simp add: example_pressed_def)

text \<open>C17. No unauthorized input. In every run, each native call is a release of a held input,
  or it was made under a ticket that was live for the owner's lease at the latest checked
  time of the authority the call was made with, with a deadline later than that time, for
  the lease and the native owner the session was opened with.\<close>

theorem native_calls_are_authorized:
  assumes "open_session b address credentials bounds capabilities now sh = Some w"
    and "list_all session_op_valid ops" and "c \<in> set (w_calls (fold (session_step b) ops w))"
  shows "is_release (nc_operation c)
    \<or> (\<exists>ticket at until. nc_until c = Some until \<and> at < until
         \<and> sa_last_checked (nc_authority c) = Some at
         \<and> submission_live (se_lease (w_owner w)) ticket at (nc_authority c)
         \<and> lease_id (nc_authority c) = Some (im_lease (se_monitor (w_owner w)))
         \<and> is_native_owner (im_native_owner (se_monitor (w_owner w))) (nc_authority c))"
proof -
  have "call_allowed (w_owner w) c"
    using session_run_proceeds [OF open_session_ok(1) [OF assms(1)] assms(2), of b] assms(3)
      open_session_ok(2) [OF assms(1)]
    by (auto simp: proceeds_def list_all_iff)
  then show ?thesis unfolding call_allowed_def authorized_call_def by blast
qed

theorem native_calls_are_authorized_witness:
  "\<exists>c \<in> set (w_calls example_pressed). \<not> is_release (nc_operation c)
     \<and> (\<exists>ticket at. submission_live (Opaque 1) ticket at (nc_authority c))"
proof -
  obtain c where c: "c \<in> set (w_calls example_pressed)"
    using example_dispatch(3) by (cases "w_calls example_pressed") auto
  moreover have "\<not> is_release (nc_operation c)" using example_call [OF c] by simp
  ultimately have "\<exists>ticket at. submission_live (se_lease (w_owner example_world)) ticket at (nc_authority c)"
    using native_calls_are_authorized [OF example_open example_ops, folded example_fold, of c] by auto
  then show ?thesis using c \<open>\<not> is_release (nc_operation c)\<close> by (auto simp: example_world_eq)
qed

text \<open>C18. At most once, in order. The reliable actions that a run takes to the native boundary
  are numbered 0, 1, 2, and so on without a gap, at most up to the last of the 2^64 numbers, so none
  is taken twice, whatever requests arrive; and a request that is neither the next action nor a newer pointer state makes no native
  call at all.\<close>

theorem actions_reach_the_boundary_in_order:
  assumes "open_session b address credentials bounds capabilities now sh = Some w"
    and "list_all session_op_valid ops"
  shows "(\<exists>n \<le> 2 ^ 64. run_consumes b ops w = map of_nat [0..<n]) \<and> distinct (run_consumes b ops w)
    \<and> (\<forall>request. \<not> admitted request (fold (session_step b) ops w) \<longrightarrow>
          \<not> newer_pointer request (fold (session_step b) ops w) \<longrightarrow>
          w_calls (snd (dispatch b request (fold (session_step b) ops w))) = w_calls (fold (session_step b) ops w))"
proof (intro conjI allI impI)
  show numbers: "\<exists>n \<le> 2 ^ 64. run_consumes b ops w = map of_nat [0..<n]"
    using run_consumes_numbers [OF open_session_ok(1) [OF assms(1)] assms(2), of b] open_session_ok(3) [OF assms(1)]
    by auto
  then show "distinct (run_consumes b ops w)" using distinct_numbers by metis
  fix request
  assume "\<not> admitted request (fold (session_step b) ops w)" "\<not> newer_pointer request (fold (session_step b) ops w)"
  then show "w_calls (snd (dispatch b request (fold (session_step b) ops w))) = w_calls (fold (session_step b) ops w)"
    using dispatch_refused [of request "fold (session_step b) ops w" b] by auto
qed

theorem actions_reach_the_boundary_in_order_witness:
  "run_consumes example_backend [SDispatch example_press, SDispatch example_press] example_world = [0]
   \<and> distinct (run_consumes example_backend [SDispatch example_press, SDispatch example_press] example_world)"
proof
  show "run_consumes example_backend [SDispatch example_press, SDispatch example_press] example_world = [0]"
    using example_admitted by (simp add: example_pressed_def [symmetric]) (simp add: example_press_def)
  show "distinct (run_consumes example_backend [SDispatch example_press, SDispatch example_press] example_world)"
    using actions_reach_the_boundary_in_order [OF example_open, of "[SDispatch example_press, SDispatch example_press]"]
      example_valid by simp
qed

text \<open>C19. Revocation is final. Once the ledger of an owner is fenced (revocation, suspension, a
  sequence gap, or any outcome that is not a full submission), every later native call of
  that owner is a release, and the fence stays.\<close>

theorem revoked_owner_only_releases:
  assumes "open_session b address credentials bounds capabilities now sh = Some w"
    and "list_all session_op_valid (before @ after)"
    and "w1 = fold (session_step b) before w" and "lg_fenced (se_ledger (w_owner w1))"
    and "w2 = fold (session_step b) after w1"
  shows "\<exists>new. w_calls w2 = w_calls w1 @ new \<and> list_all (\<lambda>c. is_release (nc_operation c)) new
    \<and> lg_fenced (se_ledger (w_owner w2))"
proof -
  have "owner_ok w1"
    using proceeds_ok [OF session_run_proceeds [OF open_session_ok(1) [OF assms(1)], of before b]] assms(2,3) by simp
  then have "proceeds (length (run_consumes b after w1)) w1 w2"
    using session_run_proceeds [of w1 after b] assms(2,5) by simp
  then show ?thesis using assms(4) by (auto simp: proceeds_def list_all_iff call_allowed_def)
qed

theorem revoked_owner_only_releases_witness:
  "\<exists>new. w_calls (snd (cleanup example_backend (revoke example_pressed))) = w_calls example_pressed @ new
     \<and> list_all (\<lambda>c. is_release (nc_operation c)) new"
  using revoked_owner_only_releases [OF example_open, of "[SDispatch example_press, SRevoke]" "[SCleanup]"
      "revoke example_pressed" "snd (cleanup example_backend (revoke example_pressed))"] example_valid
  by (simp add: example_pressed_def) blast

text \<open>C20. A clean report is true. When cleanup returns with nothing remaining, the operating
  system holds nothing down because of this owner's calls.\<close>

theorem clean_report_is_true:
  assumes "open_session b address credentials bounds capabilities now sh = Some w"
    and "list_all session_op_valid ops" and "w1 = fold (session_step b) ops w"
    and "cleanup b w1 = (Inr report, w2)" and "cl_remaining report = 0"
  shows "may_hold (w_calls w2) = {}"
proof (rule nothing_held)
  have ok: "owner_ok w1"
    using proceeds_ok [OF session_run_proceeds [OF open_session_ok(1) [OF assms(1)] assms(2), of b]] assms(3) by simp
  show "accounted w2"
    using proceeds_ok [OF cleanup_step [OF ok, of b]] assms(4) by (simp add: owner_ok_def)
  show "held_count (w_owner w2) = 0"
    using release_held_report [of b "revoke w1" report w2] assms(4,5) by (simp add: cleanup_def)
qed

theorem clean_report_is_true_witness:
  "\<exists>report w2. cleanup example_backend example_pressed = (Inr report, w2) \<and> cl_remaining report = 0
     \<and> may_hold (w_calls w2) = {}"
proof -
  obtain report w2 where run: "cleanup example_backend example_pressed = (Inr report, w2)" "cl_remaining report = 0"
    using example_cleanup by blast
  then show ?thesis
    using clean_report_is_true [OF example_open example_ops example_fold run] by blast
qed

text \<open>C21. Cleanup releases everything it can. With a backend that accepts releases, cleanup
  returns, reports nothing remaining, and the operating system holds nothing down because
  of this owner's calls, whatever the run before did.\<close>

theorem cleanup_releases_everything:
  assumes "open_session b address credentials bounds capabilities now sh = Some w"
    and "list_all session_op_valid ops" and "accepts_releases b"
  shows "\<exists>report w2. cleanup b (fold (session_step b) ops w) = (Inr report, w2)
    \<and> cl_remaining report = 0 \<and> may_hold (w_calls w2) = {}"
proof -
  let ?w = "fold (session_step b) ops w"
  have ok: "owner_ok ?w"
    using proceeds_ok [OF session_run_proceeds [OF open_session_ok(1) [OF assms(1)] assms(2), of b]] .
  then have "held_ok (w_owner (revoke ?w))" by (simp add: owner_ok_def accounted_def held_ok_def)
  then obtain report w2 where run: "cleanup b ?w = (Inr report, w2)" "cl_remaining report = 0"
    using release_held_accepted [OF assms(3), of "revoke ?w"] unfolding cleanup_def by (metis prod.collapse)
  moreover have "may_hold (w_calls w2) = {}"
  proof (rule nothing_held)
    show "accounted w2" using proceeds_ok [OF cleanup_step [OF ok, of b]] run(1) by (simp add: owner_ok_def)
    show "held_count (w_owner w2) = 0"
      using release_held_report [of b "revoke ?w" report w2] run by (simp add: cleanup_def)
  qed
  ultimately show ?thesis by blast
qed

theorem cleanup_releases_everything_witness:
  "TKey (PhysicalKey 4) \<in> may_hold (w_calls example_pressed)
   \<and> (\<exists>report w2. cleanup example_backend example_pressed = (Inr report, w2)
        \<and> cl_remaining report = 0 \<and> may_hold (w_calls w2) = {})"
  using cleanup_releases_everything [OF example_open, of "[SDispatch example_press]"] example_valid example_accepts
    example_dispatch(2)
  by (simp add: example_pressed_def)

lemma truthful_same_owner:
  "se_lease o1 = se_lease o2 \<Longrightarrow> se_monitor o1 = se_monitor o2 \<Longrightarrow>
     truthful o1 request new receipt = truthful o2 request new receipt"
  by (simp add: truthful_def authorized_call_def)

lemma attempt_reports:
  assumes "owner_ok w" "admitted request w \<or> newer_pointer request w"
    and "dispatch b request w = (Inr (DispatchCompleted receipt), w')"
  shows "\<exists>new. w_calls w' = w_calls w @ new \<and> truthful (w_owner w) request new receipt
    \<and> (completes_fully (rc_outcome receipt) \<or> (lg_fenced (se_ledger (w_owner w')) \<and> sh_revoked (w_shared w')))"
proof -
  obtain pointer w0 where w0: "dispatch b request w = dispatch_attempt b request pointer w0"
    "se_lease (w_owner w0) = se_lease (w_owner w)" "se_monitor (w_owner w0) = se_monitor (w_owner w)"
    "w_calls w0 = w_calls w" "se_wheel (w_owner w0) = None \<or> lg_fenced (se_ledger (w_owner w0))"
  proof (cases "admitted request w")
    case True
    have "idle (w_owner w)" using assms(1) by (simp add: owner_ok_def)
    then have "se_wheel (w_owner (admit_world request w)) = None" using admitted_ledger [OF _ True] by blast
    then show thesis
      by (intro that [of False "admit_world request w"]) (simp_all add: dispatch_admitted [OF True] admit_world_def)
  next
    case False
    then have new: "newer_pointer request w" using assms(2) by simp
    have "se_wheel (w_owner w) = None \<or> lg_fenced (se_ledger (w_owner w))"
      using assms(1) by (simp add: owner_ok_def idle_def)
    then show thesis
      by (intro that [of True "pointer_world request w"]) (simp_all add: dispatch_pointer [OF new] pointer_world_def)
  qed
  have run: "run_attempt b request pointer w0 = (Inr receipt, w')"
    using assms(3) by (cases "run_attempt b request pointer w0"; cases "fst (run_attempt b request pointer w0)")
      (simp_all add: w0(1) dispatch_attempt_def)
  from w0(5) show ?thesis
  proof (cases rule: run_attempt_cases [where b = b and request = request and pointer = pointer])
    case (1 s new receipt')
    then have r: "receipt' = receipt" and w': "w' = record_receipt receipt pointer (world_of s)" using run by simp_all
    have "completes_fully (rc_outcome receipt) \<or> (lg_fenced (se_ledger (w_owner w')) \<and> sh_revoked (w_shared w'))"
      by (simp add: w' record_receipt_def Let_def revoke_def revoke_flag_def)
    moreover have "truthful (w_owner w) request new receipt"
      using 1(6) truthful_same_owner [OF w0(2,3)] by (simp add: r)
    moreover have "w_calls w' = w_calls w @ new" using 1(5) w0(4) by (simp add: w' world_of_def)
    ultimately show ?thesis by blast
  qed
qed

text \<open>C22. Receipts tell the truth about the native calls. The calls behind a receipt are the
  beginning of a plan for the request, each one checked against the request's credentials,
  and all but the last were submitted. The counted operations are exactly the submitted
  calls. The outcome is unknown exactly when a call's effect is unknown, fully submitted
  only when the whole plan was submitted, applied locally only when there was nothing to
  call, partial only when some but not all is known to be submitted, and a refusal only
  when nothing was. Any outcome short of full success fences and revokes the owner.\<close>

theorem receipts_are_truthful:
  assumes "open_session b address credentials bounds capabilities now sh = Some w"
    and "list_all session_op_valid ops" and "w1 = fold (session_step b) ops w"
    and "admitted request w1 \<or> newer_pointer request w1"
    and "dispatch b request w1 = (Inr (DispatchCompleted receipt), w2)"
  shows "\<exists>new. w_calls w2 = w_calls w1 @ new \<and> truthful (w_owner w1) request new receipt
    \<and> (completes_fully (rc_outcome receipt) \<or> (lg_fenced (se_ledger (w_owner w2)) \<and> sh_revoked (w_shared w2)))"
  using attempt_reports [OF _ assms(4,5)]
    proceeds_ok [OF session_run_proceeds [OF open_session_ok(1) [OF assms(1)] assms(2), of b]] assms(3) by simp

theorem receipts_are_truthful_witness:
  "rc_outcome example_receipt = SubmittedToOs
   \<and> (\<exists>new. w_calls example_pressed = w_calls example_world @ new
        \<and> truthful (w_owner example_world) example_press new example_receipt)"
  using receipts_are_truthful [OF example_open, of "[]" example_world example_press example_receipt example_pressed]
    example_admitted(1) example_dispatch(1) by (auto simp: example_receipt_def)

text \<open>C23. A repeated request is answered from its receipt. After an action completed, a client
  that repeats it gets the same receipt back and causes no native call and no change of
  state, whatever happened in between, as long as fewer than 32 further actions were consumed.\<close>

theorem replay_returns_the_receipt:
  assumes "open_session b address credentials bounds capabilities now sh = Some w"
    and "list_all session_op_valid (before @ SDispatch request # after)"
    and "w1 = fold (session_step b) before w" and "admitted request w1"
    and "dispatch b request w1 = (Inr (DispatchCompleted receipt), w2)"
    and "w3 = fold (session_step b) after w2"
    and "length (run_consumes b after w2) < 32"
    and "ir_credentials again = ir_credentials request" and "ir_sequence again = ir_sequence request"
    and "\<not> is_pointer (ir_event again)"
  shows "dispatch b again w3 = (Inr (DispatchCompleted receipt), w3)"
proof -
  let ?q = "ir_sequence request" and ?i = "unat (ir_sequence request) mod MAX_RETAINED_INPUT_RECEIPTS"
  have w1: "owner_ok w1"
    using proceeds_ok [OF session_run_proceeds [OF open_session_ok(1) [OF assms(1)], of before b]] assms(2,3) by simp
  have step: "proceeds 1 w1 w2" "unat ?q = consumed (w_owner w1)"
    using admitted_step [OF w1 _ assms(4), of b] assms(2,5) by simp_all
  have slot: "se_receipts (w_owner w2) ! ?i = Some receipt" "rc_sequence receipt = ?q"
    using admitted_receipt [OF w1 assms(4,5)] by simp_all
  have later: "proceeds (length (run_consumes b after w2)) w2 w3"
    using session_run_proceeds [OF proceeds_ok [OF step(1)], of after b] assms(2,6) by simp
  have c: "consumed (w_owner w2) = Suc (unat ?q)" "consumed (w_owner w3) < unat ?q + 33"
    "consumed (w_owner w2) \<le> consumed (w_owner w3)"
    using step later assms(7) by (simp_all add: proceeds_def)
  have keep: "k mod MAX_RETAINED_INPUT_RECEIPTS \<noteq> ?i" if "consumed (w_owner w2) \<le> k" "k < consumed (w_owner w3)" for k
  proof
    assume "k mod MAX_RETAINED_INPUT_RECEIPTS = ?i"
    then have "MAX_RETAINED_INPUT_RECEIPTS dvd k - unat ?q" using that c by (simp add: mod_eq_dvd_iff_nat)
    then have "32 \<le> k - unat ?q" using that c by (intro dvd_imp_le) (simp_all add: MAX_RETAINED_INPUT_RECEIPTS_def)
    then show False using that c by simp
  qed
  then have "se_receipts (w_owner w3) ! ?i = Some receipt"
    using later slot(1) by (simp add: proceeds_def slots_kept_def)
  moreover have idle: "idle (w_owner w3)" using later by (simp add: proceeds_def owner_ok_def)
  ultimately have kept: "retained_receipt ?q (w_owner w3) = Some receipt"
    using slot(2) by (intro retained_receiptI) (simp_all add: MAX_RETAINED_INPUT_RECEIPTS_def)
  obtain outcome where "admit (se_lease (w_owner w3)) ?q (se_ledger (w_owner w3)) = (Inr (Completed outcome), se_ledger (w_owner w3))"
    using admit_completed [OF idle, of ?q] c by (auto simp: MAX_RETAINED_INPUT_RECEIPTS_def)
  moreover have "ic_session (ir_credentials again) = se_session (w_owner w3)" "ic_lease (ir_credentials again) = se_lease (w_owner w3)"
    using assms(4,8) step(1) later by (simp_all add: admitted_def proceeds_def)
  ultimately show ?thesis
    using assms(9,10) kept by (simp add: dispatch_def Let_def)
qed

theorem replay_returns_the_receipt_witness:
  "dispatch example_backend example_press (revoke example_pressed)
     = (Inr (DispatchCompleted example_receipt), revoke example_pressed)"
  using replay_returns_the_receipt [OF example_open, of "[]" example_press "[SRevoke]" example_world example_receipt
      example_pressed "revoke example_pressed" example_press]
    example_admitted(1) example_dispatch(1) example_valid
  by (simp add: example_press_def)

text \<open>C24. Reconciliation releases exactly what the client no longer holds. When it reports that
  it was applied, the calls it made are the releases of the tracked keys and buttons missing
  from the client's snapshot, all submitted, and afterwards a key or button is tracked
  exactly when it was tracked before and is in the snapshot.\<close>

theorem applied_reconciliation_is_exact:
  assumes "open_session b address credentials bounds capabilities now sh = Some w"
    and "list_all session_op_valid ops" and "w1 = fold (session_step b) ops w"
    and "reconcile_held b request w1 = (Inr report, w2)" and "re_outcome report = RecApplied"
  shows "(\<exists>new. w_calls w2 = w_calls w1 @ new
        \<and> map nc_operation new = missing_releases (hr_held request) (w_owner w1)
        \<and> list_all (\<lambda>c. nc_result c = Some Submitted) new)
    \<and> (\<forall>key. tracked (w_owner w2) (TKey key) \<longleftrightarrow> tracked (w_owner w1) (TKey key) \<and> held_key (hr_held request) key)
    \<and> (\<forall>button. tracked (w_owner w2) (TButton button) \<longleftrightarrow>
          tracked (w_owner w1) (TButton button) \<and> held_button (hr_held request) button)"
proof -
  let ?ops = "missing_releases (hr_held request) (w_owner w1)"
  have ok: "held_ok (w_owner w1)"
    using proceeds_ok [OF session_run_proceeds [OF open_session_ok(1) [OF assms(1)] assms(2), of b]] assms(3)
    by (simp add: owner_ok_def accounted_def)
  obtain w' where run: "reconciliation_run b request w1 = (Inr (), w')"
    and w2: "w2 = update_report (\<lambda>r. r\<lparr>re_outcome := RecApplied\<rparr>) w'"
    using reconcile_applied [OF assms(4,5)] by blast
  obtain u where u: "clocked_reconciliation b (begin_reconciliation request w1) = (Inr (), u)"
    "reconcile_all b ?ops u = (Inr (), w')"
    using run by (auto simp: reconciliation_run_def dest!: try_then_InrD)
  have q: "quiet (begin_reconciliation request w1) u"
    using clocked_reconciliation_quiet [of "begin_reconciliation request w1" b] u(1) by simp
  have start: "w_calls u = w_calls w1" "same_held (w_owner u) (w_owner w1)"
    using quiet_owner(1-4) [OF q] by (simp_all add: begin_reconciliation_def same_held_def)
  obtain new where new: "w_calls w' = w_calls u @ new" "map nc_operation new = ?ops"
    "\<forall>c \<in> set new. nc_result c = Some Submitted" "same_held (w_owner w') (fold (\<lambda>op. track op False) ?ops (w_owner u))"
    using reconcile_all_ok [OF u(2)] by blast
  have "same_held (w_owner w2) (fold (\<lambda>op. track op False) ?ops (w_owner w1))"
    using same_held_trans [OF new(4) same_held_tracks [OF start(2)]] by (simp add: w2 same_held_def)
  then have "(\<forall>key. tracked (w_owner w2) (TKey key) \<longleftrightarrow> tracked (w_owner w1) (TKey key) \<and> held_key (hr_held request) key)
    \<and> (\<forall>button. tracked (w_owner w2) (TButton button) \<longleftrightarrow>
          tracked (w_owner w1) (TButton button) \<and> held_button (hr_held request) button)"
    using missing_releases_flags [OF ok, where held = "hr_held request"] by (auto simp: same_held_def)
  moreover have "w_calls w2 = w_calls w1 @ new" using new(1) start(1) by (simp add: w2)
  ultimately show ?thesis using new(2,3) by (auto simp: list_all_iff)
qed

theorem applied_reconciliation_is_exact_witness:
  "\<exists>report w2. reconcile_held example_backend example_snapshot example_pressed = (Inr report, w2)
     \<and> \<not> tracked (w_owner w2) (TKey (PhysicalKey 4))"
proof -
  obtain report w2 where run: "reconcile_held example_backend example_snapshot example_pressed = (Inr report, w2)"
    "re_outcome report = RecApplied"
    using example_reconciliation by blast
  have "\<not> held_key (hr_held example_snapshot) (PhysicalKey 4)"
    by (simp add: example_snapshot_def held_key_def held_empty_def key_bit_def KEY_BITMAP_BYTES_def)
  moreover note applied_reconciliation_is_exact [OF example_open example_ops example_fold run]
  ultimately have "\<not> tracked (w_owner w2) (TKey (PhysicalKey 4))" by blast
  then show ?thesis using run(1) by blast
qed

text \<open>C25. A suspended session is reported released only when it is. If the confirmation is left to
  the native owner, as its documentation asks, then maintenance confirms the release of a suspended
  owner only when the operating system holds nothing down because of that owner's calls, whatever
  else other threads and the sink do to the authority meanwhile. Together with C7, a recovered view
  cannot receive input while an old press may still be held.\<close>

theorem confirmed_release_holds_nothing:
  assumes "open_session b address credentials bounds capabilities now sh = Some w"
    and "list_all session_op_valid ops" and "w1 = fold (session_step b) ops w"
    and "only_owner_confirms b" and "\<not> release_confirmed w1"
    and "maintain b time w1 = (r, w2)" and "release_confirmed w2"
  shows "may_hold (w_calls w2) = {}"
proof -
  have ok: "owner_ok w1"
    using proceeds_ok [OF session_run_proceeds [OF open_session_ok(1) [OF assms(1)] assms(2), of b]] assms(3) by simp
  obtain status w' where st: "owner_with_time b time control_status w1 = (status, w')" by fastforce
  have ok': "owner_ok w'" using owner_ok_quiet [OF owner_with_time_quiet ok, of b time control_status] st by simp
  have un: "\<not> release_confirmed w'" using owner_status_unconfirmed [OF assms(4,5), of time] st by simp
  note settled = settle_unconfirmed [OF assms(4)]
  have "\<not> release_confirmed (revoke w')" using un by (simp add: revoke_unconfirmed)
  then obtain until released where "status = Inr (Suspended until released)" "\<not> sh_revoked (w_shared w1)"
    using assms(5-7) st un settled [of w1] settled [of w'] settled [of "revoke w'"]
    by (cases "sh_revoked (w_shared w1)"; cases status) (auto simp: maintain_def split: ControlStatus.splits)
  then have run: "try_then (release_held b w') (\<lambda>report w.
            (Inr report, if cl_remaining report = 0 \<and> \<not> released then confirm_release b w else w)) = (r, w2)"
    using assms(6) st by (simp add: maintain_def)
  obtain x v where v: "release_held b w' = (x, v)" by fastforce
  have uv: "\<not> release_confirmed v" using release_held_unconfirmed [OF assms(4) un] v by simp
  then obtain report where "x = Inr report" "w2 = confirm_release b v" "cl_remaining report = 0"
    using run v assms(7) by (cases x) (auto split: if_splits)
  moreover from this have "accounted v" "held_count (w_owner v) = 0"
    using proceeds_ok [OF release_held_step(1) [OF ok', of b]] release_held_report [of b w' report v] v
    by (simp_all add: owner_ok_def)
  ultimately show ?thesis using nothing_held [of v] by (simp add: confirm_release_def)
qed

theorem confirmed_release_holds_nothing_witness:
  "\<exists>r w2. maintain example_backend (millis 600) example_pressed = (r, w2) \<and> release_confirmed w2
     \<and> may_hold (w_calls w2) = {}"
proof -
  obtain r w2 where run: "maintain example_backend (millis 600) example_pressed = (r, w2)" "release_confirmed w2"
    using example_maintain by blast
  then show ?thesis
    using confirmed_release_holds_nothing [OF example_open example_ops example_fold example_reserved
        example_unconfirmed run] by blast
qed

end
