(* ===== verification/Limits.thy ===== *)
theory Limits
  imports Prelude
begin

text \<open>
  The one structure of protocol and resource limits, \<open>fr-core/src/limits.rs\<close>: the absolute
  ceilings, overrides that may only lower them, the field-wise minimum two peers negotiate,
  the validators that run before parsing or allocation, and the checked size of a surface.
  Every refusal is a value of \<open>LimitsError\<close>. An override of type \<open>u8\<close>, \<open>u32\<close>, \<open>u64\<close> or
  \<open>usize\<close> reaches \<open>take_bounded\<close> as the number it stands for, since that function is generic
  in its type and converts it to \<open>u64\<close> first.
\<close>

section \<open>Fields and refusals\<close>

datatype LimitField =
    ControlMessageBytes
  | ClipboardItemBytes
  | EncodedAccessUnitBytes
  | DimensionPixels
  | CodedPixels
  | ReassemblyWindowPictures
  | PerViewerCompressedBytes
  | ConcurrentHandshakes
  | HandshakeDurationMs
  | PreadmissionRatePerSec
  | HalfAttachedChannels
  | PendingApprovals
  | IdleSessionTimeoutSecs
  | ControlRequestsPerSec
  | CodecProbesPerMin
  | RecoveryRequestsPerSec
  | CursorUploadsPerSec
  | DiagnosticExportsPerMin
  | DecoderReconfigurationsPerMin
  | WorkerRestartsPerMin
  | CursorDimensionPixels
  | CursorShapeBytes
  | NameBytes
  | ParameterSetBytes
  | FragmentsPerAccessUnit
  | RetainedReceipts
  | EncoderSessions
  | GpuSurfaces
  | BandwidthBps
  | Viewers

datatype LimitsError =
    AboveCeiling LimitField u64 u64
  | BelowFloor LimitField u64 u64
  | ZeroDimension
  | SizeOverflow
  | InvalidRowAlignment u32
  | InvalidBytesPerPixel u32

record LimitOverrides =
  lo_max_control_message_bytes :: "u32 option"
  lo_max_clipboard_item_bytes :: "u32 option"
  lo_max_encoded_access_unit_bytes :: "u32 option"
  lo_max_dimension_pixels :: "u32 option"
  lo_max_coded_pixels :: "u64 option"
  lo_reassembly_window_pictures :: "u8 option"
  lo_per_viewer_compressed_bytes :: "u64 option"
  lo_max_concurrent_handshakes :: "u32 option"
  lo_max_handshake_duration_ms :: "u32 option"
  lo_max_preadmission_rate_per_sec :: "u32 option"
  lo_max_half_attached_channels :: "u32 option"
  lo_max_pending_approvals :: "u32 option"
  lo_idle_session_timeout_seconds :: "u32 option"
  lo_max_control_requests_per_sec :: "u32 option"
  lo_max_codec_probes_per_min :: "u32 option"
  lo_max_recovery_requests_per_sec :: "u32 option"
  lo_max_cursor_uploads_per_sec :: "u32 option"
  lo_max_diagnostic_exports_per_min :: "u32 option"
  lo_max_decoder_reconfigurations_per_min :: "u32 option"
  lo_max_worker_restarts_per_min :: "u32 option"
  lo_max_cursor_dimension_pixels :: "u32 option"
  lo_max_cursor_shape_bytes :: "u32 option"
  lo_max_name_bytes :: "usize option"
  lo_max_parameter_set_bytes :: "u32 option"
  lo_max_fragments_per_access_unit :: "u32 option"
  lo_max_retained_receipts :: "usize option"
  lo_max_encoder_sessions :: "u32 option"
  lo_max_gpu_surfaces :: "u32 option"
  lo_max_bandwidth_bps :: "u64 option"
  lo_max_viewers :: "u32 option"

record ProtocolLimits =
  pl_max_control_message_bytes :: u32
  pl_max_clipboard_item_bytes :: u32
  pl_max_encoded_access_unit_bytes :: u32
  pl_max_dimension_pixels :: u32
  pl_max_coded_pixels :: u64
  pl_reassembly_window_pictures :: u8
  pl_per_viewer_compressed_bytes :: u64
  pl_max_concurrent_handshakes :: u16
  pl_max_handshake_duration_ms :: u16
  pl_max_preadmission_rate_per_sec :: u16
  pl_max_half_attached_channels :: u16
  pl_max_pending_approvals :: u8
  pl_idle_session_timeout_seconds :: u16
  pl_max_control_requests_per_sec :: u16
  pl_max_codec_probes_per_min :: u16
  pl_max_recovery_requests_per_sec :: u16
  pl_max_cursor_uploads_per_sec :: u16
  pl_max_diagnostic_exports_per_min :: u8
  pl_max_decoder_reconfigurations_per_min :: u16
  pl_max_worker_restarts_per_min :: u8
  pl_max_cursor_dimension_pixels :: u16
  pl_max_cursor_shape_bytes :: u32
  pl_max_name_bytes :: u16
  pl_max_parameter_set_bytes :: u32
  pl_max_fragments_per_access_unit :: u16
  pl_max_retained_receipts :: u16
  pl_max_encoder_sessions :: u8
  pl_max_gpu_surfaces :: u8
  pl_max_bandwidth_bps :: u64
  pl_max_viewers :: u8

section \<open>Ceilings\<close>

definition REASSEMBLY_WINDOW_FLOOR :: u8 where
  "REASSEMBLY_WINDOW_FLOOR = 2"

definition REASSEMBLY_WINDOW_CEILING :: u8 where
  "REASSEMBLY_WINDOW_CEILING = 12"

definition ABSOLUTE :: ProtocolLimits where
  "ABSOLUTE =
     \<lparr>pl_max_control_message_bytes = 64 * 1024,
      pl_max_clipboard_item_bytes = 1024 * 1024,
      pl_max_encoded_access_unit_bytes = 16 * 1024 * 1024,
      pl_max_dimension_pixels = 8192,
      pl_max_coded_pixels = 16777216,
      pl_reassembly_window_pictures = REASSEMBLY_WINDOW_CEILING,
      pl_per_viewer_compressed_bytes = 32 * 1024 * 1024,
      pl_max_concurrent_handshakes = 64,
      pl_max_handshake_duration_ms = 10000,
      pl_max_preadmission_rate_per_sec = 100,
      pl_max_half_attached_channels = 16,
      pl_max_pending_approvals = 8,
      pl_idle_session_timeout_seconds = 300,
      pl_max_control_requests_per_sec = 200,
      pl_max_codec_probes_per_min = 30,
      pl_max_recovery_requests_per_sec = 120,
      pl_max_cursor_uploads_per_sec = 60,
      pl_max_diagnostic_exports_per_min = 10,
      pl_max_decoder_reconfigurations_per_min = 30,
      pl_max_worker_restarts_per_min = 10,
      pl_max_cursor_dimension_pixels = 256,
      pl_max_cursor_shape_bytes = 262144,
      pl_max_name_bytes = 256,
      pl_max_parameter_set_bytes = 64 * 1024,
      pl_max_fragments_per_access_unit = 4096,
      pl_max_retained_receipts = 1024,
      pl_max_encoder_sessions = 4,
      pl_max_gpu_surfaces = 32,
      pl_max_bandwidth_bps = 1000000000,
      pl_max_viewers = 3\<rparr>"

section \<open>Overrides\<close>

record SessionOverrides =
  so_max_control_message_bytes :: u32
  so_max_clipboard_item_bytes :: u32
  so_max_encoded_access_unit_bytes :: u32
  so_max_dimension_pixels :: u32
  so_max_coded_pixels :: u64
  so_reassembly_window_pictures :: u8
  so_per_viewer_compressed_bytes :: u64

record RateOverrides =
  ra_max_concurrent_handshakes :: u16
  ra_max_handshake_duration_ms :: u16
  ra_max_preadmission_rate_per_sec :: u16
  ra_max_half_attached_channels :: u16
  ra_max_pending_approvals :: u8
  ra_idle_session_timeout_seconds :: u16
  ra_max_control_requests_per_sec :: u16
  ra_max_codec_probes_per_min :: u16
  ra_max_recovery_requests_per_sec :: u16
  ra_max_cursor_uploads_per_sec :: u16
  ra_max_diagnostic_exports_per_min :: u8
  ra_max_decoder_reconfigurations_per_min :: u16
  ra_max_worker_restarts_per_min :: u8

record ResourceOverrides =
  rs_max_cursor_dimension_pixels :: u16
  rs_max_cursor_shape_bytes :: u32
  rs_max_name_bytes :: u16
  rs_max_parameter_set_bytes :: u32
  rs_max_fragments_per_access_unit :: u16
  rs_max_retained_receipts :: u16
  rs_max_encoder_sessions :: u8
  rs_max_gpu_surfaces :: u8
  rs_max_bandwidth_bps :: u64
  rs_max_viewers :: u8

definition take_bounded ::
  "LimitField \<Rightarrow> 'a::len word \<Rightarrow> 'a word \<Rightarrow> nat option \<Rightarrow> LimitsError + 'a word" where
  "take_bounded field ceiling floor value =
     (let ceil_u64 = ucast ceiling :: u64; floor_u64 = ucast floor :: u64 in
      case value of
        None \<Rightarrow> Inr ceiling
      | Some v \<Rightarrow>
          if v \<ge> 2 ^ 64 then Inl SizeOverflow
          else let v_u64 = of_nat v :: u64 in
          if v_u64 > ceil_u64 then Inl (AboveCeiling field v_u64 ceil_u64)
          else if v_u64 < floor_u64 then Inl (BelowFloor field v_u64 floor_u64)
          else if unat v_u64 < 2 ^ LENGTH('a) then Inr (ucast v_u64)
          else Inl SizeOverflow)"

definition resolve_session_overrides ::
  "LimitOverrides \<Rightarrow> ProtocolLimits \<Rightarrow> LimitsError + SessionOverrides" where
  "resolve_session_overrides overrides a =
     try_res
       (case lo_reassembly_window_pictures overrides of
          None \<Rightarrow> Inr (pl_reassembly_window_pictures a)
        | Some v \<Rightarrow>
            if v > REASSEMBLY_WINDOW_CEILING
            then Inl (AboveCeiling ReassemblyWindowPictures (ucast v) (ucast REASSEMBLY_WINDOW_CEILING))
            else if v < REASSEMBLY_WINDOW_FLOOR
            then Inl (BelowFloor ReassemblyWindowPictures (ucast v) (ucast REASSEMBLY_WINDOW_FLOOR))
            else Inr v) (\<lambda>reassembly.
     try_res (take_bounded EncodedAccessUnitBytes (pl_max_encoded_access_unit_bytes a) 1 (map_option unat (lo_max_encoded_access_unit_bytes overrides))) (\<lambda>access_unit.
     try_res
       (case lo_per_viewer_compressed_bytes overrides of
          None \<Rightarrow> Inr (pl_per_viewer_compressed_bytes a)
        | Some v \<Rightarrow>
            if v > pl_per_viewer_compressed_bytes a
            then Inl (AboveCeiling PerViewerCompressedBytes v (pl_per_viewer_compressed_bytes a))
            else if v < ucast access_unit
            then Inl (BelowFloor PerViewerCompressedBytes v (ucast access_unit))
            else Inr v) (\<lambda>per_viewer.
     try_res
       (case lo_max_coded_pixels overrides of
          None \<Rightarrow> Inr (pl_max_coded_pixels a)
        | Some v \<Rightarrow>
            if v > pl_max_coded_pixels a
            then Inl (AboveCeiling CodedPixels v (pl_max_coded_pixels a))
            else if v = 0 then Inl ZeroDimension
            else Inr v) (\<lambda>coded_pixels.
     try_res (take_bounded ControlMessageBytes (pl_max_control_message_bytes a) 1 (map_option unat (lo_max_control_message_bytes overrides))) (\<lambda>control.
     try_res (take_bounded ClipboardItemBytes (pl_max_clipboard_item_bytes a) 1 (map_option unat (lo_max_clipboard_item_bytes overrides))) (\<lambda>clipboard.
     try_res (take_bounded DimensionPixels (pl_max_dimension_pixels a) 1 (map_option unat (lo_max_dimension_pixels overrides))) (\<lambda>dimension.
     Inr \<lparr>so_max_control_message_bytes = control, so_max_clipboard_item_bytes = clipboard,
          so_max_encoded_access_unit_bytes = access_unit, so_max_dimension_pixels = dimension,
          so_max_coded_pixels = coded_pixels, so_reassembly_window_pictures = reassembly,
          so_per_viewer_compressed_bytes = per_viewer\<rparr>)))))))"

definition resolve_rate_overrides ::
  "LimitOverrides \<Rightarrow> ProtocolLimits \<Rightarrow> LimitsError + RateOverrides" where
  "resolve_rate_overrides overrides a =
     try_res (take_bounded ConcurrentHandshakes (pl_max_concurrent_handshakes a) 1 (map_option unat (lo_max_concurrent_handshakes overrides))) (\<lambda>v1.
     try_res (take_bounded HandshakeDurationMs (pl_max_handshake_duration_ms a) 1000 (map_option unat (lo_max_handshake_duration_ms overrides))) (\<lambda>v2.
     try_res (take_bounded PreadmissionRatePerSec (pl_max_preadmission_rate_per_sec a) 1 (map_option unat (lo_max_preadmission_rate_per_sec overrides))) (\<lambda>v3.
     try_res (take_bounded HalfAttachedChannels (pl_max_half_attached_channels a) 1 (map_option unat (lo_max_half_attached_channels overrides))) (\<lambda>v4.
     try_res (take_bounded PendingApprovals (pl_max_pending_approvals a) 1 (map_option unat (lo_max_pending_approvals overrides))) (\<lambda>v5.
     try_res (take_bounded IdleSessionTimeoutSecs (pl_idle_session_timeout_seconds a) 10 (map_option unat (lo_idle_session_timeout_seconds overrides))) (\<lambda>v6.
     try_res (take_bounded ControlRequestsPerSec (pl_max_control_requests_per_sec a) 10 (map_option unat (lo_max_control_requests_per_sec overrides))) (\<lambda>v7.
     try_res (take_bounded CodecProbesPerMin (pl_max_codec_probes_per_min a) 1 (map_option unat (lo_max_codec_probes_per_min overrides))) (\<lambda>v8.
     try_res (take_bounded RecoveryRequestsPerSec (pl_max_recovery_requests_per_sec a) 10 (map_option unat (lo_max_recovery_requests_per_sec overrides))) (\<lambda>v9.
     try_res (take_bounded CursorUploadsPerSec (pl_max_cursor_uploads_per_sec a) 1 (map_option unat (lo_max_cursor_uploads_per_sec overrides))) (\<lambda>v10.
     try_res (take_bounded DiagnosticExportsPerMin (pl_max_diagnostic_exports_per_min a) 1 (map_option unat (lo_max_diagnostic_exports_per_min overrides))) (\<lambda>v11.
     try_res (take_bounded DecoderReconfigurationsPerMin (pl_max_decoder_reconfigurations_per_min a) 1 (map_option unat (lo_max_decoder_reconfigurations_per_min overrides))) (\<lambda>v12.
     try_res (take_bounded WorkerRestartsPerMin (pl_max_worker_restarts_per_min a) 1 (map_option unat (lo_max_worker_restarts_per_min overrides))) (\<lambda>v13.
     Inr \<lparr>ra_max_concurrent_handshakes = v1,
          ra_max_handshake_duration_ms = v2,
          ra_max_preadmission_rate_per_sec = v3,
          ra_max_half_attached_channels = v4,
          ra_max_pending_approvals = v5,
          ra_idle_session_timeout_seconds = v6,
          ra_max_control_requests_per_sec = v7,
          ra_max_codec_probes_per_min = v8,
          ra_max_recovery_requests_per_sec = v9,
          ra_max_cursor_uploads_per_sec = v10,
          ra_max_diagnostic_exports_per_min = v11,
          ra_max_decoder_reconfigurations_per_min = v12,
          ra_max_worker_restarts_per_min = v13\<rparr>)))))))))))))"

definition resolve_resource_overrides ::
  "LimitOverrides \<Rightarrow> ProtocolLimits \<Rightarrow> LimitsError + ResourceOverrides" where
  "resolve_resource_overrides overrides a =
     try_res (take_bounded CursorDimensionPixels (pl_max_cursor_dimension_pixels a) 16 (map_option unat (lo_max_cursor_dimension_pixels overrides))) (\<lambda>v1.
     try_res (take_bounded CursorShapeBytes (pl_max_cursor_shape_bytes a) 1024 (map_option unat (lo_max_cursor_shape_bytes overrides))) (\<lambda>v2.
     try_res (take_bounded NameBytes (pl_max_name_bytes a) 1 (lo_max_name_bytes overrides)) (\<lambda>v3.
     try_res (take_bounded ParameterSetBytes (pl_max_parameter_set_bytes a) 32 (map_option unat (lo_max_parameter_set_bytes overrides))) (\<lambda>v4.
     try_res (take_bounded FragmentsPerAccessUnit (pl_max_fragments_per_access_unit a) 1 (map_option unat (lo_max_fragments_per_access_unit overrides))) (\<lambda>v5.
     try_res (take_bounded RetainedReceipts (pl_max_retained_receipts a) 16 (lo_max_retained_receipts overrides)) (\<lambda>v6.
     try_res (take_bounded EncoderSessions (pl_max_encoder_sessions a) 1 (map_option unat (lo_max_encoder_sessions overrides))) (\<lambda>v7.
     try_res (take_bounded GpuSurfaces (pl_max_gpu_surfaces a) 2 (map_option unat (lo_max_gpu_surfaces overrides))) (\<lambda>v8.
     try_res (take_bounded BandwidthBps (pl_max_bandwidth_bps a) 1000000 (map_option unat (lo_max_bandwidth_bps overrides))) (\<lambda>v9.
     try_res (take_bounded Viewers (pl_max_viewers a) 1 (map_option unat (lo_max_viewers overrides))) (\<lambda>v10.
     Inr \<lparr>rs_max_cursor_dimension_pixels = v1,
          rs_max_cursor_shape_bytes = v2,
          rs_max_name_bytes = v3,
          rs_max_parameter_set_bytes = v4,
          rs_max_fragments_per_access_unit = v5,
          rs_max_retained_receipts = v6,
          rs_max_encoder_sessions = v7,
          rs_max_gpu_surfaces = v8,
          rs_max_bandwidth_bps = v9,
          rs_max_viewers = v10\<rparr>))))))))))"

definition with_overrides :: "LimitOverrides \<Rightarrow> LimitsError + ProtocolLimits" where
  "with_overrides overrides =
     try_res (resolve_session_overrides overrides ABSOLUTE) (\<lambda>session.
     try_res (resolve_rate_overrides overrides ABSOLUTE) (\<lambda>rates.
     try_res (resolve_resource_overrides overrides ABSOLUTE) (\<lambda>resources.
     Inr \<lparr>pl_max_control_message_bytes = so_max_control_message_bytes session,
          pl_max_clipboard_item_bytes = so_max_clipboard_item_bytes session,
          pl_max_encoded_access_unit_bytes = so_max_encoded_access_unit_bytes session,
          pl_max_dimension_pixels = so_max_dimension_pixels session,
          pl_max_coded_pixels = so_max_coded_pixels session,
          pl_reassembly_window_pictures = so_reassembly_window_pictures session,
          pl_per_viewer_compressed_bytes = so_per_viewer_compressed_bytes session,
          pl_max_concurrent_handshakes = ra_max_concurrent_handshakes rates,
          pl_max_handshake_duration_ms = ra_max_handshake_duration_ms rates,
          pl_max_preadmission_rate_per_sec = ra_max_preadmission_rate_per_sec rates,
          pl_max_half_attached_channels = ra_max_half_attached_channels rates,
          pl_max_pending_approvals = ra_max_pending_approvals rates,
          pl_idle_session_timeout_seconds = ra_idle_session_timeout_seconds rates,
          pl_max_control_requests_per_sec = ra_max_control_requests_per_sec rates,
          pl_max_codec_probes_per_min = ra_max_codec_probes_per_min rates,
          pl_max_recovery_requests_per_sec = ra_max_recovery_requests_per_sec rates,
          pl_max_cursor_uploads_per_sec = ra_max_cursor_uploads_per_sec rates,
          pl_max_diagnostic_exports_per_min = ra_max_diagnostic_exports_per_min rates,
          pl_max_decoder_reconfigurations_per_min = ra_max_decoder_reconfigurations_per_min rates,
          pl_max_worker_restarts_per_min = ra_max_worker_restarts_per_min rates,
          pl_max_cursor_dimension_pixels = rs_max_cursor_dimension_pixels resources,
          pl_max_cursor_shape_bytes = rs_max_cursor_shape_bytes resources,
          pl_max_name_bytes = rs_max_name_bytes resources,
          pl_max_parameter_set_bytes = rs_max_parameter_set_bytes resources,
          pl_max_fragments_per_access_unit = rs_max_fragments_per_access_unit resources,
          pl_max_retained_receipts = rs_max_retained_receipts resources,
          pl_max_encoder_sessions = rs_max_encoder_sessions resources,
          pl_max_gpu_surfaces = rs_max_gpu_surfaces resources,
          pl_max_bandwidth_bps = rs_max_bandwidth_bps resources,
          pl_max_viewers = rs_max_viewers resources\<rparr>)))"

definition negotiated :: "ProtocolLimits \<Rightarrow> ProtocolLimits \<Rightarrow> ProtocolLimits" where
  "negotiated l peer =
     \<lparr>pl_max_control_message_bytes = min (pl_max_control_message_bytes l) (pl_max_control_message_bytes peer),
      pl_max_clipboard_item_bytes = min (pl_max_clipboard_item_bytes l) (pl_max_clipboard_item_bytes peer),
      pl_max_encoded_access_unit_bytes = min (pl_max_encoded_access_unit_bytes l) (pl_max_encoded_access_unit_bytes peer),
      pl_max_dimension_pixels = min (pl_max_dimension_pixels l) (pl_max_dimension_pixels peer),
      pl_max_coded_pixels = min (pl_max_coded_pixels l) (pl_max_coded_pixels peer),
      pl_reassembly_window_pictures = min (pl_reassembly_window_pictures l) (pl_reassembly_window_pictures peer),
      pl_per_viewer_compressed_bytes = min (pl_per_viewer_compressed_bytes l) (pl_per_viewer_compressed_bytes peer),
      pl_max_concurrent_handshakes = min (pl_max_concurrent_handshakes l) (pl_max_concurrent_handshakes peer),
      pl_max_handshake_duration_ms = min (pl_max_handshake_duration_ms l) (pl_max_handshake_duration_ms peer),
      pl_max_preadmission_rate_per_sec = min (pl_max_preadmission_rate_per_sec l) (pl_max_preadmission_rate_per_sec peer),
      pl_max_half_attached_channels = min (pl_max_half_attached_channels l) (pl_max_half_attached_channels peer),
      pl_max_pending_approvals = min (pl_max_pending_approvals l) (pl_max_pending_approvals peer),
      pl_idle_session_timeout_seconds = min (pl_idle_session_timeout_seconds l) (pl_idle_session_timeout_seconds peer),
      pl_max_control_requests_per_sec = min (pl_max_control_requests_per_sec l) (pl_max_control_requests_per_sec peer),
      pl_max_codec_probes_per_min = min (pl_max_codec_probes_per_min l) (pl_max_codec_probes_per_min peer),
      pl_max_recovery_requests_per_sec = min (pl_max_recovery_requests_per_sec l) (pl_max_recovery_requests_per_sec peer),
      pl_max_cursor_uploads_per_sec = min (pl_max_cursor_uploads_per_sec l) (pl_max_cursor_uploads_per_sec peer),
      pl_max_diagnostic_exports_per_min = min (pl_max_diagnostic_exports_per_min l) (pl_max_diagnostic_exports_per_min peer),
      pl_max_decoder_reconfigurations_per_min = min (pl_max_decoder_reconfigurations_per_min l) (pl_max_decoder_reconfigurations_per_min peer),
      pl_max_worker_restarts_per_min = min (pl_max_worker_restarts_per_min l) (pl_max_worker_restarts_per_min peer),
      pl_max_cursor_dimension_pixels = min (pl_max_cursor_dimension_pixels l) (pl_max_cursor_dimension_pixels peer),
      pl_max_cursor_shape_bytes = min (pl_max_cursor_shape_bytes l) (pl_max_cursor_shape_bytes peer),
      pl_max_name_bytes = min (pl_max_name_bytes l) (pl_max_name_bytes peer),
      pl_max_parameter_set_bytes = min (pl_max_parameter_set_bytes l) (pl_max_parameter_set_bytes peer),
      pl_max_fragments_per_access_unit = min (pl_max_fragments_per_access_unit l) (pl_max_fragments_per_access_unit peer),
      pl_max_retained_receipts = min (pl_max_retained_receipts l) (pl_max_retained_receipts peer),
      pl_max_encoder_sessions = min (pl_max_encoder_sessions l) (pl_max_encoder_sessions peer),
      pl_max_gpu_surfaces = min (pl_max_gpu_surfaces l) (pl_max_gpu_surfaces peer),
      pl_max_bandwidth_bps = min (pl_max_bandwidth_bps l) (pl_max_bandwidth_bps peer),
      pl_max_viewers = min (pl_max_viewers l) (pl_max_viewers peer)\<rparr>"

section \<open>Validators\<close>

definition validate_len :: "LimitField \<Rightarrow> usize \<Rightarrow> u64 \<Rightarrow> LimitsError + unit" where
  "validate_len field len ceiling =
     (if len \<ge> 2 ^ 64 then Inl SizeOverflow
      else if of_nat len > ceiling then Inl (AboveCeiling field (of_nat len) ceiling)
      else Inr ())"

definition validate_max :: "LimitField \<Rightarrow> u64 \<Rightarrow> u64 \<Rightarrow> LimitsError + unit" where
  "validate_max field count maximum =
     (if count > maximum then Inl (AboveCeiling field count maximum) else Inr ())"

definition validate_capacity :: "LimitField \<Rightarrow> u64 \<Rightarrow> u64 \<Rightarrow> LimitsError + unit" where
  "validate_capacity field count cap = (if count \<ge> cap then Inl (AboveCeiling field count cap) else Inr ())"

definition validate_control_message_len :: "ProtocolLimits \<Rightarrow> usize \<Rightarrow> LimitsError + unit" where
  "validate_control_message_len l len = validate_len ControlMessageBytes len (ucast (pl_max_control_message_bytes l))"

definition validate_clipboard_item_len :: "ProtocolLimits \<Rightarrow> usize \<Rightarrow> LimitsError + unit" where
  "validate_clipboard_item_len l len = validate_len ClipboardItemBytes len (ucast (pl_max_clipboard_item_bytes l))"

definition validate_access_unit_len :: "ProtocolLimits \<Rightarrow> usize \<Rightarrow> LimitsError + unit" where
  "validate_access_unit_len l len = validate_len EncodedAccessUnitBytes len (ucast (pl_max_encoded_access_unit_bytes l))"

definition validate_coded_dimensions :: "ProtocolLimits \<Rightarrow> u32 \<Rightarrow> u32 \<Rightarrow> LimitsError + unit" where
  "validate_coded_dimensions l width height =
     (if width = 0 \<or> height = 0 then Inl ZeroDimension
      else if width > pl_max_dimension_pixels l then Inl (AboveCeiling DimensionPixels (ucast width) (ucast (pl_max_dimension_pixels l)))
      else if height > pl_max_dimension_pixels l then Inl (AboveCeiling DimensionPixels (ucast height) (ucast (pl_max_dimension_pixels l)))
      else let pixels = (ucast width :: u64) * ucast height in
      if pixels > pl_max_coded_pixels l then Inl (AboveCeiling CodedPixels pixels (pl_max_coded_pixels l))
      else Inr ())"

definition validate_cursor_dimensions :: "ProtocolLimits \<Rightarrow> u32 \<Rightarrow> u32 \<Rightarrow> LimitsError + unit" where
  "validate_cursor_dimensions l width height =
     (if width = 0 \<or> height = 0 then Inl ZeroDimension
      else if width > ucast (pl_max_cursor_dimension_pixels l) then Inl (AboveCeiling CursorDimensionPixels (ucast width) (ucast (pl_max_cursor_dimension_pixels l)))
      else if height > ucast (pl_max_cursor_dimension_pixels l) then Inl (AboveCeiling CursorDimensionPixels (ucast height) (ucast (pl_max_cursor_dimension_pixels l)))
      else Inr ())"

definition validate_cursor_shape_len :: "ProtocolLimits \<Rightarrow> usize \<Rightarrow> LimitsError + unit" where
  "validate_cursor_shape_len l len = validate_len CursorShapeBytes len (ucast (pl_max_cursor_shape_bytes l))"

definition validate_name_len :: "ProtocolLimits \<Rightarrow> usize \<Rightarrow> LimitsError + unit" where
  "validate_name_len l len = validate_len NameBytes len (ucast (pl_max_name_bytes l))"

definition validate_parameter_set_len :: "ProtocolLimits \<Rightarrow> usize \<Rightarrow> LimitsError + unit" where
  "validate_parameter_set_len l len = validate_len ParameterSetBytes len (ucast (pl_max_parameter_set_bytes l))"

definition validate_fragment_count :: "ProtocolLimits \<Rightarrow> u32 \<Rightarrow> LimitsError + unit" where
  "validate_fragment_count l count = validate_max FragmentsPerAccessUnit (ucast count) (ucast (pl_max_fragments_per_access_unit l))"

definition validate_handshake_concurrency :: "ProtocolLimits \<Rightarrow> u32 \<Rightarrow> LimitsError + unit" where
  "validate_handshake_concurrency l count = validate_capacity ConcurrentHandshakes (ucast count) (ucast (pl_max_concurrent_handshakes l))"

definition validate_pending_approvals :: "ProtocolLimits \<Rightarrow> u32 \<Rightarrow> LimitsError + unit" where
  "validate_pending_approvals l count = validate_capacity PendingApprovals (ucast count) (ucast (pl_max_pending_approvals l))"

definition validate_half_attached_channels :: "ProtocolLimits \<Rightarrow> u32 \<Rightarrow> LimitsError + unit" where
  "validate_half_attached_channels l count = validate_capacity HalfAttachedChannels (ucast count) (ucast (pl_max_half_attached_channels l))"

definition validate_retained_receipts :: "ProtocolLimits \<Rightarrow> usize \<Rightarrow> LimitsError + unit" where
  "validate_retained_receipts l count = validate_max RetainedReceipts (if count < 2 ^ 64 then of_nat count else - 1) (ucast (pl_max_retained_receipts l))"

definition validate_encoder_sessions :: "ProtocolLimits \<Rightarrow> u32 \<Rightarrow> LimitsError + unit" where
  "validate_encoder_sessions l count = validate_capacity EncoderSessions (ucast count) (ucast (pl_max_encoder_sessions l))"

definition validate_gpu_surfaces :: "ProtocolLimits \<Rightarrow> u32 \<Rightarrow> LimitsError + unit" where
  "validate_gpu_surfaces l count = validate_capacity GpuSurfaces (ucast count) (ucast (pl_max_gpu_surfaces l))"

definition validate_viewers :: "ProtocolLimits \<Rightarrow> u32 \<Rightarrow> LimitsError + unit" where
  "validate_viewers l count = validate_capacity Viewers (ucast count) (ucast (pl_max_viewers l))"

text \<open>\<open>u32::is_power_of_two\<close>.\<close>

definition is_power_of_two :: "u32 \<Rightarrow> bool" where
  "is_power_of_two n \<longleftrightarrow> (\<exists>k \<in> set [0..<32]. n = 2 ^ k)"

definition checked_surface_bytes :: "ProtocolLimits \<Rightarrow> u32 \<Rightarrow> u32 \<Rightarrow> u32 \<Rightarrow> u32 \<Rightarrow> LimitsError + u64" where
  "checked_surface_bytes l width height bytes_per_pixel row_align =
     try_res (validate_coded_dimensions l width height) (\<lambda>_.
     if \<not> (1 \<le> bytes_per_pixel \<and> bytes_per_pixel \<le> 16) then Inl (InvalidBytesPerPixel bytes_per_pixel)
     else if row_align = 0 \<or> \<not> is_power_of_two row_align then Inl (InvalidRowAlignment row_align)
     else
       try_res (ok_or SizeOverflow (checked_mul (ucast width) (ucast bytes_per_pixel))) (\<lambda>row_bytes.
       let align = ucast row_align :: u64 in
       try_res (ok_or SizeOverflow (checked_add row_bytes (align - 1))) (\<lambda>padded.
       let stride = padded div align * align in
       ok_or SizeOverflow (checked_mul stride (ucast height)))))"

section \<open>Valid limits\<close>

text \<open>
  The order of limit sets: field by field, as numbers. \<open>limit_floors\<close> are the least values
  \<open>with_overrides\<close> admits; the compressed budget of a viewer must hold one access unit.
\<close>

definition limit_values :: "ProtocolLimits \<Rightarrow> nat list" where
  "limit_values l =
     [unat (pl_max_control_message_bytes l),
      unat (pl_max_clipboard_item_bytes l),
      unat (pl_max_encoded_access_unit_bytes l),
      unat (pl_max_dimension_pixels l),
      unat (pl_max_coded_pixels l),
      unat (pl_reassembly_window_pictures l),
      unat (pl_per_viewer_compressed_bytes l),
      unat (pl_max_concurrent_handshakes l),
      unat (pl_max_handshake_duration_ms l),
      unat (pl_max_preadmission_rate_per_sec l),
      unat (pl_max_half_attached_channels l),
      unat (pl_max_pending_approvals l),
      unat (pl_idle_session_timeout_seconds l),
      unat (pl_max_control_requests_per_sec l),
      unat (pl_max_codec_probes_per_min l),
      unat (pl_max_recovery_requests_per_sec l),
      unat (pl_max_cursor_uploads_per_sec l),
      unat (pl_max_diagnostic_exports_per_min l),
      unat (pl_max_decoder_reconfigurations_per_min l),
      unat (pl_max_worker_restarts_per_min l),
      unat (pl_max_cursor_dimension_pixels l),
      unat (pl_max_cursor_shape_bytes l),
      unat (pl_max_name_bytes l),
      unat (pl_max_parameter_set_bytes l),
      unat (pl_max_fragments_per_access_unit l),
      unat (pl_max_retained_receipts l),
      unat (pl_max_encoder_sessions l),
      unat (pl_max_gpu_surfaces l),
      unat (pl_max_bandwidth_bps l),
      unat (pl_max_viewers l)]"

definition limit_floors :: "nat list" where
  "limit_floors = [1, 1, 1, 1, 1, 2, 1, 1, 1000, 1, 1, 1, 10, 10, 1, 10, 1, 1, 1, 1, 16, 1024, 1, 32, 1, 16, 1, 2, 1000000, 1]"

definition limits_le :: "ProtocolLimits \<Rightarrow> ProtocolLimits \<Rightarrow> bool" where
  "limits_le a b = list_all2 (\<le>) (limit_values a) (limit_values b)"

definition limits_valid :: "ProtocolLimits \<Rightarrow> bool" where
  "limits_valid l \<longleftrightarrow>
     list_all2 (\<le>) limit_floors (limit_values l) \<and> limits_le l ABSOLUTE
     \<and> unat (pl_max_encoded_access_unit_bytes l) \<le> unat (pl_per_viewer_compressed_bytes l)"


lemma unat_ucast_up: "LENGTH('a) \<le> LENGTH('b) \<Longrightarrow> unat (ucast (w :: 'a::len word) :: 'b::len word) = unat w"
  by (simp add: unsigned_ucast_eq take_bit_nat_eq_self_iff) (meson le_less_trans less_le_trans one_le_numeral power_increasing unat_word_less)

lemma unat_ucast_fits:
  assumes "unat (w :: 'a::len word) < 2 ^ LENGTH('b)"
  shows "unat (ucast w :: 'b::len word) = unat w"
  using assms by (simp add: unsigned_ucast_eq take_bit_nat_eq_self_iff)

lemma take_bounded_Inr:
  fixes c fl x :: "'a::len word"
  assumes "take_bounded f c fl v = Inr x" "LENGTH('a) \<le> 64" "unat fl \<le> unat c"
  shows "unat fl \<le> unat x" "unat x \<le> unat c" "is_none_or (\<lambda>n. unat x = n) v"
  using assms
  by (auto simp: take_bounded_def Let_def unat_ucast_up unat_of_nat_less unat_ucast_fits word_less_nat_alt
      split: option.splits if_splits)

lemma take_bounded_exact:
  fixes c fl x :: "'a::len word"
  assumes "LENGTH('a) \<le> 64" "unat fl \<le> unat x" "unat x \<le> unat c"
  shows "take_bounded f c fl (Some (unat x)) = Inr x"
proof -
  have "unat x < 2 ^ 64"
    using unat_word_less [of x] power_increasing [OF assms(1), of "2 :: nat"] by linarith
  then show ?thesis
    using assms by (simp add: take_bounded_def Let_def unat_ucast_up word_less_nat_alt unat_of_nat_less
        word_unat_eq_iff unat_ucast_fits)
qed

text \<open>What overrides ask for: an unnamed field stays at its ceiling.\<close>

definition takes :: "nat \<Rightarrow> nat option \<Rightarrow> nat \<Rightarrow> bool" where
  "takes ceiling value x \<longleftrightarrow> (case value of None \<Rightarrow> x = ceiling | Some v \<Rightarrow> x = v)"

definition override_values :: "LimitOverrides \<Rightarrow> nat option list" where
  "override_values overrides =
     [map_option unat (lo_max_control_message_bytes overrides),
      map_option unat (lo_max_clipboard_item_bytes overrides),
      map_option unat (lo_max_encoded_access_unit_bytes overrides),
      map_option unat (lo_max_dimension_pixels overrides),
      map_option unat (lo_max_coded_pixels overrides),
      map_option unat (lo_reassembly_window_pictures overrides),
      map_option unat (lo_per_viewer_compressed_bytes overrides),
      map_option unat (lo_max_concurrent_handshakes overrides),
      map_option unat (lo_max_handshake_duration_ms overrides),
      map_option unat (lo_max_preadmission_rate_per_sec overrides),
      map_option unat (lo_max_half_attached_channels overrides),
      map_option unat (lo_max_pending_approvals overrides),
      map_option unat (lo_idle_session_timeout_seconds overrides),
      map_option unat (lo_max_control_requests_per_sec overrides),
      map_option unat (lo_max_codec_probes_per_min overrides),
      map_option unat (lo_max_recovery_requests_per_sec overrides),
      map_option unat (lo_max_cursor_uploads_per_sec overrides),
      map_option unat (lo_max_diagnostic_exports_per_min overrides),
      map_option unat (lo_max_decoder_reconfigurations_per_min overrides),
      map_option unat (lo_max_worker_restarts_per_min overrides),
      map_option unat (lo_max_cursor_dimension_pixels overrides),
      map_option unat (lo_max_cursor_shape_bytes overrides),
      lo_max_name_bytes overrides,
      map_option unat (lo_max_parameter_set_bytes overrides),
      map_option unat (lo_max_fragments_per_access_unit overrides),
      lo_max_retained_receipts overrides,
      map_option unat (lo_max_encoder_sessions overrides),
      map_option unat (lo_max_gpu_surfaces overrides),
      map_option unat (lo_max_bandwidth_bps overrides),
      map_option unat (lo_max_viewers overrides)]"

definition agrees :: "LimitOverrides \<Rightarrow> ProtocolLimits \<Rightarrow> bool" where
  "agrees overrides l =
     list_all (\<lambda>(c, v, x). takes c v x)
       (zip (limit_values ABSOLUTE) (zip (override_values overrides) (limit_values l)))"

lemma takes_simps [simp]:
  "takes c None x \<longleftrightarrow> x = c" "takes c (Some v) x \<longleftrightarrow> x = v"
  by (simp_all add: takes_def)

lemma take_bounded_Inr_iff:
  fixes c fl x :: "'a::len word"
  assumes "LENGTH('a) \<le> 64" "unat fl \<le> unat c"
  shows "take_bounded f c fl v = Inr x \<longleftrightarrow>
    unat fl \<le> unat x \<and> unat x \<le> unat c \<and> takes (unat c) v (unat x)"
proof
  assume "take_bounded f c fl v = Inr x"
  then show "unat fl \<le> unat x \<and> unat x \<le> unat c \<and> takes (unat c) v (unat x)"
    using take_bounded_Inr [OF _ assms, of f v x] by (cases v) (auto simp: take_bounded_def)
next
  assume "unat fl \<le> unat x \<and> unat x \<le> unat c \<and> takes (unat c) v (unat x)"
  then show "take_bounded f c fl v = Inr x"
    using take_bounded_exact [OF assms(1), of fl x c f]
    by (cases v) (auto simp: take_bounded_def word_unat_eq_iff)
qed

lemma absolute_simps:
  "pl_max_control_message_bytes ABSOLUTE = 65536"
  "pl_max_clipboard_item_bytes ABSOLUTE = 1048576"
  "pl_max_encoded_access_unit_bytes ABSOLUTE = 16777216"
  "pl_max_dimension_pixels ABSOLUTE = 8192"
  "pl_max_coded_pixels ABSOLUTE = 16777216"
  "pl_reassembly_window_pictures ABSOLUTE = 12"
  "pl_per_viewer_compressed_bytes ABSOLUTE = 33554432"
  "pl_max_concurrent_handshakes ABSOLUTE = 64"
  "pl_max_handshake_duration_ms ABSOLUTE = 10000"
  "pl_max_preadmission_rate_per_sec ABSOLUTE = 100"
  "pl_max_half_attached_channels ABSOLUTE = 16"
  "pl_max_pending_approvals ABSOLUTE = 8"
  "pl_idle_session_timeout_seconds ABSOLUTE = 300"
  "pl_max_control_requests_per_sec ABSOLUTE = 200"
  "pl_max_codec_probes_per_min ABSOLUTE = 30"
  "pl_max_recovery_requests_per_sec ABSOLUTE = 120"
  "pl_max_cursor_uploads_per_sec ABSOLUTE = 60"
  "pl_max_diagnostic_exports_per_min ABSOLUTE = 10"
  "pl_max_decoder_reconfigurations_per_min ABSOLUTE = 30"
  "pl_max_worker_restarts_per_min ABSOLUTE = 10"
  "pl_max_cursor_dimension_pixels ABSOLUTE = 256"
  "pl_max_cursor_shape_bytes ABSOLUTE = 262144"
  "pl_max_name_bytes ABSOLUTE = 256"
  "pl_max_parameter_set_bytes ABSOLUTE = 65536"
  "pl_max_fragments_per_access_unit ABSOLUTE = 4096"
  "pl_max_retained_receipts ABSOLUTE = 1024"
  "pl_max_encoder_sessions ABSOLUTE = 4"
  "pl_max_gpu_surfaces ABSOLUTE = 32"
  "pl_max_bandwidth_bps ABSOLUTE = 1000000000"
  "pl_max_viewers ABSOLUTE = 3"
  by (simp_all add: ABSOLUTE_def REASSEMBLY_WINDOW_CEILING_def)

text \<open>The hand-written matches of \<open>resolve_session_overrides\<close> have the same meaning.\<close>

lemma match_bounded_iff:
  fixes c d fl x :: "'a::len word"
  assumes "d = c" "unat fl \<le> unat c"
  shows "(case v of None \<Rightarrow> Inr d
          | Some n \<Rightarrow> if c < n then Inl (high n) else if n < fl then Inl (low n) else Inr n) = Inr x \<longleftrightarrow>
    unat fl \<le> unat x \<and> unat x \<le> unat c \<and> takes (unat c) (map_option unat v) (unat x)"
  using assms by (cases v) (auto simp: word_less_nat_alt word_unat_eq_iff)

lemma match_nonzero_iff:
  fixes c d x :: "'a::len word"
  assumes "d = c" "1 \<le> unat c"
  shows "(case v of None \<Rightarrow> Inr d
          | Some n \<Rightarrow> if c < n then Inl (high n) else if n = 0 then Inl zero else Inr n) = Inr x \<longleftrightarrow>
    1 \<le> unat x \<and> unat x \<le> unat c \<and> takes (unat c) (map_option unat v) (unat x)"
  using assms
  by (cases v) (auto simp: word_less_nat_alt word_unat_eq_iff Suc_le_eq neq0_conv [symmetric] simp del: neq0_conv)

lemma resolve_session_iff:
  "resolve_session_overrides ov ABSOLUTE = Inr s \<longleftrightarrow>
     1 \<le> unat (so_max_control_message_bytes s) \<and> unat (so_max_control_message_bytes s) \<le> 65536 \<and> takes 65536 (map_option unat (lo_max_control_message_bytes ov)) (unat (so_max_control_message_bytes s))
     \<and> 1 \<le> unat (so_max_clipboard_item_bytes s) \<and> unat (so_max_clipboard_item_bytes s) \<le> 1048576 \<and> takes 1048576 (map_option unat (lo_max_clipboard_item_bytes ov)) (unat (so_max_clipboard_item_bytes s))
     \<and> 1 \<le> unat (so_max_encoded_access_unit_bytes s) \<and> unat (so_max_encoded_access_unit_bytes s) \<le> 16777216 \<and> takes 16777216 (map_option unat (lo_max_encoded_access_unit_bytes ov)) (unat (so_max_encoded_access_unit_bytes s))
     \<and> 1 \<le> unat (so_max_dimension_pixels s) \<and> unat (so_max_dimension_pixels s) \<le> 8192 \<and> takes 8192 (map_option unat (lo_max_dimension_pixels ov)) (unat (so_max_dimension_pixels s))
     \<and> 1 \<le> unat (so_max_coded_pixels s) \<and> unat (so_max_coded_pixels s) \<le> 16777216 \<and> takes 16777216 (map_option unat (lo_max_coded_pixels ov)) (unat (so_max_coded_pixels s))
     \<and> 2 \<le> unat (so_reassembly_window_pictures s) \<and> unat (so_reassembly_window_pictures s) \<le> 12 \<and> takes 12 (map_option unat (lo_reassembly_window_pictures ov)) (unat (so_reassembly_window_pictures s))
     \<and> unat (so_max_encoded_access_unit_bytes s) \<le> unat (so_per_viewer_compressed_bytes s) \<and> unat (so_per_viewer_compressed_bytes s) \<le> 33554432 \<and> takes 33554432 (map_option unat (lo_per_viewer_compressed_bytes ov)) (unat (so_per_viewer_compressed_bytes s))"
  by (cases s)
    (auto simp: resolve_session_overrides_def try_res_Inr_iff absolute_simps take_bounded_Inr_iff
      REASSEMBLY_WINDOW_CEILING_def REASSEMBLY_WINDOW_FLOOR_def unat_ucast_up
      match_bounded_iff match_nonzero_iff)

lemma resolve_rate_iff:
  "resolve_rate_overrides ov ABSOLUTE = Inr s \<longleftrightarrow>
     1 \<le> unat (ra_max_concurrent_handshakes s) \<and> unat (ra_max_concurrent_handshakes s) \<le> 64 \<and> takes 64 (map_option unat (lo_max_concurrent_handshakes ov)) (unat (ra_max_concurrent_handshakes s))
     \<and> 1000 \<le> unat (ra_max_handshake_duration_ms s) \<and> unat (ra_max_handshake_duration_ms s) \<le> 10000 \<and> takes 10000 (map_option unat (lo_max_handshake_duration_ms ov)) (unat (ra_max_handshake_duration_ms s))
     \<and> 1 \<le> unat (ra_max_preadmission_rate_per_sec s) \<and> unat (ra_max_preadmission_rate_per_sec s) \<le> 100 \<and> takes 100 (map_option unat (lo_max_preadmission_rate_per_sec ov)) (unat (ra_max_preadmission_rate_per_sec s))
     \<and> 1 \<le> unat (ra_max_half_attached_channels s) \<and> unat (ra_max_half_attached_channels s) \<le> 16 \<and> takes 16 (map_option unat (lo_max_half_attached_channels ov)) (unat (ra_max_half_attached_channels s))
     \<and> 1 \<le> unat (ra_max_pending_approvals s) \<and> unat (ra_max_pending_approvals s) \<le> 8 \<and> takes 8 (map_option unat (lo_max_pending_approvals ov)) (unat (ra_max_pending_approvals s))
     \<and> 10 \<le> unat (ra_idle_session_timeout_seconds s) \<and> unat (ra_idle_session_timeout_seconds s) \<le> 300 \<and> takes 300 (map_option unat (lo_idle_session_timeout_seconds ov)) (unat (ra_idle_session_timeout_seconds s))
     \<and> 10 \<le> unat (ra_max_control_requests_per_sec s) \<and> unat (ra_max_control_requests_per_sec s) \<le> 200 \<and> takes 200 (map_option unat (lo_max_control_requests_per_sec ov)) (unat (ra_max_control_requests_per_sec s))
     \<and> 1 \<le> unat (ra_max_codec_probes_per_min s) \<and> unat (ra_max_codec_probes_per_min s) \<le> 30 \<and> takes 30 (map_option unat (lo_max_codec_probes_per_min ov)) (unat (ra_max_codec_probes_per_min s))
     \<and> 10 \<le> unat (ra_max_recovery_requests_per_sec s) \<and> unat (ra_max_recovery_requests_per_sec s) \<le> 120 \<and> takes 120 (map_option unat (lo_max_recovery_requests_per_sec ov)) (unat (ra_max_recovery_requests_per_sec s))
     \<and> 1 \<le> unat (ra_max_cursor_uploads_per_sec s) \<and> unat (ra_max_cursor_uploads_per_sec s) \<le> 60 \<and> takes 60 (map_option unat (lo_max_cursor_uploads_per_sec ov)) (unat (ra_max_cursor_uploads_per_sec s))
     \<and> 1 \<le> unat (ra_max_diagnostic_exports_per_min s) \<and> unat (ra_max_diagnostic_exports_per_min s) \<le> 10 \<and> takes 10 (map_option unat (lo_max_diagnostic_exports_per_min ov)) (unat (ra_max_diagnostic_exports_per_min s))
     \<and> 1 \<le> unat (ra_max_decoder_reconfigurations_per_min s) \<and> unat (ra_max_decoder_reconfigurations_per_min s) \<le> 30 \<and> takes 30 (map_option unat (lo_max_decoder_reconfigurations_per_min ov)) (unat (ra_max_decoder_reconfigurations_per_min s))
     \<and> 1 \<le> unat (ra_max_worker_restarts_per_min s) \<and> unat (ra_max_worker_restarts_per_min s) \<le> 10 \<and> takes 10 (map_option unat (lo_max_worker_restarts_per_min ov)) (unat (ra_max_worker_restarts_per_min s))"
  by (cases s) (auto simp: resolve_rate_overrides_def try_res_Inr_iff absolute_simps take_bounded_Inr_iff)

lemma resolve_resource_iff:
  "resolve_resource_overrides ov ABSOLUTE = Inr s \<longleftrightarrow>
     16 \<le> unat (rs_max_cursor_dimension_pixels s) \<and> unat (rs_max_cursor_dimension_pixels s) \<le> 256 \<and> takes 256 (map_option unat (lo_max_cursor_dimension_pixels ov)) (unat (rs_max_cursor_dimension_pixels s))
     \<and> 1024 \<le> unat (rs_max_cursor_shape_bytes s) \<and> unat (rs_max_cursor_shape_bytes s) \<le> 262144 \<and> takes 262144 (map_option unat (lo_max_cursor_shape_bytes ov)) (unat (rs_max_cursor_shape_bytes s))
     \<and> 1 \<le> unat (rs_max_name_bytes s) \<and> unat (rs_max_name_bytes s) \<le> 256 \<and> takes 256 (lo_max_name_bytes ov) (unat (rs_max_name_bytes s))
     \<and> 32 \<le> unat (rs_max_parameter_set_bytes s) \<and> unat (rs_max_parameter_set_bytes s) \<le> 65536 \<and> takes 65536 (map_option unat (lo_max_parameter_set_bytes ov)) (unat (rs_max_parameter_set_bytes s))
     \<and> 1 \<le> unat (rs_max_fragments_per_access_unit s) \<and> unat (rs_max_fragments_per_access_unit s) \<le> 4096 \<and> takes 4096 (map_option unat (lo_max_fragments_per_access_unit ov)) (unat (rs_max_fragments_per_access_unit s))
     \<and> 16 \<le> unat (rs_max_retained_receipts s) \<and> unat (rs_max_retained_receipts s) \<le> 1024 \<and> takes 1024 (lo_max_retained_receipts ov) (unat (rs_max_retained_receipts s))
     \<and> 1 \<le> unat (rs_max_encoder_sessions s) \<and> unat (rs_max_encoder_sessions s) \<le> 4 \<and> takes 4 (map_option unat (lo_max_encoder_sessions ov)) (unat (rs_max_encoder_sessions s))
     \<and> 2 \<le> unat (rs_max_gpu_surfaces s) \<and> unat (rs_max_gpu_surfaces s) \<le> 32 \<and> takes 32 (map_option unat (lo_max_gpu_surfaces ov)) (unat (rs_max_gpu_surfaces s))
     \<and> 1000000 \<le> unat (rs_max_bandwidth_bps s) \<and> unat (rs_max_bandwidth_bps s) \<le> 1000000000 \<and> takes 1000000000 (map_option unat (lo_max_bandwidth_bps ov)) (unat (rs_max_bandwidth_bps s))
     \<and> 1 \<le> unat (rs_max_viewers s) \<and> unat (rs_max_viewers s) \<le> 3 \<and> takes 3 (map_option unat (lo_max_viewers ov)) (unat (rs_max_viewers s))"
  by (cases s) (auto simp: resolve_resource_overrides_def try_res_Inr_iff absolute_simps take_bounded_Inr_iff)

lemma unat_min: "unat (min a b) = min (unat a) (unat (b :: 'a::len word))"
  by (simp add: min_def word_le_nat_alt)

lemma limits_valid_simps:
  "limits_valid l \<longleftrightarrow> list_all2 (\<le>) limit_floors (limit_values l) \<and> list_all2 (\<le>) (limit_values l)
     [65536, 1048576, 16777216, 8192, 16777216, 12, 33554432, 64, 10000, 100, 16, 8, 300, 200, 30, 120, 60,
      10, 30, 10, 256, 262144, 256, 65536, 4096, 1024, 4, 32, 1000000000, 3]
     \<and> unat (pl_max_encoded_access_unit_bytes l) \<le> unat (pl_per_viewer_compressed_bytes l)"
  by (simp add: limits_valid_def limits_le_def limit_values_def absolute_simps)

definition session_part :: "ProtocolLimits \<Rightarrow> SessionOverrides" where
  "session_part l =
     \<lparr>so_max_control_message_bytes = pl_max_control_message_bytes l,
      so_max_clipboard_item_bytes = pl_max_clipboard_item_bytes l,
      so_max_encoded_access_unit_bytes = pl_max_encoded_access_unit_bytes l,
      so_max_dimension_pixels = pl_max_dimension_pixels l,
      so_max_coded_pixels = pl_max_coded_pixels l,
      so_reassembly_window_pictures = pl_reassembly_window_pictures l,
      so_per_viewer_compressed_bytes = pl_per_viewer_compressed_bytes l\<rparr>"

definition rate_part :: "ProtocolLimits \<Rightarrow> RateOverrides" where
  "rate_part l =
     \<lparr>ra_max_concurrent_handshakes = pl_max_concurrent_handshakes l,
      ra_max_handshake_duration_ms = pl_max_handshake_duration_ms l,
      ra_max_preadmission_rate_per_sec = pl_max_preadmission_rate_per_sec l,
      ra_max_half_attached_channels = pl_max_half_attached_channels l,
      ra_max_pending_approvals = pl_max_pending_approvals l,
      ra_idle_session_timeout_seconds = pl_idle_session_timeout_seconds l,
      ra_max_control_requests_per_sec = pl_max_control_requests_per_sec l,
      ra_max_codec_probes_per_min = pl_max_codec_probes_per_min l,
      ra_max_recovery_requests_per_sec = pl_max_recovery_requests_per_sec l,
      ra_max_cursor_uploads_per_sec = pl_max_cursor_uploads_per_sec l,
      ra_max_diagnostic_exports_per_min = pl_max_diagnostic_exports_per_min l,
      ra_max_decoder_reconfigurations_per_min = pl_max_decoder_reconfigurations_per_min l,
      ra_max_worker_restarts_per_min = pl_max_worker_restarts_per_min l\<rparr>"

definition resource_part :: "ProtocolLimits \<Rightarrow> ResourceOverrides" where
  "resource_part l =
     \<lparr>rs_max_cursor_dimension_pixels = pl_max_cursor_dimension_pixels l,
      rs_max_cursor_shape_bytes = pl_max_cursor_shape_bytes l,
      rs_max_name_bytes = pl_max_name_bytes l,
      rs_max_parameter_set_bytes = pl_max_parameter_set_bytes l,
      rs_max_fragments_per_access_unit = pl_max_fragments_per_access_unit l,
      rs_max_retained_receipts = pl_max_retained_receipts l,
      rs_max_encoder_sessions = pl_max_encoder_sessions l,
      rs_max_gpu_surfaces = pl_max_gpu_surfaces l,
      rs_max_bandwidth_bps = pl_max_bandwidth_bps l,
      rs_max_viewers = pl_max_viewers l\<rparr>"

lemma with_overrides_parts:
  "with_overrides ov = Inr l \<longleftrightarrow>
     resolve_session_overrides ov ABSOLUTE = Inr (session_part l)
     \<and> resolve_rate_overrides ov ABSOLUTE = Inr (rate_part l)
     \<and> resolve_resource_overrides ov ABSOLUTE = Inr (resource_part l)"
  by (auto simp: with_overrides_def try_res_Inr_iff session_part_def rate_part_def resource_part_def)

lemma with_overrides_iff:
  "with_overrides ov = Inr l \<longleftrightarrow> limits_valid l \<and> agrees ov l"
  by (simp add: with_overrides_parts resolve_session_iff resolve_rate_iff resolve_resource_iff
      session_part_def rate_part_def resource_part_def limits_valid_simps limit_floors_def limit_values_def
      agrees_def override_values_def absolute_simps) auto

text \<open>
  C26. A configuration of overrides is accepted exactly when it only lowers: the limits it
  yields are the ceilings with the named fields replaced by the named values, every field is
  at least its floor and at most its absolute ceiling, and a viewer's budget holds one access
  unit of the size chosen. Nothing is clamped.
\<close>

theorem overrides_only_lower:
  "with_overrides ov = Inr l \<longleftrightarrow> limits_valid l \<and> agrees ov l"
  by (rule with_overrides_iff)

definition example_limits :: ProtocolLimits where
  "example_limits = ABSOLUTE
     \<lparr>pl_max_control_message_bytes := 16384, pl_max_encoded_access_unit_bytes := 1048576,
      pl_reassembly_window_pictures := 4, pl_per_viewer_compressed_bytes := 2097152,
      pl_max_name_bytes := 64\<rparr>"

lemma limits_valid_absolute: "limits_valid ABSOLUTE"
  by (simp add: limits_valid_simps limit_floors_def limit_values_def absolute_simps)

lemma limits_valid_example: "limits_valid example_limits"
  by (simp add: limits_valid_simps limit_floors_def limit_values_def absolute_simps example_limits_def)

lemma all_le_map2_min:
  "length as = length bs \<Longrightarrow>
     list_all2 (\<le>) cs (map2 min as bs) \<longleftrightarrow> list_all2 (\<le>) cs as \<and> list_all2 (\<le>) cs (bs :: nat list)"
  by (induction as bs arbitrary: cs rule: list_induct2) (auto simp: list_all2_Cons2)

lemma length_limit_values [simp]: "length (limit_values l) = 30"
  by (simp add: limit_values_def)

lemma limit_values_negotiated:
  "limit_values (negotiated a b) = map2 min (limit_values a) (limit_values b)"
  by (simp add: limit_values_def negotiated_def unat_min)

lemma limits_le_refl [simp]: "limits_le a a"
  by (simp add: limits_le_def list.rel_refl)

lemma limits_le_trans: "limits_le a b \<Longrightarrow> limits_le b c \<Longrightarrow> limits_le a c"
  unfolding limits_le_def by (rule list_all2_trans [of "(\<le>)"]) simp_all

text \<open>
  C27. Two peers with valid limits negotiate valid limits without checking them again: the
  field-wise minimum is the greatest limit set below both, whichever side computes it.
\<close>

theorem negotiation_is_the_greatest_common_limit:
  assumes "limits_valid a" and "limits_valid b"
  shows "limits_valid (negotiated a b)
    \<and> (\<forall>c. limits_le c (negotiated a b) \<longleftrightarrow> limits_le c a \<and> limits_le c b)
    \<and> negotiated a b = negotiated b a"
proof -
  have le: "limits_le c (negotiated a b) \<longleftrightarrow> limits_le c a \<and> limits_le c b" for c
    by (simp add: limits_le_def limit_values_negotiated all_le_map2_min)
  have "list_all2 (\<le>) limit_floors (limit_values (negotiated a b))"
    using assms by (simp add: limits_valid_def limit_values_negotiated all_le_map2_min)
  moreover have "limits_le (negotiated a b) ABSOLUTE"
    using assms(1) le [of "negotiated a b"] limits_le_trans by (auto simp: limits_valid_def)
  moreover have "unat (pl_max_encoded_access_unit_bytes (negotiated a b))
      \<le> unat (pl_per_viewer_compressed_bytes (negotiated a b))"
    using assms by (auto simp: limits_valid_def negotiated_def unat_min min_le_iff_disj)
  moreover have "negotiated a b = negotiated b a" by (simp add: negotiated_def min.commute)
  ultimately show ?thesis using le unfolding limits_valid_def by blast
qed

theorem negotiation_is_the_greatest_common_limit_witness:
  "limits_valid ABSOLUTE \<and> limits_valid example_limits
   \<and> limits_le example_limits (negotiated ABSOLUTE example_limits)
   \<and> limits_valid (negotiated ABSOLUTE example_limits)"
proof -
  have "limits_le example_limits ABSOLUTE" "limits_le example_limits example_limits"
    by (simp_all add: limits_le_def limit_values_def example_limits_def absolute_simps)
  then show ?thesis
    using negotiation_is_the_greatest_common_limit [OF limits_valid_absolute limits_valid_example]
      limits_valid_absolute limits_valid_example by blast
qed

lemma power_of_two_pos: "is_power_of_two n \<Longrightarrow> 0 < unat n"
  by (auto simp: is_power_of_two_def unat_gt_0)

lemma coded_dimensions_iff:
  "validate_coded_dimensions l width height = Inr () \<longleftrightarrow>
     0 < unat width \<and> 0 < unat height \<and> unat width \<le> unat (pl_max_dimension_pixels l)
     \<and> unat height \<le> unat (pl_max_dimension_pixels l) \<and> unat width * unat height \<le> unat (pl_max_coded_pixels l)"
proof -
  have "unat width * unat height < 2 ^ 32 * 2 ^ 32"
    using unat_word_less [of width] unat_word_less [of height] by (intro mult_strict_mono) simp_all
  then have "unat ((ucast width :: u64) * ucast height) = unat width * unat height"
    by (simp add: unat_word_ariths unat_ucast_up)
  then show ?thesis
    by (auto simp: validate_coded_dimensions_def Let_def word_less_nat_alt word_unat_eq_iff not_less)
qed

lemma checked_mul_fits:
  fixes a b :: "'a::len word"
  assumes "unat a * unat b < 2 ^ LENGTH('a)"
  obtains c where "checked_mul a b = Some c" "unat c = unat a * unat b"
  using assms by (auto simp: checked_mul_def unat_word_ariths intro: that)

lemma checked_add_fits:
  fixes a b :: "'a::len word"
  assumes "unat a + unat b < 2 ^ LENGTH('a)"
  obtains c where "checked_add a b = Some c" "unat c = unat a + unat b"
  using assms by (auto simp: checked_add_def unat_word_ariths intro: that)

lemma surface_bytes_compute:
  fixes w h b r :: u32
  assumes "unat w \<le> 8192" "unat h \<le> 8192" "unat b \<le> 16" "0 < unat r"
  obtains row padded total :: u64
  where "checked_mul (ucast w) (ucast b) = Some row" "checked_add row (ucast r - 1) = Some padded"
    "checked_mul (padded div ucast r * ucast r) (ucast h) = Some total"
    "unat total = (unat w * unat b + unat r - 1) div unat r * unat r * unat h"
proof -
  let ?s = "(unat w * unat b + unat r - 1) div unat r * unat r"
  have wb: "unat w * unat b \<le> 8192 * 16" using assms by (intro mult_mono) simp_all
  have r: "unat r < 2 ^ 32" using unat_word_less [of r] by simp
  have s: "?s \<le> unat w * unat b + unat r - 1" by (rule div_times_less_eq_dividend)
  then have s': "?s \<le> 8192 * 16 + 2 ^ 32" using wb r by linarith
  have ur: "unat (ucast r - 1 :: u64) = unat r - 1"
    using assms(4) by (simp add: unat_ucast_up unat_sub word_le_nat_alt)
  have "unat (ucast w :: u64) * unat (ucast b :: u64) < 2 ^ LENGTH(64)"
    using wb by (simp add: unat_ucast_up)
  then obtain row :: u64 where row: "checked_mul (ucast w) (ucast b) = Some row" "unat row = unat w * unat b"
    by (rule checked_mul_fits) (simp add: unat_ucast_up)
  have "unat row + unat (ucast r - 1 :: u64) < 2 ^ LENGTH(64)" using row(2) ur wb r by simp
  then obtain padded :: u64 where pad: "checked_add row (ucast r - 1) = Some padded"
    "unat padded = unat w * unat b + unat r - 1"
    using row(2) ur assms(4) by (elim checked_add_fits) simp
  have "unat (padded div ucast r :: u64) = (unat w * unat b + unat r - 1) div unat r"
    using pad(2) by (simp add: unat_div unat_ucast_up)
  then have su: "unat (padded div ucast r * ucast r :: u64) = ?s"
    using s' by (simp add: unat_word_ariths(2) unat_ucast_up)
  have "?s * unat h \<le> (8192 * 16 + 2 ^ 32) * 8192" using s' assms(2) by (rule mult_le_mono)
  then have "unat (padded div ucast r * ucast r :: u64) * unat (ucast h :: u64) < 2 ^ LENGTH(64)"
    unfolding su by (simp add: unat_ucast_up)
  then obtain total :: u64 where "checked_mul (padded div ucast r * ucast r) (ucast h) = Some total"
    "unat total = ?s * unat h"
    by (rule checked_mul_fits) (simp add: su unat_ucast_up)
  with row pad show ?thesis by (intro that)
qed

text \<open>
  The size computed for a surface is exact: for valid limits the checked arithmetic
  never reports an overflow, and a size is returned exactly for coded dimensions within the
  limits, one to sixteen bytes per pixel and a power-of-two row alignment. It is the padded
  row, the least multiple of the alignment that holds the row, times the height.
\<close>

theorem surface_bytes_are_exact:
  assumes "limits_valid l"
  shows "checked_surface_bytes l w h b r \<noteq> Inl SizeOverflow \<and> (checked_surface_bytes l w h b r = Inr n \<longleftrightarrow>
      validate_coded_dimensions l w h = Inr () \<and> 1 \<le> unat b \<and> unat b \<le> 16 \<and> is_power_of_two r
      \<and> unat n = (unat w * unat b + unat r - 1) div unat r * unat r * unat h)"
proof -
  have dims: "validate_coded_dimensions l w h = Inr () \<Longrightarrow> unat w \<le> 8192 \<and> unat h \<le> 8192"
    using assms by (auto simp: coded_dimensions_iff limits_valid_simps limit_values_def)
  consider e where "validate_coded_dimensions l w h = Inl e"
    | "validate_coded_dimensions l w h = Inr ()" "\<not> (1 \<le> unat b \<and> unat b \<le> 16 \<and> is_power_of_two r)"
    | "validate_coded_dimensions l w h = Inr ()" "1 \<le> unat b" "unat b \<le> 16" "is_power_of_two r"
    by (cases "validate_coded_dimensions l w h") auto
  then show ?thesis
  proof cases
    case 1
    then have "e \<noteq> SizeOverflow" by (auto simp: validate_coded_dimensions_def Let_def split: if_splits)
    with 1 show ?thesis by (simp add: checked_surface_bytes_def)
  next
    case 2
    then show ?thesis by (auto simp: checked_surface_bytes_def word_le_nat_alt)
  next
    case 3
    then obtain row padded total where
      "checked_mul (ucast w) (ucast b) = Some (row :: u64)" "checked_add row (ucast r - 1) = Some padded"
      "checked_mul (padded div ucast r * ucast r) (ucast h) = Some total"
      "unat total = (unat w * unat b + unat r - 1) div unat r * unat r * unat h"
      using surface_bytes_compute [of w h b r] dims power_of_two_pos by metis
    with 3 power_of_two_pos [OF 3(4)] show ?thesis
      by (auto simp: checked_surface_bytes_def word_le_nat_alt word_unat_eq_iff)
  qed
qed

end
