(* ===== verification/Wire_Bytes.thy ===== *)
theory Wire_Bytes
  imports Limits
begin

text \<open>
  The byte layer of \<open>fr-wire/src/record.rs\<close>: its refusals, \<open>Reader\<close> (the slice that remains),
  \<open>Writer\<close> (a prefix of the caller's buffer and a position in it) and Rust's big-endian
  conversions. Every read and write is a function of that state, so what a failing call
  leaves behind is visible. The locale \<open>wire_field\<close> is the contract of one field: its writer
  appends a fixed layout, and its reader accepts exactly that layout.
\<close>

datatype WireError =
    Truncated | TrailingBytes | BadMagic | UnsupportedVersion | UnsupportedKind | InvalidFlags
  | InvalidBinding | WrongChannel | WrongRole | InvalidLimits | ResourceLimit | ArithmeticOverflow
  | InvalidValue | InvalidFragment | InvalidDependency | InvalidExtension | RequiredExtension
  | InvalidRanges | BufferTooSmall

section \<open>Big-endian bytes\<close>

definition to_be_bytes :: "'a::len word \<Rightarrow> byte list" where
  "to_be_bytes w = map (\<lambda>i. ucast (drop_bit (8 * i) w)) (rev [0..<LENGTH('a) div 8])"

definition from_be_bytes :: "byte list \<Rightarrow> 'a::len word" where
  "from_be_bytes bs = word_rcat bs"

lemma length_to_be_bytes [simp]: "length (to_be_bytes (w :: 'a::len word)) = LENGTH('a) div 8"
  by (simp add: to_be_bytes_def)

lemma bit_from_be_bytes:
  "bit (from_be_bytes bs :: 'a::len word) n \<longleftrightarrow>
     n < LENGTH('a) \<and> n div 8 < length bs \<and> bit (rev bs ! (n div 8)) (n mod 8)"
  using bit_horner_sum_uint_exp_iff [of "rev bs" n]
  by (simp add: from_be_bytes_def word_rcat_def bit_word_of_int_iff)

lemma from_to_be_bytes [simp]:
  assumes "8 dvd LENGTH('a)"
  shows "from_be_bytes (to_be_bytes (w :: 'a::len word)) = w"
  using assms
  by (intro bit_word_eqI)
    (auto simp: bit_from_be_bytes to_be_bytes_def rev_map bit_simps less_mult_imp_div_less)

lemma to_be_bytes_inject [simp]:
  assumes "8 dvd LENGTH('a)"
  shows "to_be_bytes v = to_be_bytes w \<longleftrightarrow> v = (w :: 'a::len word)"
  by (metis assms from_to_be_bytes)

lemma to_from_be_bytes:
  assumes "8 dvd LENGTH('a)" "length bs = LENGTH('a) div 8"
  shows "to_be_bytes (from_be_bytes bs :: 'a::len word) = bs"
proof (rule nth_equalityI)
  show "length (to_be_bytes (from_be_bytes bs :: 'a word)) = length bs" using assms by simp
  fix i
  assume "i < length (to_be_bytes (from_be_bytes bs :: 'a word))"
  then have i: "i < LENGTH('a) div 8" by simp
  then have "to_be_bytes (from_be_bytes bs :: 'a word) ! i
      = ucast (drop_bit (8 * (LENGTH('a) div 8 - Suc i)) (from_be_bytes bs :: 'a word))"
    by (simp add: to_be_bytes_def rev_nth)
  also have "\<dots> = bs ! i"
    using assms i
    by (intro bit_word_eqI) (auto simp: bit_from_be_bytes bit_simps rev_nth)
  finally show "to_be_bytes (from_be_bytes bs :: 'a word) ! i = bs ! i" .
qed

section \<open>Reader\<close>

definition reader_take :: "nat \<Rightarrow> byte list \<Rightarrow> (byte list, WireError, byte list) outcome" where
  "reader_take len r =
     (if len \<le> length r then (Inr (take len r), drop len r) else (Inl Truncated, r))"

definition reader_u8 :: "byte list \<Rightarrow> (byte list, WireError, u8) outcome" where
  "reader_u8 r = try_then (reader_take 1 r) (\<lambda>bytes r. (Inr (bytes ! 0), r))"

definition reader_u16 :: "byte list \<Rightarrow> (byte list, WireError, u16) outcome" where
  "reader_u16 r = try_then (reader_take 2 r) (\<lambda>bytes r. (Inr (from_be_bytes bytes), r))"

definition reader_u32 :: "byte list \<Rightarrow> (byte list, WireError, u32) outcome" where
  "reader_u32 r = try_then (reader_take 4 r) (\<lambda>bytes r. (Inr (from_be_bytes bytes), r))"

definition reader_u64 :: "byte list \<Rightarrow> (byte list, WireError, u64) outcome" where
  "reader_u64 r = try_then (reader_take 8 r) (\<lambda>bytes r. (Inr (from_be_bytes bytes), r))"

definition reader_optional_u64 :: "byte list \<Rightarrow> (byte list, WireError, u64 option) outcome" where
  "reader_optional_u64 r =
     try_then (reader_u8 r) (\<lambda>tag r.
       if tag = 0 then (Inr None, r)
       else if tag = 1 then try_then (reader_u64 r) (\<lambda>v r. (Inr (Some v), r))
       else (Inl InvalidValue, r))"

definition reader_data :: "byte list \<Rightarrow> (byte list, WireError, byte list) outcome" where
  "reader_data r = try_then (reader_u32 r) (\<lambda>len r. reader_take (unat len) r)"

definition reader_finish :: "byte list \<Rightarrow> WireError + unit" where
  "reader_finish r = (if r = [] then Inr () else Inl TrailingBytes)"

section \<open>Writer\<close>

text \<open>
  \<open>wr_out\<close> is the caller's whole buffer, \<open>wr_end\<close> the length of the slice of it the writer
  borrows. \<open>wr_position\<close> is the source's \<open>position\<close>.
\<close>

record Writer =
  wr_out :: "byte list"
  wr_end :: nat
  wr_position :: nat

definition writer_put :: "byte list \<Rightarrow> Writer \<Rightarrow> (Writer, WireError, unit) outcome" where
  "writer_put data w =
     (let stop = wr_position w + length data in
      if stop > usize_max then (Inl ArithmeticOverflow, w)
      else if stop > wr_end w then (Inl BufferTooSmall, w)
      else (Inr (), w\<lparr>wr_out := take (wr_position w) (wr_out w) @ data @ drop stop (wr_out w),
                      wr_position := stop\<rparr>))"

definition writer_u8 :: "u8 \<Rightarrow> Writer \<Rightarrow> (Writer, WireError, unit) outcome" where
  "writer_u8 v w = writer_put [v] w"

definition writer_u16 :: "u16 \<Rightarrow> Writer \<Rightarrow> (Writer, WireError, unit) outcome" where
  "writer_u16 v w = writer_put (to_be_bytes v) w"

definition writer_u32 :: "u32 \<Rightarrow> Writer \<Rightarrow> (Writer, WireError, unit) outcome" where
  "writer_u32 v w = writer_put (to_be_bytes v) w"

definition writer_u64 :: "u64 \<Rightarrow> Writer \<Rightarrow> (Writer, WireError, unit) outcome" where
  "writer_u64 v w = writer_put (to_be_bytes v) w"

definition writer_optional_u64 :: "u64 option \<Rightarrow> Writer \<Rightarrow> (Writer, WireError, unit) outcome" where
  "writer_optional_u64 v w =
     try_then (writer_u8 (of_bool (is_some v)) w) (\<lambda>_ w.
       case v of None \<Rightarrow> (Inr (), w) | Some value \<Rightarrow> writer_u64 value w)"

definition writer_data :: "byte list \<Rightarrow> Writer \<Rightarrow> (Writer, WireError, unit) outcome" where
  "writer_data data w =
     (if length data < 2 ^ 32
      then try_then (writer_u32 (of_nat (length data)) w) (\<lambda>_ w. writer_put data w)
      else (Inl ResourceLimit, w))"

definition writer_finish :: "Writer \<Rightarrow> WireError + nat" where
  "writer_finish w = (if wr_position w = wr_end w then Inr (wr_position w) else Inl InvalidValue)"

section \<open>Fields\<close>

text \<open>\<open>writes f bs\<close>: where there is room, \<open>f\<close> appends \<open>bs\<close> at the position and nothing else.\<close>

definition appended :: "byte list \<Rightarrow> Writer \<Rightarrow> Writer" where
  "appended bs w =
     w\<lparr>wr_out := take (wr_position w) (wr_out w) @ bs @ drop (wr_position w + length bs) (wr_out w),
       wr_position := wr_position w + length bs\<rparr>"

definition room :: "nat \<Rightarrow> Writer \<Rightarrow> bool" where
  "room n w \<longleftrightarrow> wr_position w + n \<le> wr_end w \<and> wr_end w \<le> length (wr_out w) \<and> wr_end w \<le> usize_max"

definition writes :: "(Writer \<Rightarrow> (Writer, 'e, unit) outcome) \<Rightarrow> byte list \<Rightarrow> bool" where
  "writes f bs \<longleftrightarrow> (\<forall>w. room (length bs) w \<longrightarrow> f w = (Inr (), appended bs w))"

lemma appended_appended: "room (length a + length b) w \<Longrightarrow> appended b (appended a w) = appended (a @ b) w"
  by (simp add: appended_def room_def ac_simps)

lemma room_appended: "room (length a + n) w \<Longrightarrow> room n (appended a w)"
  by (auto simp: appended_def room_def)

lemma room_less: "room n w \<Longrightarrow> m \<le> n \<Longrightarrow> room m w"
  by (simp add: room_def)

lemma writes_put: "writes (writer_put bs) bs"
  by (auto simp: writes_def writer_put_def appended_def room_def Let_def)

lemma writes_then:
  assumes "writes f a" "writes g b"
  shows "writes (\<lambda>w. try_then (f w) (\<lambda>_. g)) (a @ b)"
  unfolding writes_def
proof (intro allI impI)
  fix w
  assume w: "room (length (a @ b)) w"
  then have "room (length a) w" "room (length b) (appended a w)"
    by (auto intro: room_less room_appended)
  then show "try_then (f w) (\<lambda>_. g) = (Inr (), appended (a @ b) w)"
    using assms w by (simp add: writes_def appended_appended)
qed

lemma writes_none: "writes (\<lambda>w. (Inr (), w)) []"
  by (simp add: writes_def appended_def)

locale wire_field =
  fixes put :: "'a \<Rightarrow> Writer \<Rightarrow> (Writer, WireError, unit) outcome"
    and get :: "byte list \<Rightarrow> (byte list, WireError, 'a) outcome"
    and layout :: "'a \<Rightarrow> byte list" and ok :: "'a \<Rightarrow> bool"
  assumes put_writes: "ok v \<Longrightarrow> writes (put v) (layout v)"
    and get_iff: "get r = (Inr v, rest) \<longleftrightarrow> ok v \<and> r = layout v @ rest"
begin

lemma get_layout: "ok v \<Longrightarrow> get (layout v @ rest) = (Inr v, rest)"
  by (simp add: get_iff)

lemma self_delimiting:
  assumes "ok v" "ok u" "layout v @ r = layout u @ s"
  shows "v = u \<and> r = s"
proof -
  have "(Inr v, r) = get (layout v @ r)" by (rule get_layout [OF assms(1), symmetric])
  also have "\<dots> = (Inr u, s)" unfolding assms(3) by (rule get_layout [OF assms(2)])
  finally show ?thesis by simp
qed

end

lemma try_then_Inr_iff:
  "try_then r k = (Inr y, t) \<longleftrightarrow> (\<exists>x s. r = (Inr x, s) \<and> k x s = (Inr y, t))"
  by (cases r) (auto simp: try_then_def split: sum.splits)

lemma reader_take_iff: "reader_take n r = (Inr bs, rest) \<longleftrightarrow> r = bs @ rest \<and> length bs = n"
  by (auto simp: reader_take_def)

lemma unat_u32_less [simp]: "unat (x :: u32) < 4294967296"
  using unat_word_less [of x] by simp

lemma read_be_iff:
  assumes "8 dvd LENGTH('a)" "n = LENGTH('a) div 8"
  shows "try_then (reader_take n r) (\<lambda>bytes r. (Inr (from_be_bytes bytes), r)) = (Inr (v :: 'a::len word), rest)
    \<longleftrightarrow> r = to_be_bytes v @ rest"
  using assms by (auto simp: try_then_Inr_iff reader_take_iff to_from_be_bytes)

interpretation u8: wire_field writer_u8 reader_u8 "\<lambda>v. [v]" "\<lambda>_. True"
proof unfold_locales
  show "writes (writer_u8 v) [v]" for v
    using writes_put [of "[v]"] by (simp add: writes_def writer_u8_def)
  show "reader_u8 r = (Inr v, rest) \<longleftrightarrow> True \<and> r = [v] @ rest" for r v rest
    by (auto simp: reader_u8_def try_then_Inr_iff reader_take_iff length_Suc_conv)
qed

interpretation u16: wire_field writer_u16 reader_u16 to_be_bytes "\<lambda>_. True"
  by unfold_locales (simp_all add: reader_u16_def read_be_iff writes_put writer_u16_def [abs_def])

interpretation u32: wire_field writer_u32 reader_u32 to_be_bytes "\<lambda>_. True"
  by unfold_locales (simp_all add: reader_u32_def read_be_iff writes_put writer_u32_def [abs_def])

interpretation u64: wire_field writer_u64 reader_u64 to_be_bytes "\<lambda>_. True"
  by unfold_locales (simp_all add: reader_u64_def read_be_iff writes_put writer_u64_def [abs_def])

definition optional_layout :: "u64 option \<Rightarrow> byte list" where
  "optional_layout v = (case v of None \<Rightarrow> [0] | Some x \<Rightarrow> 1 # to_be_bytes x)"

interpretation optional_u64: wire_field writer_optional_u64 reader_optional_u64 optional_layout "\<lambda>_. True"
proof unfold_locales
  show "writes (writer_optional_u64 v) (optional_layout v)" for v
    using writes_then [OF u8.put_writes [of 0] writes_none]
      writes_then [OF u8.put_writes [of 1] u64.put_writes, of "the v"]
    by (cases v) (simp_all add: writer_optional_u64_def [abs_def] optional_layout_def)
  show "reader_optional_u64 r = (Inr v, rest) \<longleftrightarrow> True \<and> r = optional_layout v @ rest" for r v rest
    by (cases v) (auto simp: reader_optional_u64_def try_then_Inr_iff u8.get_iff u64.get_iff optional_layout_def
        intro: exI [of _ 0] exI [of _ 1] split: if_splits)
qed

definition data_layout :: "byte list \<Rightarrow> byte list" where
  "data_layout d = to_be_bytes (of_nat (length d) :: u32) @ d"

interpretation data: wire_field writer_data reader_data data_layout "\<lambda>d. length d < 2 ^ 32"
proof unfold_locales
  show "writes (writer_data d) (data_layout d)" if "length d < 2 ^ 32" for d
    using that writes_then [OF u32.put_writes writes_put, of "of_nat (length d)" d]
    by (simp add: writer_data_def [abs_def] data_layout_def)
  show "reader_data r = (Inr d, rest) \<longleftrightarrow> length d < 2 ^ 32 \<and> r = data_layout d @ rest" for r d rest
    by (auto simp: reader_data_def try_then_Inr_iff u32.get_iff reader_take_iff data_layout_def
        unat_of_nat_less intro: exI [of _ "of_nat (length d)"])
qed

section \<open>Codes of enumerations\<close>

text \<open>
  A \<open>match\<close> on a received number as the list of its arms. Where the arms agree with the
  enumeration's discriminants, the code is a field.
\<close>

definition reader_enum :: "(u8 \<times> 'a) list \<Rightarrow> byte list \<Rightarrow> (byte list, WireError, 'a) outcome" where
  "reader_enum arms r =
     try_then (reader_u8 r) (\<lambda>c r. (ok_or InvalidValue (map_of arms c), r))"

definition reader_enum16 :: "(u16 \<times> 'a) list \<Rightarrow> byte list \<Rightarrow> (byte list, WireError, 'a) outcome" where
  "reader_enum16 arms r =
     try_then (reader_u16 r) (\<lambda>c r. (ok_or InvalidValue (map_of arms c), r))"

locale enum_code =
  fixes code :: "'a \<Rightarrow> 'w::len word" and arms :: "('w word \<times> 'a) list"
  assumes arms_iff: "map_of arms c = Some v \<longleftrightarrow> c = code v"

locale enum8 = enum_code code arms for code :: "'a \<Rightarrow> u8" and arms

sublocale enum8 \<subseteq> field: wire_field "\<lambda>v. writer_u8 (code v)" "reader_enum arms" "\<lambda>v. [code v]" "\<lambda>_. True"
  by unfold_locales
    (auto simp: reader_enum_def try_then_Inr_iff u8.get_iff arms_iff intro: u8.put_writes)

locale enum16 = enum_code code arms for code :: "'a \<Rightarrow> u16" and arms

sublocale enum16 \<subseteq> field: wire_field "\<lambda>v. writer_u16 (code v)" "reader_enum16 arms" "\<lambda>v. to_be_bytes (code v)" "\<lambda>_. True"
  by unfold_locales
    (auto simp: reader_enum16_def try_then_Inr_iff u16.get_iff arms_iff intro: u16.put_writes)

lemma arms_iffI:
  assumes "\<And>v. map_of arms (code v) = Some v" and "list_all (\<lambda>(c, v). c = code v) arms"
  shows "map_of arms c = Some v \<longleftrightarrow> c = code v"
  using assms(1) [of v] assms(2) by (auto simp: list_all_iff dest: map_of_SomeD)

definition bool_code :: "bool \<Rightarrow> u8" where
  "bool_code b = of_bool b"

definition bool_arms :: "(u8 \<times> bool) list" where
  "bool_arms = [(0, False), (1, True)]"

interpretation boolean: enum8 bool_code bool_arms
  by unfold_locales (auto simp: bool_code_def bool_arms_def)

text \<open>Loops that write every element of an array.\<close>

fun writer_u64s :: "u64 list \<Rightarrow> Writer \<Rightarrow> (Writer, WireError, unit) outcome" where
  "writer_u64s [] w = (Inr (), w)"
| "writer_u64s (x # xs) w = try_then (writer_u64 x w) (\<lambda>_. writer_u64s xs)"

definition writer_u128 :: "u128 \<Rightarrow> Writer \<Rightarrow> (Writer, WireError, unit) outcome" where
  "writer_u128 v w = writer_put (to_be_bytes v) w"

fun writer_u128s :: "u128 list \<Rightarrow> Writer \<Rightarrow> (Writer, WireError, unit) outcome" where
  "writer_u128s [] w = (Inr (), w)"
| "writer_u128s (x # xs) w = try_then (writer_u128 x w) (\<lambda>_. writer_u128s xs)"

definition reader_u128 :: "byte list \<Rightarrow> (byte list, WireError, u128) outcome" where
  "reader_u128 r = try_then (reader_take 16 r) (\<lambda>bytes r. (Inr (from_be_bytes bytes), r))"

interpretation u128: wire_field writer_u128 reader_u128 to_be_bytes "\<lambda>_. True"
  by unfold_locales (simp_all add: reader_u128_def read_be_iff writes_put writer_u128_def [abs_def])

lemma writes_u64s: "writes (writer_u64s xs) (concat (map to_be_bytes xs))"
proof (induction xs)
  case Nil
  show ?case using writes_none by (simp add: writes_def)
next
  case (Cons x xs)
  show ?case using writes_then [OF u64.put_writes Cons.IH] by (simp add: writes_def)
qed

lemma writes_u128s: "writes (writer_u128s xs) (concat (map to_be_bytes xs))"
proof (induction xs)
  case Nil
  show ?case using writes_none by (simp add: writes_def)
next
  case (Cons x xs)
  show ?case using writes_then [OF u128.put_writes Cons.IH] by (simp add: writes_def)
qed

lemmas wire_writes = writes_then writes_put writes_none writes_u64s writes_u128s u8.put_writes u16.put_writes
  u32.put_writes u64.put_writes u128.put_writes optional_u64.put_writes data.put_writes boolean.field.put_writes

lemmas wire_reads = try_then_Inr_iff reader_take_iff u8.get_iff u16.get_iff u32.get_iff u64.get_iff u128.get_iff
  optional_u64.get_iff data.get_iff boolean.field.get_iff

end
