(* ===== verification/Wire_Record.thy ===== *)
theory Wire_Record
  imports Wire_Bytes
begin

text \<open>
  Record framing, \<open>fr-wire/src/record.rs\<close>: the kinds and their channels, the FRD0 header, the
  extension area that a decoder skips, and the selected limits of a media profile. A record
  is accepted exactly when it is the frame of its kind, binding, payload and a well-formed
  list of optional extensions. The locale \<open>message_codec\<close> is the contract between this layer
  and a message codec built on it.
\<close>

section \<open>Kinds\<close>

datatype (plugins only: size code) Kind =
    KClientHello
  | KHostCapabilities
  | KSelectedConfiguration
  | KRefused
  | KApprovalRequired
  | KSessionOpened
  | KControlRequest
  | KLeaseGranted
  | KLeaseRevoked
  | KChallenge
  | KChallengeResponse
  | KInputTicket
  | KChannelTicket
  | KChannelAttach
  | KChannelAttached
  | KStreamBinding
  | KBindingAccepted
  | KCloseRequest
  | KClosed
  | KDisplayCatalog
  | KSelectDisplay
  | KDecoderConfiguration
  | KDecoderConfigured
  | KRecovery
  | KFirstFrameDecoded
  | KFragment
  | KRepair
  | KRecoveryRequest
  | KProgress
  | KCursorShape
  | KCursorPosition
  | KKey
  | KButton
  | KPointer
  | KRelative
  | KScroll
  | KText
  | KHeldState
  | KInputMode
  | KInputResult
  | KClipboardBegin
  | KClipboardChunk
  | KClipboardCommit
  | KClipboardCancel
  | KClipboardReady
  | KAudioConfiguration
  | KAudioConfigured
  | KAudioPacket
  | KAudioStop
  | KFileOffer
  | KFileAccept
  | KFileChunk
  | KFileComplete
  | KFileCancel
  | KPresentedState
  | KStageMetrics
  | KQualityDecision
  | KClockProbe
  | KClockReply

primrec kind_code :: "Kind \<Rightarrow> u16" where
  "kind_code KClientHello = 0x0001"
| "kind_code KHostCapabilities = 0x0002"
| "kind_code KSelectedConfiguration = 0x0003"
| "kind_code KRefused = 0x0004"
| "kind_code KApprovalRequired = 0x0010"
| "kind_code KSessionOpened = 0x0011"
| "kind_code KControlRequest = 0x0012"
| "kind_code KLeaseGranted = 0x0013"
| "kind_code KLeaseRevoked = 0x0014"
| "kind_code KChallenge = 0x0015"
| "kind_code KChallengeResponse = 0x0016"
| "kind_code KInputTicket = 0x0017"
| "kind_code KChannelTicket = 0x0018"
| "kind_code KChannelAttach = 0x0019"
| "kind_code KChannelAttached = 0x001a"
| "kind_code KStreamBinding = 0x001b"
| "kind_code KBindingAccepted = 0x001c"
| "kind_code KCloseRequest = 0x001d"
| "kind_code KClosed = 0x001e"
| "kind_code KDisplayCatalog = 0x0020"
| "kind_code KSelectDisplay = 0x0022"
| "kind_code KDecoderConfiguration = 0x0030"
| "kind_code KDecoderConfigured = 0x0031"
| "kind_code KRecovery = 0x0032"
| "kind_code KFirstFrameDecoded = 0x0033"
| "kind_code KFragment = 0x0034"
| "kind_code KRepair = 0x0035"
| "kind_code KRecoveryRequest = 0x0036"
| "kind_code KProgress = 0x0037"
| "kind_code KCursorShape = 0x0038"
| "kind_code KCursorPosition = 0x0039"
| "kind_code KKey = 0x0040"
| "kind_code KButton = 0x0041"
| "kind_code KPointer = 0x0042"
| "kind_code KRelative = 0x0043"
| "kind_code KScroll = 0x0044"
| "kind_code KText = 0x0045"
| "kind_code KHeldState = 0x0046"
| "kind_code KInputMode = 0x0047"
| "kind_code KInputResult = 0x0048"
| "kind_code KClipboardBegin = 0x0050"
| "kind_code KClipboardChunk = 0x0051"
| "kind_code KClipboardCommit = 0x0052"
| "kind_code KClipboardCancel = 0x0053"
| "kind_code KClipboardReady = 0x0054"
| "kind_code KAudioConfiguration = 0x0060"
| "kind_code KAudioConfigured = 0x0061"
| "kind_code KAudioPacket = 0x0062"
| "kind_code KAudioStop = 0x0063"
| "kind_code KFileOffer = 0x0070"
| "kind_code KFileAccept = 0x0071"
| "kind_code KFileChunk = 0x0072"
| "kind_code KFileComplete = 0x0073"
| "kind_code KFileCancel = 0x0074"
| "kind_code KPresentedState = 0x0080"
| "kind_code KStageMetrics = 0x0082"
| "kind_code KQualityDecision = 0x0083"
| "kind_code KClockProbe = 0x0084"
| "kind_code KClockReply = 0x0085"

definition kind_table :: "(u16 \<times> Kind) list" where
  "kind_table =
     [(0x0001, KClientHello),
      (0x0002, KHostCapabilities),
      (0x0003, KSelectedConfiguration),
      (0x0004, KRefused),
      (0x0010, KApprovalRequired),
      (0x0011, KSessionOpened),
      (0x0012, KControlRequest),
      (0x0013, KLeaseGranted),
      (0x0014, KLeaseRevoked),
      (0x0015, KChallenge),
      (0x0016, KChallengeResponse),
      (0x0017, KInputTicket),
      (0x0018, KChannelTicket),
      (0x0019, KChannelAttach),
      (0x001a, KChannelAttached),
      (0x001b, KStreamBinding),
      (0x001c, KBindingAccepted),
      (0x001d, KCloseRequest),
      (0x001e, KClosed),
      (0x0020, KDisplayCatalog),
      (0x0022, KSelectDisplay),
      (0x0030, KDecoderConfiguration),
      (0x0031, KDecoderConfigured),
      (0x0032, KRecovery),
      (0x0033, KFirstFrameDecoded),
      (0x0034, KFragment),
      (0x0035, KRepair),
      (0x0036, KRecoveryRequest),
      (0x0037, KProgress),
      (0x0038, KCursorShape),
      (0x0039, KCursorPosition),
      (0x0040, KKey),
      (0x0041, KButton),
      (0x0042, KPointer),
      (0x0043, KRelative),
      (0x0044, KScroll),
      (0x0045, KText),
      (0x0046, KHeldState),
      (0x0047, KInputMode),
      (0x0048, KInputResult),
      (0x0050, KClipboardBegin),
      (0x0051, KClipboardChunk),
      (0x0052, KClipboardCommit),
      (0x0053, KClipboardCancel),
      (0x0054, KClipboardReady),
      (0x0060, KAudioConfiguration),
      (0x0061, KAudioConfigured),
      (0x0062, KAudioPacket),
      (0x0063, KAudioStop),
      (0x0070, KFileOffer),
      (0x0071, KFileAccept),
      (0x0072, KFileChunk),
      (0x0073, KFileComplete),
      (0x0074, KFileCancel),
      (0x0080, KPresentedState),
      (0x0082, KStageMetrics),
      (0x0083, KQualityDecision),
      (0x0084, KClockProbe),
      (0x0085, KClockReply)]"

definition kind_parse :: "u16 \<Rightarrow> WireError + Kind" where
  "kind_parse value = ok_or UnsupportedKind (map_of kind_table value)"

definition kind_initial :: "Kind \<Rightarrow> bool" where
  "kind_initial k \<longleftrightarrow> k \<in> {KClientHello, KHostCapabilities, KSelectedConfiguration, KRefused,
     KApprovalRequired, KSessionOpened}"

datatype Channel = Video | Recovery | Control | MediaConfig

definition kind_channel :: "Kind \<Rightarrow> Channel option" where
  "kind_channel k =
     (if k = KRecovery then Some Recovery
      else if k \<in> {KFragment, KCursorPosition} then Some Video
      else if k = KRepair then Some Control
      else if k \<in> {KProgress, KDecoderConfiguration, KDecoderConfigured, KFirstFrameDecoded, KCursorShape}
      then Some MediaConfig
      else None)"

lemma kind_parse_code [simp]: "kind_parse (kind_code k) = Inr k"
  by (cases k) (simp_all add: kind_parse_def kind_table_def)

lemma kind_table_codes: "(v, k) \<in> set kind_table \<Longrightarrow> v = kind_code k"
  by (auto simp: kind_table_def)

lemma kind_parse_iff: "kind_parse v = Inr k \<longleftrightarrow> v = kind_code k"
  using kind_parse_code [of k] by (auto simp: kind_parse_def dest: map_of_SomeD kind_table_codes simp del: kind_parse_code)

section \<open>Extensions\<close>

lemma try_then_cong [fundef_cong]:
  assumes "r = r'" and "\<And>x s. r' = (Inr x, s) \<Longrightarrow> k x s = k' x s"
  shows "try_then r k = try_then r' k'"
  using assms by (cases r') (auto simp: try_then_def split: sum.split)

function extension_loop :: "u16 \<Rightarrow> u16 option \<Rightarrow> byte list \<Rightarrow> (byte list, WireError, unit) outcome" where
  "extension_loop count previous r =
     (if r = [] then (Inr (), r)
      else if count + 1 > 128 then (Inl ResourceLimit, r)
      else
        try_then (reader_u16 r) (\<lambda>tag r.
        try_then (reader_u16 r) (\<lambda>flags r.
        try_then (reader_u32 r) (\<lambda>len r.
        if is_some_and (\<lambda>p. tag \<le> p) previous \<or> flags AND NOT 1 \<noteq> 0 then (Inl InvalidExtension, r)
        else
          try_then (reader_take (unat len) r) (\<lambda>_ r.
          if flags AND 1 \<noteq> 0 then (Inl RequiredExtension, r)
          else extension_loop (count + 1) (Some tag) r)))))"
  by auto

termination
  by (relation "measure (\<lambda>(count, previous, r). length r)")
    (auto simp: u16.get_iff u32.get_iff reader_take_iff)

declare extension_loop.simps [simp del]

definition validate_extensions :: "byte list \<Rightarrow> WireError + unit" where
  "validate_extensions bytes = fst (extension_loop 0 None bytes)"

text \<open>A list of optional extensions, and the bytes that stand for it.\<close>

type_synonym extension = "u16 \<times> byte list"

definition extension_layout :: "extension \<Rightarrow> byte list" where
  "extension_layout e = to_be_bytes (fst e) @ to_be_bytes (0 :: u16) @ data_layout (snd e)"

fun ascending :: "u16 option \<Rightarrow> extension list \<Rightarrow> bool" where
  "ascending p [] \<longleftrightarrow> True"
| "ascending p (e # es) \<longleftrightarrow>
     is_none_or (\<lambda>q. q < fst e) p \<and> length (snd e) < 2 ^ 32 \<and> ascending (Some (fst e)) es"

lemma flags_zero_iff: "(flags :: u16) AND NOT 1 = 0 \<and> flags AND 1 = 0 \<longleftrightarrow> flags = 0"
proof -
  have "flags = (flags AND NOT 1) OR (flags AND 1)"
    by (simp add: bit.conj_disj_distrib [symmetric])
  then show ?thesis by auto
qed

lemma ex_list_cons: "(\<exists>xs. P xs) \<longleftrightarrow> P [] \<or> (\<exists>x xs. P (x # xs))"
  by (metis neq_Nil_conv)

lemma length_extension_layout: "length (extension_layout e) = 8 + length (snd e)"
  by (simp add: extension_layout_def data_layout_def)

lemma extension_layout_not_Nil [simp]: "extension_layout e \<noteq> []"
  using length_extension_layout [of e] by auto

lemma extension_step_iff:
  assumes "r \<noteq> []" "\<not> count + 1 > (128 :: u16)"
  shows "extension_loop count p r = (Inr (), rest) \<longleftrightarrow>
    (\<exists>e r'. r = extension_layout e @ r' \<and> length (snd e) < 2 ^ 32 \<and> is_none_or (\<lambda>q. q < fst e) p
       \<and> extension_loop (count + 1) (Some (fst e)) r' = (Inr (), rest))" (is "?L = ?R")
proof
  have step: "extension_loop count p r =
        try_then (reader_u16 r) (\<lambda>tag r.
        try_then (reader_u16 r) (\<lambda>flags r.
        try_then (reader_u32 r) (\<lambda>len r.
        if is_some_and (\<lambda>p. tag \<le> p) p \<or> flags AND NOT 1 \<noteq> 0 then (Inl InvalidExtension, r)
        else
          try_then (reader_take (unat len) r) (\<lambda>_ r.
          if flags AND 1 \<noteq> 0 then (Inl RequiredExtension, r)
          else extension_loop (count + 1) (Some tag) r))))"
    by (subst extension_loop.simps) (simp only: assms if_False)
  assume ?L
  then obtain tag flags :: u16 and len d r' where r: "r = to_be_bytes tag @ to_be_bytes flags @ to_be_bytes len @ d @ r'"
    "length d = unat (len :: u32)" "\<not> is_some_and (\<lambda>p. tag \<le> p) p" "flags AND NOT 1 = 0" "flags AND 1 = 0"
    "extension_loop (count + 1) (Some tag) r' = (Inr (), rest)"
    unfolding step by (auto simp: try_then_Inr_iff u16.get_iff u32.get_iff reader_take_iff split: if_splits)
  have "flags = 0" "len = of_nat (length d)" using r(2,4,5) flags_zero_iff [of flags] by simp_all
  then have "r = extension_layout (tag, d) @ r'" using r(1) by (simp add: extension_layout_def data_layout_def)
  moreover have "length d < 2 ^ 32" using r(2) by simp
  moreover have "is_none_or (\<lambda>q. q < tag) p" using r(3) by (cases p) auto
  ultimately show ?R using r(6) by (intro exI [of _ "(tag, d)"] exI [of _ r']) simp
next
  assume ?R
  then obtain e r' where r: "r = extension_layout e @ r'" "length (snd e) < 2 ^ 32"
    "is_none_or (\<lambda>q. q < fst e) p" "extension_loop (count + 1) (Some (fst e)) r' = (Inr (), rest)" by blast
  have "\<not> is_some_and (\<lambda>p. fst e \<le> p) p" using r(3) by (cases p) auto
  moreover have "reader_u16 r = (Inr (fst e), to_be_bytes (0 :: u16) @ data_layout (snd e) @ r')"
    by (simp add: r(1) extension_layout_def u16.get_iff)
  moreover have "reader_u32 (data_layout (snd e) @ r') = (Inr (of_nat (length (snd e))), snd e @ r')"
    by (simp add: data_layout_def u32.get_iff)
  ultimately show ?L
    using assms r(2,4)
    by (subst extension_loop.simps) (simp add: u16.get_layout reader_take_def unat_of_nat_less)
qed

lemma extension_loop_iff:
  "unat count \<le> 128 \<Longrightarrow> extension_loop count p r = (Inr (), rest) \<longleftrightarrow>
     rest = [] \<and> (\<exists>es. r = concat (map extension_layout es) \<and> ascending p es \<and> unat count + length es \<le> 128)"
proof (induction "length r" arbitrary: count p r rule: less_induct)
  case less
  have next_count: "unat (count + 1) = unat count + 1" using less.prems by (simp add: unat_word_ariths)
  have full: "count + 1 > 128 \<longleftrightarrow> unat count = 128"
    using less.prems next_count by (auto simp: word_less_nat_alt)
  consider "r = []" | "r \<noteq> []" "unat count = 128" | "r \<noteq> []" "unat count < 128"
    using less.prems by linarith
  then show ?case
  proof cases
    case 1
    then show ?thesis using less.prems
      by (subst extension_loop.simps) (auto simp: concat_eq_Nil_conv intro: exI [of _ "[]"])
  next
    case 2
    then show ?thesis using full by (subst extension_loop.simps) auto
  next
    case 3
    then have "extension_loop count p r = (Inr (), rest) \<longleftrightarrow>
      (\<exists>e r'. r = extension_layout e @ r' \<and> length (snd e) < 2 ^ 32 \<and> is_none_or (\<lambda>q. q < fst e) p
         \<and> extension_loop (count + 1) (Some (fst e)) r' = (Inr (), rest))"
      using full by (intro extension_step_iff) auto
    also have "\<dots> \<longleftrightarrow> (\<exists>e r'. r = extension_layout e @ r' \<and> length (snd e) < 2 ^ 32 \<and> is_none_or (\<lambda>q. q < fst e) p
         \<and> rest = [] \<and> (\<exists>es. r' = concat (map extension_layout es) \<and> ascending (Some (fst e)) es
             \<and> unat count + 1 + length es \<le> 128))"
      using less.hyps [of _ "count + 1"] 3 next_count
      by (intro ex_cong1 conj_cong refl) (simp add: length_extension_layout)
    also have "\<dots> \<longleftrightarrow> rest = [] \<and> (\<exists>es. r = concat (map extension_layout es) \<and> ascending p es
        \<and> unat count + length es \<le> 128)"
    proof -
      have "(\<exists>es. r = concat (map extension_layout es) \<and> ascending p es \<and> unat count + length es \<le> 128) \<longleftrightarrow>
        (\<exists>e es. r = extension_layout e @ concat (map extension_layout es)
           \<and> ascending p (e # es) \<and> unat count + 1 + length es \<le> 128)"
        using 3 by (subst ex_list_cons) auto
      then show ?thesis by auto
    qed
    finally show ?thesis .
  qed
qed

lemma ascending_iff:
  "ascending p es \<longleftrightarrow> list_all (\<lambda>e. is_none_or (\<lambda>q. q < fst e) p) es \<and> sorted_wrt (<) (map fst es)
     \<and> list_all (\<lambda>e. length (snd e) < 2 ^ 32) es"
  by (induction es arbitrary: p) (auto simp: list_all_iff is_none_or_def split: option.splits)

lemma validate_extensions_iff:
  "validate_extensions bytes = Inr () \<longleftrightarrow>
     (\<exists>es. bytes = concat (map extension_layout es) \<and> sorted_wrt (<) (map fst es) \<and> length es \<le> 128
        \<and> list_all (\<lambda>e. length (snd e) < 2 ^ 32) es)"
proof -
  have "validate_extensions bytes = Inr () \<longleftrightarrow> (\<exists>rest. extension_loop 0 None bytes = (Inr (), rest))"
    by (simp add: validate_extensions_def prod_eq_iff)
  then show ?thesis by (simp add: extension_loop_iff ascending_iff list.pred_True) blast
qed

lemma validate_extensions_Nil [simp]: "validate_extensions [] = Inr ()"
  by (simp add: validate_extensions_def extension_loop.simps)

section \<open>Records\<close>

definition HEADER_BYTES :: nat where
  "HEADER_BYTES = 24"

record Record =
  rc_kind :: Kind
  rc_binding :: u32
  rc_payload :: "byte list"

text \<open>The bytes of \<open>FRD0\<close>.\<close>

definition MAGIC :: "byte list" where
  "MAGIC = [0x46, 0x52, 0x44, 0x30]"

definition decode_bounded :: "byte list \<Rightarrow> nat \<Rightarrow> u32 \<Rightarrow> Channel option \<Rightarrow> WireError + Record" where
  "decode_bounded bytes maximum binding channel =
     (if length bytes > maximum then Inl ResourceLimit
      else fst (
        try_then (reader_take 4 bytes) (\<lambda>magic r.
        if magic \<noteq> MAGIC then (Inl BadMagic, r) else
        try_then (reader_u16 r) (\<lambda>version r.
        if version \<noteq> 0 then (Inl UnsupportedVersion, r) else
        try_then (reader_u16 r) (\<lambda>code r.
        case kind_parse code of Inl e \<Rightarrow> (Inl e, r) | Inr kind \<Rightarrow>
        try_then (reader_u16 r) (\<lambda>flags r.
        if flags \<noteq> 0 then (Inl InvalidFlags, r) else
        try_then (reader_u16 r) (\<lambda>reserved r.
        if reserved \<noteq> 0 then (Inl InvalidFlags, r) else
        try_then (reader_u32 r) (\<lambda>payload_len r.
        try_then (reader_u32 r) (\<lambda>received_binding r.
        try_then (reader_u32 r) (\<lambda>ext_len r.
        if (binding = 0 \<and> \<not> kind_initial kind) \<or> received_binding \<noteq> binding then (Inl InvalidBinding, r)
        else if kind_channel kind \<noteq> channel then (Inl WrongChannel, r)
        else if unat ext_len > unat payload_len then (Inl InvalidExtension, r)
        else
          try_then (reader_take (unat payload_len) r) (\<lambda>payload r.
          case reader_finish r of Inl e \<Rightarrow> (Inl e, r) | Inr _ \<Rightarrow>
          let fixed_len = unat payload_len - unat ext_len in
          case validate_extensions (drop fixed_len payload) of Inl e \<Rightarrow> (Inl e, r) | Inr _ \<Rightarrow>
          (Inr \<lparr>rc_kind = kind, rc_binding = binding, rc_payload = take fixed_len payload\<rparr>, r))))))))))))"

definition record_reader :: "Record \<Rightarrow> Kind \<Rightarrow> WireError + byte list" where
  "record_reader rc expected =
     (if rc_kind rc \<noteq> expected then Inl UnsupportedKind else Inr (rc_payload rc))"

definition record_bounded ::
  "byte list \<Rightarrow> nat \<Rightarrow> u32 \<Rightarrow> Kind \<Rightarrow> nat \<Rightarrow> (Writer, WireError, unit) outcome" where
  "record_bounded out maximum binding kind payload =
     (let total = HEADER_BYTES + payload;
          w = \<lparr>wr_out = out, wr_end = total, wr_position = 0\<rparr> in
      if total > usize_max then (Inl ArithmeticOverflow, w)
      else if binding = 0 \<and> \<not> kind_initial kind then (Inl InvalidBinding, w)
      else if total > maximum then (Inl ResourceLimit, w)
      else if total > length out then (Inl BufferTooSmall, w)
      else
        try_then (writer_put MAGIC w) (\<lambda>_ w.
        try_then (writer_u16 0 w) (\<lambda>_ w.
        try_then (writer_u16 (kind_code kind) w) (\<lambda>_ w.
        try_then (writer_u16 0 w) (\<lambda>_ w.
        try_then (writer_u16 0 w) (\<lambda>_ w.
        if payload \<ge> 2 ^ 32 then (Inl ArithmeticOverflow, w) else
        try_then (writer_u32 (of_nat payload) w) (\<lambda>_ w.
        try_then (writer_u32 binding w) (\<lambda>_.
        writer_u32 0))))))))"

text \<open>
  The whole of an encoder after its checks: the header, the body, \<open>finish\<close>. The caller gets
  the count and finds the bytes in its buffer.
\<close>

definition write_record ::
  "byte list \<Rightarrow> nat \<Rightarrow> u32 \<Rightarrow> Kind \<Rightarrow> nat \<Rightarrow> (Writer \<Rightarrow> (Writer, WireError, unit) outcome)
   \<Rightarrow> (byte list, WireError, nat) outcome" where
  "write_record out maximum binding kind payload body =
     map_prod id wr_out
       (try_then (record_bounded out maximum binding kind payload) (\<lambda>_ w.
        try_then (body w) (\<lambda>_ w. (writer_finish w, w))))"

section \<open>Media limits\<close>

definition MAX_FRAGMENTS :: u32 where
  "MAX_FRAGMENTS = 16384"

definition MAX_REPAIR_RANGES :: u16 where
  "MAX_REPAIR_RANGES = 64"

definition FRAGMENT_OVERHEAD :: nat where
  "FRAGMENT_OVERHEAD = 73"

record MediaLimits =
  ml_protocol :: ProtocolLimits
  ml_record_bytes :: nat
  ml_fragments :: u32
  ml_repair_ranges :: u16

definition media_limits_new :: "ProtocolLimits \<Rightarrow> nat \<Rightarrow> u32 \<Rightarrow> u16 \<Rightarrow> WireError + MediaLimits" where
  "media_limits_new protocol record_bytes fragments repair_ranges =
     (if record_bytes \<le> FRAGMENT_OVERHEAD
         \<or> record_bytes > unat (pl_max_control_message_bytes protocol)
         \<or> fragments = 0 \<or> fragments > MAX_FRAGMENTS
         \<or> repair_ranges = 0 \<or> repair_ranges > MAX_REPAIR_RANGES
      then Inl InvalidLimits
      else Inr \<lparr>ml_protocol = protocol, ml_record_bytes = record_bytes, ml_fragments = fragments,
                ml_repair_ranges = repair_ranges\<rparr>)"

text \<open>\<open>None\<close> is the panic of \<open>expect\<close>, or of the subtraction.\<close>

definition fragment_stride :: "MediaLimits \<Rightarrow> u32 option" where
  "fragment_stride l =
     (if FRAGMENT_OVERHEAD \<le> ml_record_bytes l \<and> ml_record_bytes l - FRAGMENT_OVERHEAD < 2 ^ 32
      then Some (of_nat (ml_record_bytes l - FRAGMENT_OVERHEAD)) else None)"

definition record_decode :: "byte list \<Rightarrow> MediaLimits \<Rightarrow> u32 \<Rightarrow> Channel \<Rightarrow> WireError + Record" where
  "record_decode bytes limits binding channel =
     decode_bounded bytes (ml_record_bytes limits) binding (Some channel)"

section \<open>Frames\<close>

definition frame :: "Kind \<Rightarrow> u32 \<Rightarrow> byte list \<Rightarrow> byte list \<Rightarrow> byte list" where
  "frame kind binding payload extensions =
     MAGIC @ to_be_bytes (0 :: u16) @ to_be_bytes (kind_code kind) @ to_be_bytes (0 :: u16)
     @ to_be_bytes (0 :: u16) @ to_be_bytes (of_nat (length payload + length extensions) :: u32)
     @ to_be_bytes binding @ to_be_bytes (of_nat (length extensions) :: u32) @ payload @ extensions"

lemma length_MAGIC [simp]: "length MAGIC = 4"
  by (simp add: MAGIC_def)

lemma length_frame: "length (frame kind binding payload extensions) = 24 + length payload + length extensions"
  by (simp add: frame_def)

definition framed :: "byte list \<Rightarrow> Kind \<Rightarrow> u32 \<Rightarrow> byte list \<Rightarrow> bool" where
  "framed bytes kind binding payload \<longleftrightarrow>
     (binding \<noteq> 0 \<or> kind_initial kind)
     \<and> (\<exists>extensions. validate_extensions extensions = Inr () \<and> length payload + length extensions < 2 ^ 32
          \<and> bytes = frame kind binding payload extensions)"

lemma fst_Inr_iff: "fst m = Inr v \<longleftrightarrow> (\<exists>s. m = (Inr v, s))"
  by (cases m) auto

lemma case_sum_Inr_iff:
  "(case r of Inl e \<Rightarrow> (Inl e, s) | Inr x \<Rightarrow> k x) = (Inr v, t) \<longleftrightarrow> (\<exists>x. r = Inr x \<and> k x = (Inr v, t))"
  by (cases r) auto

lemma reader_finish_iff: "reader_finish r = Inr u \<longleftrightarrow> r = []"
  by (simp add: reader_finish_def)

lemma decode_bounded_iff:
  "decode_bounded bytes maximum binding channel = Inr rc \<longleftrightarrow>
     length bytes \<le> maximum \<and> rc_binding rc = binding \<and> kind_channel (rc_kind rc) = channel
     \<and> framed bytes (rc_kind rc) binding (rc_payload rc)" (is "?L \<longleftrightarrow> ?R")
proof
  assume ?L
  then show ?R
    by (auto simp: decode_bounded_def fst_Inr_iff wire_reads case_sum_Inr_iff kind_parse_iff reader_finish_iff
        Let_def framed_def frame_def split: if_splits)
next
  assume ?R
  then obtain ext where len: "length bytes \<le> maximum"
    and rc: "rc = \<lparr>rc_kind = rc_kind rc, rc_binding = binding, rc_payload = rc_payload rc\<rparr>"
    and ch: "kind_channel (rc_kind rc) = channel" and b: "binding \<noteq> 0 \<or> kind_initial (rc_kind rc)"
    and ext: "validate_extensions ext = Inr ()" "length (rc_payload rc) + length ext < 2 ^ 32"
    and bytes: "bytes = frame (rc_kind rc) binding (rc_payload rc) ext"
    by (auto simp: framed_def)
  have l: "unat (of_nat (length (rc_payload rc) + length ext) :: u32) = length (rc_payload rc) + length ext"
    by (rule unat_of_nat_less) (use ext(2) in simp)
  have e: "unat (of_nat (length ext) :: u32) = length ext"
    by (rule unat_of_nat_less) (use ext(2) in simp)
  show ?L
    unfolding decode_bounded_def bytes frame_def
    using len b ch ext(1) l e
    by (subst rc) (simp add: bytes frame_def reader_take_def u16.get_layout u32.get_layout reader_finish_def Let_def
        MAGIC_def)
qed

lemma framed_plain:
  "framed (frame kind binding payload []) kind binding payload \<longleftrightarrow>
     (binding \<noteq> 0 \<or> kind_initial kind) \<and> length payload < 2 ^ 32" (is "?L \<longleftrightarrow> ?R")
proof
  assume ?L
  then obtain ext where "frame kind binding payload [] = frame kind binding payload ext"
    "length payload + length ext < 2 ^ 32" "binding \<noteq> 0 \<or> kind_initial kind"
    by (auto simp: framed_def)
  then show ?R by simp
next
  assume ?R
  then show ?L by (auto simp: framed_def intro: exI [of _ "[]"])
qed

section \<open>Encoding\<close>

lemma record_bounded_writes:
  assumes "payload < 2 ^ 32" "HEADER_BYTES + payload \<le> length out" "HEADER_BYTES + payload \<le> maximum"
    "binding \<noteq> 0 \<or> kind_initial kind"
  shows "record_bounded out maximum binding kind payload =
    (Inr (), appended (MAGIC @ to_be_bytes (0 :: u16) @ to_be_bytes (kind_code kind) @ to_be_bytes (0 :: u16)
       @ to_be_bytes (0 :: u16) @ to_be_bytes (of_nat payload :: u32) @ to_be_bytes binding @ to_be_bytes (0 :: u32))
       \<lparr>wr_out = out, wr_end = HEADER_BYTES + payload, wr_position = 0\<rparr>)"
proof -
  let ?w = "\<lparr>wr_out = out, wr_end = HEADER_BYTES + payload, wr_position = 0\<rparr>"
  have body: "writes (\<lambda>w.
        try_then (writer_put MAGIC w) (\<lambda>_ w.
        try_then (writer_u16 0 w) (\<lambda>_ w.
        try_then (writer_u16 (kind_code kind) w) (\<lambda>_ w.
        try_then (writer_u16 0 w) (\<lambda>_ w.
        try_then (writer_u16 0 w) (\<lambda>_ w.
        try_then (writer_u32 (of_nat payload) w) (\<lambda>_ w.
        try_then (writer_u32 binding w) (\<lambda>_.
        writer_u32 0))))))))
    (MAGIC @ to_be_bytes (0 :: u16) @ to_be_bytes (kind_code kind) @ to_be_bytes (0 :: u16)
       @ to_be_bytes (0 :: u16) @ to_be_bytes (of_nat payload :: u32) @ to_be_bytes binding @ to_be_bytes (0 :: u32))"
    by (intro writes_then writes_put u16.put_writes u32.put_writes) simp_all
  have "room 24 ?w" using assms by (simp add: room_def HEADER_BYTES_def)
  with assms body show ?thesis
    by (simp add: record_bounded_def Let_def writes_def HEADER_BYTES_def MAGIC_def)
qed

lemma write_record_ok:
  assumes "writes body bytes" "length bytes < 2 ^ 32" "HEADER_BYTES + length bytes \<le> length out"
    "HEADER_BYTES + length bytes \<le> maximum" "binding \<noteq> 0 \<or> kind_initial kind"
  shows "write_record out maximum binding kind (length bytes) body =
    (Inr (HEADER_BYTES + length bytes), frame kind binding bytes [] @ drop (HEADER_BYTES + length bytes) out)"
proof -
  let ?w = "\<lparr>wr_out = out, wr_end = HEADER_BYTES + length bytes, wr_position = 0\<rparr>"
  let ?h = "MAGIC @ to_be_bytes (0 :: u16) @ to_be_bytes (kind_code kind) @ to_be_bytes (0 :: u16)
       @ to_be_bytes (0 :: u16) @ to_be_bytes (of_nat (length bytes) :: u32) @ to_be_bytes binding @ to_be_bytes (0 :: u32)"
  have h: "length ?h = HEADER_BYTES" by (simp add: MAGIC_def HEADER_BYTES_def)
  have r: "room (length ?h + length bytes) ?w" using assms(2,3) h by (simp add: room_def HEADER_BYTES_def)
  have "body (appended ?h ?w) = (Inr (), appended bytes (appended ?h ?w))"
    using assms(1) room_appended [OF r] by (simp add: writes_def)
  then have "write_record out maximum binding kind (length bytes) body =
      map_prod id wr_out (let w = appended (?h @ bytes) ?w in (writer_finish w, w))"
    using assms appended_appended [OF r]
    by (simp add: write_record_def record_bounded_writes Let_def del: length_append append_assoc)
  then show ?thesis by (simp add: Let_def writer_finish_def appended_def frame_def HEADER_BYTES_def)
qed

lemma write_record_refused:
  assumes "writes body bytes" "length bytes < 2 ^ 32" "maximum < 2 ^ 32"
    "write_record out maximum binding kind (length bytes) body = (Inl e, out')"
  shows "out' = out"
proof (cases "HEADER_BYTES + length bytes \<le> length out \<and> HEADER_BYTES + length bytes \<le> maximum
    \<and> (binding \<noteq> 0 \<or> kind_initial kind)")
  case True
  then show ?thesis using write_record_ok [OF assms(1,2), of out maximum binding kind] assms(4) by simp
next
  case False
  then show ?thesis
    using assms(2,4) by (auto simp: write_record_def record_bounded_def Let_def HEADER_BYTES_def split: if_splits)
qed

lemma write_record_iff:
  assumes "writes body bytes" "length bytes < 2 ^ 32"
  shows "write_record out maximum binding kind (length bytes) body = (Inr n, out') \<longleftrightarrow>
    HEADER_BYTES + length bytes \<le> length out \<and> HEADER_BYTES + length bytes \<le> maximum
    \<and> (binding \<noteq> 0 \<or> kind_initial kind) \<and> n = HEADER_BYTES + length bytes
    \<and> out' = frame kind binding bytes [] @ drop n out"
proof (cases "HEADER_BYTES + length bytes \<le> length out \<and> HEADER_BYTES + length bytes \<le> maximum
    \<and> (binding \<noteq> 0 \<or> kind_initial kind)")
  case True
  then show ?thesis using write_record_ok [OF assms, of out maximum binding kind] by auto
next
  case False
  then have "\<exists>e w. record_bounded out maximum binding kind (length bytes) = (Inl e, w)"
    using assms(2) by (auto simp: record_bounded_def Let_def HEADER_BYTES_def)
  then obtain e w where "record_bounded out maximum binding kind (length bytes) = (Inl e, w)" by blast
  then show ?thesis using False by (auto simp: write_record_def)
qed

section \<open>Message codecs\<close>

text \<open>A record has one kind, one binding and one payload.\<close>

lemma framed_unique:
  assumes "framed bytes k b p" "framed bytes k' b' p'"
  shows "k = k' \<and> b = b' \<and> p = p'"
proof -
  let ?rc = "\<lparr>rc_kind = k, rc_binding = b, rc_payload = p\<rparr>" and ?rc' = "\<lparr>rc_kind = k', rc_binding = b', rc_payload = p'\<rparr>"
  have code: "kind_code k = kind_code k' \<and> b = b'"
    using assms by (auto simp: framed_def frame_def)
  then have "k = k'" by (metis kind_parse_code sum.inject(2))
  with code have "decode_bounded bytes (length bytes) b (kind_channel k) = Inr ?rc"
    "decode_bounded bytes (length bytes) b (kind_channel k) = Inr ?rc'"
    using assms by (simp_all add: decode_bounded_iff)
  then show ?thesis by simp
qed

lemma framed_length_unique:
  "framed bytes k b p \<Longrightarrow> framed bytes k b q \<Longrightarrow> length p = length q"
  using framed_unique by blast

text \<open>
  \<open>typed\<close> are the values the message's Rust type admits (private fields are set by checked
  constructors only), \<open>admissible\<close> those that pass the codec's own checks.
\<close>

locale message_codec =
  fixes encode :: "'m \<Rightarrow> byte list \<Rightarrow> (byte list, 'e, nat) outcome"
    and decode :: "byte list \<Rightarrow> 'd + 'm"
    and layout :: "'m \<Rightarrow> byte list" and kind_of :: "'m \<Rightarrow> Kind"
    and binding :: u32 and maximum :: nat and typed :: "'m \<Rightarrow> bool" and admissible :: "'m \<Rightarrow> bool"
  assumes encode_iff: "typed m \<Longrightarrow> encode m out = (Inr n, out') \<longleftrightarrow>
      admissible m \<and> HEADER_BYTES + length (layout m) \<le> length out \<and> HEADER_BYTES + length (layout m) \<le> maximum
      \<and> n = HEADER_BYTES + length (layout m) \<and> out' = frame (kind_of m) binding (layout m) [] @ drop n out"
    and encode_refused: "typed m \<Longrightarrow> encode m out = (Inl e, out') \<Longrightarrow> out' = out"
    and decode_frame: "typed m \<Longrightarrow> admissible m \<Longrightarrow> HEADER_BYTES + length (layout m) \<le> maximum \<Longrightarrow>
      decode (frame (kind_of m) binding (layout m) []) = Inr m"
    and decode_framed: "decode bytes = Inr m \<Longrightarrow>
      typed m \<and> admissible m \<and> length bytes \<le> maximum \<and> framed bytes (kind_of m) binding (layout m)"
begin

lemma round_trip:
  assumes "typed m" "encode m out = (Inr n, out')"
  shows "n \<le> length out \<and> decode (take n out') = Inr m \<and> drop n out' = drop n out"
proof -
  have "length (frame (kind_of m) binding (layout m) []) = n"
    using assms by (simp add: encode_iff length_frame HEADER_BYTES_def)
  then show ?thesis using assms by (auto simp: encode_iff decode_frame)
qed

lemma decoded_is_encoding:
  assumes "decode bytes = Inr m" "length bytes \<le> length out"
  shows "typed m \<and> (\<exists>extensions. validate_extensions extensions = Inr ()
    \<and> bytes = frame (kind_of m) binding (layout m) extensions
    \<and> encode m out = (Inr (length bytes - length extensions),
        frame (kind_of m) binding (layout m) [] @ drop (length bytes - length extensions) out))"
proof -
  obtain ext where m: "typed m" "admissible m" "length bytes \<le> maximum" "validate_extensions ext = Inr ()"
    "bytes = frame (kind_of m) binding (layout m) ext"
    using decode_framed [OF assms(1)] by (auto simp: framed_def)
  have n: "length bytes - length ext = HEADER_BYTES + length (layout m)"
    by (simp add: m(5) length_frame HEADER_BYTES_def)
  have "encode m out = (Inr (length bytes - length ext),
        frame (kind_of m) binding (layout m) [] @ drop (length bytes - length ext) out)"
    unfolding encode_iff [OF m(1)] n using m assms(2) by (simp add: length_frame HEADER_BYTES_def)
  with m show ?thesis by blast
qed

lemma exact:
  assumes "typed m"
  shows "(is_ok (fst (encode m out)) \<longleftrightarrow>
      admissible m \<and> HEADER_BYTES + length (layout m) \<le> min maximum (length out))
   \<and> (encode m out = (Inr n, out') \<longrightarrow>
      n \<le> length out \<and> decode (take n out') = Inr m \<and> drop n out' = drop n out)
   \<and> (encode m out = (Inl e, out') \<longrightarrow> out' = out)
   \<and> (decode bytes = Inr m \<and> length bytes \<le> length out \<longrightarrow>
      (\<exists>extensions. validate_extensions extensions = Inr ()
         \<and> bytes = frame (kind_of m) binding (layout m) extensions
         \<and> encode m out = (Inr (length bytes - length extensions),
             frame (kind_of m) binding (layout m) [] @ drop (length bytes - length extensions) out)))"
proof (intro conjI)
  have "is_ok (fst (encode m out)) \<longleftrightarrow> (\<exists>n out'. encode m out = (Inr n, out'))"
    by (cases "encode m out"; cases "fst (encode m out)") auto
  also have "\<dots> \<longleftrightarrow> admissible m \<and> HEADER_BYTES + length (layout m) \<le> min maximum (length out)"
    by (auto simp: encode_iff [OF assms])
  finally show "is_ok (fst (encode m out)) \<longleftrightarrow>
      admissible m \<and> HEADER_BYTES + length (layout m) \<le> min maximum (length out)" .
  show "encode m out = (Inr n, out') \<longrightarrow>
      n \<le> length out \<and> decode (take n out') = Inr m \<and> drop n out' = drop n out"
    by (rule impI) (rule round_trip [OF assms])
  show "encode m out = (Inl e, out') \<longrightarrow> out' = out"
    by (rule impI) (rule encode_refused [OF assms])
  show "decode bytes = Inr m \<and> length bytes \<le> length out \<longrightarrow>
      (\<exists>extensions. validate_extensions extensions = Inr ()
         \<and> bytes = frame (kind_of m) binding (layout m) extensions
         \<and> encode m out = (Inr (length bytes - length extensions),
             frame (kind_of m) binding (layout m) [] @ drop (length bytes - length extensions) out))"
    by (rule impI, elim conjE, rule conjunct2 [OF decoded_is_encoding])
qed

end

text \<open>
  What a codec has to show to meet this contract: its checks come before any write, its body
  writes the layout, and its decoder accepts the frames of admissible messages only.
\<close>

lemma codec_laws:
  fixes admissible :: "'m \<Rightarrow> bool"
  assumes size: "\<And>m. typed m \<Longrightarrow> admissible m \<Longrightarrow> length (layout m) < 2 ^ 32" and "maximum < 2 ^ 32"
    and bound: "\<And>m. typed m \<Longrightarrow> admissible m \<Longrightarrow> binding \<noteq> 0 \<or> kind_initial (kind_of m)"
    and enc: "\<And>m out. typed m \<Longrightarrow> admissible m \<Longrightarrow>
      encode m out = write_record out maximum binding (kind_of m) (length (layout m)) (body m)"
    and body: "\<And>m. typed m \<Longrightarrow> admissible m \<Longrightarrow> writes (body m) (layout m)"
    and refuse: "\<And>m out. typed m \<Longrightarrow> \<not> admissible m \<Longrightarrow> \<exists>e. encode m out = (Inl e, out)"
    and dec: "\<And>bytes m. decode bytes = Inr m \<longleftrightarrow> typed m \<and> admissible m
      \<and> length bytes \<le> maximum \<and> framed bytes (kind_of m) binding (layout m)"
  shows "message_codec encode decode layout kind_of binding maximum typed admissible"
proof
  fix m out n out'
  assume typed: "typed m"
  show "encode m out = (Inr n, out') \<longleftrightarrow>
      admissible m \<and> HEADER_BYTES + length (layout m) \<le> length out \<and> HEADER_BYTES + length (layout m) \<le> maximum
      \<and> n = HEADER_BYTES + length (layout m) \<and> out' = frame (kind_of m) binding (layout m) [] @ drop n out"
  proof (cases "admissible m")
    case True
    then show ?thesis
      using write_record_iff [OF body [OF typed True] size [OF typed True]] enc [OF typed True] bound [OF typed True]
      by auto
  next
    case False
    then show ?thesis using refuse [OF typed, of out] by auto
  qed
  show "out' = out" if "encode m out = (Inl e, out')" for e
  proof (cases "admissible m")
    case True
    then show ?thesis
      using that enc [OF typed True] write_record_refused [OF body [OF typed True] size [OF typed True] assms(2)]
      by simp
  next
    case False
    then show ?thesis using that refuse [OF typed, of out] by auto
  qed
  show "decode (frame (kind_of m) binding (layout m) []) = Inr m"
    if "admissible m" "HEADER_BYTES + length (layout m) \<le> maximum"
    using that typed size bound by (simp add: dec framed_plain length_frame HEADER_BYTES_def)
next
  show "typed m \<and> admissible m \<and> length bytes \<le> maximum \<and> framed bytes (kind_of m) binding (layout m)"
    if "decode bytes = Inr m" for bytes m
    using that by (simp add: dec)
qed

text \<open>The common shape of a decoder: the frame, the expected kind, the fields.\<close>

lemma decode_record_iff:
  assumes "kind_channel kind = None"
  shows "try_res (decode_bounded bytes maximum binding None) (\<lambda>record.
      try_res (record_reader record kind) (\<lambda>r. fst (parse r))) = Inr m \<longleftrightarrow>
    length bytes \<le> maximum \<and> (\<exists>payload rest. framed bytes kind binding payload \<and> parse payload = (Inr m, rest))"
    (is "?L \<longleftrightarrow> ?R")
proof
  assume ?L
  then show ?R
    by (auto simp: try_res_Inr_iff decode_bounded_iff record_reader_def fst_Inr_iff split: if_splits)
next
  assume ?R
  then obtain payload rest where R: "length bytes \<le> maximum" "framed bytes kind binding payload"
    "parse payload = (Inr m, rest)" by blast
  have "decode_bounded bytes maximum binding None = Inr \<lparr>rc_kind = kind, rc_binding = binding, rc_payload = payload\<rparr>"
    using R assms by (simp add: decode_bounded_iff)
  with R(3) show ?L by (simp add: record_reader_def)
qed

lemma write_record_unbound:
  assumes "binding = 0" "\<not> kind_initial kind"
  shows "\<exists>e. write_record out maximum binding kind payload body = (Inl e, out)"
  using assms by (simp add: write_record_def record_bounded_def Let_def)

text \<open>
  A message of one kind that no bootstrap uses, behind checks of its own. \<open>guard\<close> are the
  checks before the frame is touched, \<open>checked\<close> those of the message.
\<close>

lemma plain_codec_laws:
  fixes checked :: "'m \<Rightarrow> bool"
  assumes kind: "kind_channel kind = None" "\<not> kind_initial kind"
    and bound: "\<And>m. guard \<Longrightarrow> typed m \<Longrightarrow> checked m \<Longrightarrow> binding \<noteq> 0"
    and size: "\<And>m. typed m \<Longrightarrow> length (layout m) < 2 ^ 32" and "maximum < 2 ^ 32"
    and enc: "\<And>m out. guard \<Longrightarrow> typed m \<Longrightarrow> checked m \<Longrightarrow>
      encode m out = write_record out maximum binding kind (length (layout m)) (body m)"
    and body: "\<And>m. typed m \<Longrightarrow> writes (body m) (layout m)"
    and refuse: "\<And>m out. typed m \<Longrightarrow> \<not> (guard \<and> checked m) \<Longrightarrow> \<exists>e. encode m out = (Inl e, out)"
    and dec: "\<And>bytes. guard \<Longrightarrow> decode bytes = try_res (decode_bounded bytes maximum binding None) (\<lambda>record.
      try_res (record_reader record kind) (\<lambda>r. fst (parse r)))"
    and closed: "\<And>bytes. \<not> guard \<Longrightarrow> \<exists>e. decode bytes = Inl e"
    and parse: "\<And>p m rest. guard \<Longrightarrow> parse p = (Inr m, rest) \<longleftrightarrow> typed m \<and> checked m \<and> p = layout m \<and> rest = []"
  shows "message_codec encode decode layout (\<lambda>_. kind) binding maximum typed (\<lambda>m. guard \<and> checked m)"
proof (rule codec_laws [where body = body])
  fix bytes m
  show "decode bytes = Inr m \<longleftrightarrow> typed m \<and> (guard \<and> checked m) \<and> length bytes \<le> maximum
      \<and> framed bytes kind binding (layout m)"
  proof (cases guard)
    case True
    then show ?thesis by (auto simp: dec [OF True] decode_record_iff [OF kind(1)] parse)
  next
    case False
    then show ?thesis using closed [of bytes] by auto
  qed
qed (use assms in \<open>auto simp: enc\<close>)

lemma checks_refuse:
  assumes "\<not> (role = Inr () \<and> check = Inr ())"
  shows "\<exists>e. try_then (role, out) (\<lambda>_ out. try_then (check, out) k) = (Inl e, out)"
  using assms by (cases role; cases check) auto

text \<open>The usual codec: a check of the route, a check of the message, a layout of fixed size.\<close>

lemma checked_codec_laws:
  assumes kind: "kind_channel kind = None" "\<not> kind_initial kind"
    and bound: "\<And>m. typed m \<Longrightarrow> check m = Inr () \<Longrightarrow> binding \<noteq> 0"
    and size: "\<And>m. typed m \<Longrightarrow> length (layout m) = n" "n < 2 ^ 32" and "maximum < 2 ^ 32"
    and enc: "\<And>m out. typed m \<Longrightarrow> encode m out = try_then (role, out) (\<lambda>_ out. try_then (check m, out) (\<lambda>_ out.
      write_record out maximum binding kind n (body m)))"
    and body: "\<And>m. typed m \<Longrightarrow> writes (body m) (layout m)"
    and dec: "\<And>bytes. decode bytes = try_res role (\<lambda>_. try_res (decode_bounded bytes maximum binding None) (\<lambda>record.
      try_res (record_reader record kind) (\<lambda>r. fst (parse r))))"
    and parse: "\<And>p m rest. parse p = (Inr m, rest) \<longleftrightarrow> typed m \<and> check m = Inr () \<and> p = layout m \<and> rest = []"
  shows "message_codec encode decode layout (\<lambda>_. kind) binding maximum typed (\<lambda>m. role = Inr () \<and> check m = Inr ())"
proof (rule plain_codec_laws [where body = body and parse = parse])
  show "\<exists>e. encode m out = (Inl e, out)" if "typed m" "\<not> (role = Inr () \<and> check m = Inr ())" for m out
    unfolding enc [OF that(1)] using that(2) by (rule checks_refuse)
  show "\<exists>e. decode bytes = Inl e" if "role \<noteq> Inr ()" for bytes
    using that by (cases role) (auto simp: dec)
qed (use assms in \<open>auto simp: enc dec\<close>)

text \<open>A decoder that also insists on a property of every plain frame, such as its length.\<close>

lemma restricted_codec_laws:
  assumes "message_codec encode decode layout kind_of binding maximum typed admissible"
    and "\<And>bytes. P bytes \<Longrightarrow> decode' bytes = decode bytes" "\<And>bytes. \<not> P bytes \<Longrightarrow> \<exists>e. decode' bytes = Inl e"
    and "\<And>m. typed m \<Longrightarrow> P (frame (kind_of m) binding (layout m) [])"
  shows "message_codec encode decode' layout kind_of binding maximum typed admissible"
proof -
  have sub: "decode bytes = Inr m" if "decode' bytes = Inr m" for bytes m
    using assms(2,3) that by (cases "P bytes") force+
  note laws = message_codec.encode_iff [OF assms(1)] message_codec.encode_refused [OF assms(1)]
    message_codec.decode_frame [OF assms(1)] message_codec.decode_framed [OF assms(1)]
  show ?thesis by (rule message_codec.intro) (simp_all add: laws(1,3) laws(4) [OF sub] assms(2,4), rule laws(2))
qed

text \<open>
  A codec with errors of its own: the same records, with the errors of the wire wrapped and
  with further refusals that accept no other record.
\<close>

lemma wrapped_codec_laws:
  assumes "message_codec encode decode layout kind_of binding maximum typed admissible"
    and enc: "\<And>m out. typed m \<Longrightarrow> \<exists>e. fst (encode m out) = Inl e \<and> (\<exists>e'. encode' m out = (Inl e', out))
      \<or> is_ok (fst (encode m out)) \<and> encode' m out = (map_sum wrap id (fst (encode m out)), snd (encode m out))"
    and dec: "\<And>bytes m. decode' bytes = Inr m \<longleftrightarrow> decode bytes = Inr m"
  shows "message_codec encode' decode' layout kind_of binding maximum typed admissible"
proof (rule message_codec.intro)
  note laws = message_codec.encode_iff [OF assms(1)] message_codec.encode_refused [OF assms(1)]
    message_codec.decode_frame [OF assms(1)] message_codec.decode_framed [OF assms(1)]
  fix m out n out'
  assume typed: "typed m"
  have "encode' m out = (Inr n, out') \<longleftrightarrow> encode m out = (Inr n, out')"
    using enc [OF typed, of out] by (cases "encode m out"; cases "fst (encode m out)") auto
  then show "encode' m out = (Inr n, out') \<longleftrightarrow>
      admissible m \<and> HEADER_BYTES + length (layout m) \<le> length out \<and> HEADER_BYTES + length (layout m) \<le> maximum
      \<and> n = HEADER_BYTES + length (layout m) \<and> out' = frame (kind_of m) binding (layout m) [] @ drop n out"
    by (simp add: laws(1) [OF typed])
  show "out' = out" if "encode' m out = (Inl e, out')" for e
    using that enc [OF typed, of out] by (cases "encode m out"; cases "fst (encode m out)") auto
  show "decode' (frame (kind_of m) binding (layout m) []) = Inr m"
    if "admissible m" "HEADER_BYTES + length (layout m) \<le> maximum"
    using that laws(3) [OF typed] by (simp add: dec)
next
  show "typed m \<and> admissible m \<and> length bytes \<le> maximum \<and> framed bytes (kind_of m) binding (layout m)"
    if "decode' bytes = Inr m" for bytes m
    using that message_codec.decode_framed [OF assms(1)] by (simp add: dec)
qed

section \<open>Properties\<close>

lemma media_stride:
  "media_limits_new protocol record_bytes fragments ranges = Inr l \<Longrightarrow>
     \<exists>stride. fragment_stride l = Some stride \<and> 0 < unat stride \<and> unat stride = record_bytes - FRAGMENT_OVERHEAD"
proof -
  assume "media_limits_new protocol record_bytes fragments ranges = Inr l"
  then have l: "ml_record_bytes l = record_bytes" "FRAGMENT_OVERHEAD < record_bytes"
    "record_bytes \<le> unat (pl_max_control_message_bytes protocol)"
    by (auto simp: media_limits_new_def split: if_splits)
  have "record_bytes < 2 ^ 32" using l(3) by (rule le_less_trans) simp
  then have "unat (of_nat (record_bytes - FRAGMENT_OVERHEAD) :: u32) = record_bytes - FRAGMENT_OVERHEAD"
    by (intro unat_of_nat_less) simp
  then show ?thesis using l \<open>record_bytes < 2 ^ 32\<close> by (simp add: fragment_stride_def)
qed

text \<open>
  C28. Framing is exact. A record is accepted for a binding and a channel exactly when it is
  no longer than the limit, its kind belongs to that channel, only a bootstrap kind uses
  binding zero, and its bytes are the FRD0 header of its kind and lengths, the payload, and
  at most 128 extensions with strictly ascending tags, none of them marked as required.
\<close>

theorem records_are_frames:
  "decode_bounded bytes maximum binding channel = Inr rc \<longleftrightarrow>
     length bytes \<le> maximum \<and> rc_binding rc = binding \<and> kind_channel (rc_kind rc) = channel
     \<and> \<not> (binding = 0 \<and> \<not> kind_initial (rc_kind rc))
     \<and> (\<exists>extensions. sorted_wrt (<) (map fst extensions) \<and> length extensions \<le> 128
          \<and> list_all (\<lambda>e. length (snd e) < 2 ^ 32) extensions
          \<and> length (rc_payload rc) + length (concat (map extension_layout extensions)) < 2 ^ 32
          \<and> bytes = frame (rc_kind rc) binding (rc_payload rc) (concat (map extension_layout extensions)))"
  unfolding decode_bounded_iff framed_def validate_extensions_iff by blast

end
