(* ===== verification/Utf8.thy ===== *)
theory Utf8
  imports Input_Types
begin

text \<open>
  What the codecs use of Rust's \<open>str\<close>: its bytes, and \<open>core::str::from_utf8\<close>, which accepts
  exactly the well-formed sequences of the Unicode standard (no overlong forms, no
  surrogates, nothing above U+10FFFF). A text is its list of scalar values.
\<close>

definition is_scalar :: "scalar \<Rightarrow> bool" where
  "is_scalar c \<longleftrightarrow> unat c < 0xD800 \<or> (0xE000 \<le> unat c \<and> unat c < 0x110000)"

definition octet :: "nat \<Rightarrow> byte" where
  "octet n = of_nat n"

definition utf8_bytes :: "scalar \<Rightarrow> byte list" where
  "utf8_bytes c =
     (let n = unat c in
      if n < 0x80 then [octet n]
      else if n < 0x800 then [octet (0xC0 + n div 64), octet (0x80 + n mod 64)]
      else if n < 0x10000
      then [octet (0xE0 + n div 64 div 64), octet (0x80 + n div 64 mod 64), octet (0x80 + n mod 64)]
      else [octet (0xF0 + n div 64 div 64 div 64), octet (0x80 + n div 64 div 64 mod 64),
            octet (0x80 + n div 64 mod 64), octet (0x80 + n mod 64)])"

definition as_bytes :: "utf8_text \<Rightarrow> byte list" where
  "as_bytes t = concat (map utf8_bytes t)"

definition continuation :: "byte \<Rightarrow> bool" where
  "continuation b \<longleftrightarrow> 0x80 \<le> unat b \<and> unat b < 0xC0"

definition low6 :: "byte \<Rightarrow> nat" where
  "low6 b = unat b - 0x80"

fun first_scalar :: "byte list \<Rightarrow> (scalar \<times> byte list) option" where
  "first_scalar [] = None"
| "first_scalar (a # r) =
     (let x = unat a in
      if x < 0x80 then Some (of_nat x, r)
      else if 0xC2 \<le> x \<and> x < 0xE0 then
        (case r of
           b # r \<Rightarrow> if continuation b then Some (of_nat ((x - 0xC0) * 64 + low6 b), r) else None
         | _ \<Rightarrow> None)
      else if 0xE0 \<le> x \<and> x < 0xF0 then
        (case r of
           b # c # r \<Rightarrow>
             if continuation b \<and> continuation c \<and> (x = 0xE0 \<longrightarrow> 0xA0 \<le> unat b) \<and> (x = 0xED \<longrightarrow> unat b < 0xA0)
             then Some (of_nat (((x - 0xE0) * 64 + low6 b) * 64 + low6 c), r) else None
         | _ \<Rightarrow> None)
      else if 0xF0 \<le> x \<and> x < 0xF5 then
        (case r of
           b # c # d # r \<Rightarrow>
             if continuation b \<and> continuation c \<and> continuation d
                \<and> (x = 0xF0 \<longrightarrow> 0x90 \<le> unat b) \<and> (x = 0xF4 \<longrightarrow> unat b < 0x90)
             then Some (of_nat ((((x - 0xF0) * 64 + low6 b) * 64 + low6 c) * 64 + low6 d), r) else None
         | _ \<Rightarrow> None)
      else None)"

lemma first_scalar_shorter: "first_scalar bs = Some (c, r) \<Longrightarrow> length r < length bs"
  by (cases bs) (auto simp: Let_def split: if_splits list.splits)

function from_utf8 :: "byte list \<Rightarrow> utf8_text option" where
  "from_utf8 bs =
     (if bs = [] then Some []
      else case first_scalar bs of
        None \<Rightarrow> None
      | Some (c, r) \<Rightarrow> map_option (\<lambda>t. c # t) (from_utf8 r))"
  by auto

termination
  by (relation "measure length") (auto dest: first_scalar_shorter)

declare from_utf8.simps [simp del]

lemma length_utf8_bytes: "length (utf8_bytes c) = utf8_len c"
  by (simp add: utf8_bytes_def utf8_len_def Let_def word_less_nat_alt)

lemma length_as_bytes: "length (as_bytes t) = text_len t"
  by (simp add: as_bytes_def text_len_def length_concat comp_def length_utf8_bytes)

lemma unat_octet: "n < 256 \<Longrightarrow> unat (octet n) = n"
  by (simp add: octet_def unat_of_nat_less)

lemma octet_unat [simp]: "octet (unat b) = b"
  by (simp add: octet_def)

lemma unat_scalar: "n < 0x110000 \<Longrightarrow> unat (of_nat n :: scalar) = n"
  by (simp add: unat_of_nat_less)

lemma continuation_octet: "n < 64 \<Longrightarrow> continuation (octet (0x80 + n)) \<and> low6 (octet (0x80 + n)) = n"
  by (simp add: continuation_def low6_def unat_octet)

lemma octet_low6: "continuation b \<Longrightarrow> low6 b < 64 \<and> octet (0x80 + low6 b) = b"
  by (auto simp: continuation_def low6_def)

lemma div64: "(y :: nat) < 64 \<Longrightarrow> (x * 64 + y) div 64 = x"
  by simp

lemma mod64: "(y :: nat) < 64 \<Longrightarrow> (x * 64 + y) mod 64 = y"
  by simp

lemma digits64: obtains a b where "(n :: nat) = a * 64 + b" "b < 64"
  using that [of "n div 64" "n mod 64"] by simp

text \<open>The four forms, by the digits of the scalar value in base 64.\<close>

lemma two_bytes:
  assumes "2 \<le> a" "a < 32" "b < 64"
  shows "utf8_bytes (of_nat (a * 64 + b)) = [octet (0xC0 + a), octet (0x80 + b)]"
    and "first_scalar (octet (0xC0 + a) # octet (0x80 + b) # r) = Some (of_nat (a * 64 + b), r)"
  using assms continuation_octet [of b]
  by (simp_all add: utf8_bytes_def Let_def unat_scalar unat_octet del: of_nat_add of_nat_mult)

lemma three_bytes:
  assumes "a < 16" "b < 64" "c < 64" "a = 0 \<longrightarrow> 32 \<le> b"
  shows "utf8_bytes (of_nat ((a * 64 + b) * 64 + c)) = [octet (0xE0 + a), octet (0x80 + b), octet (0x80 + c)]"
    and "a = 13 \<longrightarrow> b < 32 \<Longrightarrow> first_scalar (octet (0xE0 + a) # octet (0x80 + b) # octet (0x80 + c) # r) =
      Some (of_nat ((a * 64 + b) * 64 + c), r)"
proof -
  have n: "0x800 \<le> (a * 64 + b) * 64 + c" "(a * 64 + b) * 64 + c < 0x10000" using assms by auto
  define n where "n = (a * 64 + b) * 64 + c"
  have "n div 64 = a * 64 + b" "n mod 64 = c" unfolding n_def by (rule div64 [OF assms(3)], rule mod64 [OF assms(3)])
  then show "utf8_bytes (of_nat ((a * 64 + b) * 64 + c)) = [octet (0xE0 + a), octet (0x80 + b), octet (0x80 + c)]"
    using n assms(2) unfolding n_def [symmetric] by (simp add: utf8_bytes_def Let_def unat_scalar)
  show "first_scalar (octet (0xE0 + a) # octet (0x80 + b) # octet (0x80 + c) # r) =
      Some (of_nat ((a * 64 + b) * 64 + c), r)" if "a = 13 \<longrightarrow> b < 32"
    using assms that continuation_octet [of b] continuation_octet [of c]
    by (simp add: Let_def unat_octet del: of_nat_add of_nat_mult)
qed

lemma four_bytes:
  assumes "a < 5" "b < 64" "c < 64" "d < 64" "a = 0 \<longrightarrow> 16 \<le> b"
  shows "utf8_bytes (of_nat (((a * 64 + b) * 64 + c) * 64 + d)) =
      [octet (0xF0 + a), octet (0x80 + b), octet (0x80 + c), octet (0x80 + d)]"
    and "a = 4 \<longrightarrow> b < 16 \<Longrightarrow>
      first_scalar (octet (0xF0 + a) # octet (0x80 + b) # octet (0x80 + c) # octet (0x80 + d) # r) =
      Some (of_nat (((a * 64 + b) * 64 + c) * 64 + d), r)"
proof -
  have n: "0x10000 \<le> ((a * 64 + b) * 64 + c) * 64 + d" "((a * 64 + b) * 64 + c) * 64 + d < 2 ^ 32"
    using assms by auto
  define n where "n = ((a * 64 + b) * 64 + c) * 64 + d"
  have d: "n div 64 = (a * 64 + b) * 64 + c" "n mod 64 = d"
    unfolding n_def by (rule div64 [OF assms(4)], rule mod64 [OF assms(4)])
  have "n div 64 div 64 = a * 64 + b" "n div 64 mod 64 = c"
    unfolding d(1) by (rule div64 [OF assms(3)], rule mod64 [OF assms(3)])
  moreover have "unat (of_nat n :: scalar) = n"
    using n by (intro unat_of_nat_less) (simp add: n_def)
  ultimately show "utf8_bytes (of_nat (((a * 64 + b) * 64 + c) * 64 + d)) =
      [octet (0xF0 + a), octet (0x80 + b), octet (0x80 + c), octet (0x80 + d)]"
    using n d(2) assms(2) unfolding n_def [symmetric] by (simp add: utf8_bytes_def Let_def)
  show "first_scalar (octet (0xF0 + a) # octet (0x80 + b) # octet (0x80 + c) # octet (0x80 + d) # r) =
      Some (of_nat (((a * 64 + b) * 64 + c) * 64 + d), r)" if "a = 4 \<longrightarrow> b < 16"
    using assms that continuation_octet [of b] continuation_octet [of c] continuation_octet [of d]
    by (simp add: Let_def unat_octet del: of_nat_add of_nat_mult)
qed

lemma first_scalar_bytes:
  assumes "is_scalar c"
  shows "first_scalar (utf8_bytes c @ r) = Some (c, r)"
proof -
  define n where "n = unat c"
  have c: "c = of_nat n" by (simp add: n_def)
  have n: "n < 0xD800 \<or> (0xE000 \<le> n \<and> n < 0x110000)" using assms by (simp add: is_scalar_def n_def)
  consider "n < 0x80" | "0x80 \<le> n" "n < 0x800" | "0x800 \<le> n" "n < 0x10000" | "0x10000 \<le> n" "n < 0x110000"
    using n by linarith
  then show ?thesis
  proof cases
    case 1
    then show ?thesis
      by (simp add: utf8_bytes_def Let_def n_def [symmetric] unat_octet) (simp add: c)
  next
    case 2
    obtain a b where d: "n = a * 64 + b" "b < 64" using digits64 .
    then have "2 \<le> a" "a < 32" using 2 by linarith+
    with d two_bytes [of a b] show ?thesis unfolding c by simp
  next
    case 3
    obtain k e where k: "n = k * 64 + e" "e < 64" using digits64 .
    obtain a b where d: "k = a * 64 + b" "b < 64" using digits64 .
    have "a < 16" using k d 3 by linarith
    moreover have "a = 0 \<longrightarrow> 32 \<le> b" using k d 3 by linarith
    moreover have "a = 13 \<longrightarrow> b < 32" using k d n by linarith
    ultimately show ?thesis using three_bytes [of a b e] d(2) k(2) unfolding c k(1) d(1) by simp
  next
    case 4
    obtain j g where j: "n = j * 64 + g" "g < 64" using digits64 .
    obtain k e where k: "j = k * 64 + e" "e < 64" using digits64 .
    obtain a b where d: "k = a * 64 + b" "b < 64" using digits64 .
    have "a < 5" using j k d 4 by linarith
    moreover have "a = 0 \<longrightarrow> 16 \<le> b" using j k d 4 by linarith
    moreover have "a = 4 \<longrightarrow> b < 16" using j k d 4 by linarith
    ultimately show ?thesis
      using four_bytes [of a b e g] d(2) k(2) j(2) unfolding c j(1) k(1) d(1) by simp
  qed
qed

lemma first_scalar_cases:
  assumes "first_scalar (a # t) = Some (c, r)"
  obtains "unat a < 0x80" "c = of_nat (unat a)" "r = t"
    | b where "0xC2 \<le> unat a" "unat a < 0xE0" "t = b # r" "continuation b"
        "c = of_nat ((unat a - 0xC0) * 64 + low6 b)"
    | b b' where "0xE0 \<le> unat a" "unat a < 0xF0" "t = b # b' # r" "continuation b" "continuation b'"
        "unat a = 0xE0 \<longrightarrow> 0xA0 \<le> unat b" "unat a = 0xED \<longrightarrow> unat b < 0xA0"
        "c = of_nat (((unat a - 0xE0) * 64 + low6 b) * 64 + low6 b')"
    | b b' b'' where "0xF0 \<le> unat a" "unat a < 0xF5" "t = b # b' # b'' # r"
        "continuation b" "continuation b'" "continuation b''"
        "unat a = 0xF0 \<longrightarrow> 0x90 \<le> unat b" "unat a = 0xF4 \<longrightarrow> unat b < 0x90"
        "c = of_nat ((((unat a - 0xF0) * 64 + low6 b) * 64 + low6 b') * 64 + low6 b'')"
proof -
  define x where "x = unat a"
  note f = assms [unfolded first_scalar.simps Let_def x_def [symmetric]] and ways = that [folded x_def]
  consider "x < 0x80" | "\<not> x < 0x80" "0xC2 \<le> x \<and> x < 0xE0"
    | "\<not> x < 0x80" "\<not> (0xC2 \<le> x \<and> x < 0xE0)" "0xE0 \<le> x \<and> x < 0xF0"
    | "\<not> x < 0x80" "\<not> (0xC2 \<le> x \<and> x < 0xE0)" "\<not> (0xE0 \<le> x \<and> x < 0xF0)" "0xF0 \<le> x \<and> x < 0xF5"
    | "\<not> x < 0x80" "\<not> (0xC2 \<le> x \<and> x < 0xE0)" "\<not> (0xE0 \<le> x \<and> x < 0xF0)" "\<not> (0xF0 \<le> x \<and> x < 0xF5)"
    by blast
  then show thesis
  proof cases
    case 1
    with f show ?thesis by (intro ways(1)) simp_all
  next
    case 2
    note g = f [unfolded if_not_P [OF 2(1)] if_P [OF 2(2)]]
    then show ?thesis using 2(2) ways(2) by (auto split: list.splits if_splits)
  next
    case 3
    note g = f [unfolded if_not_P [OF 3(1)] if_not_P [OF 3(2)] if_P [OF 3(3)]]
    then show ?thesis using 3(3) by (cases t; cases "tl t") (auto intro!: ways(3) split: if_splits)
  next
    case 4
    note g = f [unfolded if_not_P [OF 4(1)] if_not_P [OF 4(2)] if_not_P [OF 4(3)] if_P [OF 4(4)]]
    then show ?thesis using 4(4)
      by (cases t; cases "tl t"; cases "tl (tl t)") (auto intro!: ways(4) split: if_splits)
  next
    case 5
    with f show ?thesis by (simp only: if_False) simp
  qed
qed

lemma first_scalar_SomeD:
  assumes "first_scalar bs = Some (c, r)"
  shows "is_scalar c \<and> bs = utf8_bytes c @ r"
proof (cases bs)
  case Nil
  then show ?thesis using assms by simp
next
  case (Cons a t)
  define x where "x = unat a"
  have a: "a = octet x" by (simp add: x_def)
  consider "x < 0x80" "c = of_nat x" "r = t"
    | b where "0xC2 \<le> x" "x < 0xE0" "t = b # r" "continuation b" "c = of_nat ((x - 0xC0) * 64 + low6 b)"
    | b b' where "0xE0 \<le> x" "x < 0xF0" "t = b # b' # r" "continuation b" "continuation b'"
        "x = 0xE0 \<longrightarrow> 0xA0 \<le> unat b" "x = 0xED \<longrightarrow> unat b < 0xA0"
        "c = of_nat (((x - 0xE0) * 64 + low6 b) * 64 + low6 b')"
    | b b' b'' where "0xF0 \<le> x" "x < 0xF5" "t = b # b' # b'' # r"
        "continuation b" "continuation b'" "continuation b''"
        "x = 0xF0 \<longrightarrow> 0x90 \<le> unat b" "x = 0xF4 \<longrightarrow> unat b < 0x90"
        "c = of_nat ((((x - 0xF0) * 64 + low6 b) * 64 + low6 b') * 64 + low6 b'')"
    using assms unfolding Cons by (rule first_scalar_cases [of a t c r, folded x_def])
  then show ?thesis
  proof cases
    case 1
    then show ?thesis by (simp add: Cons a is_scalar_def utf8_bytes_def Let_def unat_scalar)
  next
    case (2 b)
    define d where "d = x - 0xC0"
    have x: "x = 0xC0 + d" "2 \<le> d" "d < 32" using 2 by (auto simp: d_def)
    have "is_scalar c"
      using x octet_low6 [OF 2(4)] by (simp add: 2(5) d_def [symmetric] is_scalar_def unat_scalar del: of_nat_add of_nat_mult)
    then show ?thesis
      using two_bytes(1) [OF x(2,3), of "low6 b"] octet_low6 [OF 2(4)] by (simp add: Cons 2(3,5) a x(1))
  next
    case (3 b b')
    define d where "d = x - 0xE0"
    have x: "x = 0xE0 + d" "d < 16" using 3 by (auto simp: d_def)
    have l: "low6 b < 64" "low6 b' < 64" "octet (0x80 + low6 b) = b" "octet (0x80 + low6 b') = b'"
      using octet_low6 3 by blast+
    have d: "d = 0 \<longrightarrow> 32 \<le> low6 b" "d = 13 \<longrightarrow> low6 b < 32"
      using 3(4,6,7) x by (auto simp: low6_def continuation_def)
    have "(d * 64 + low6 b) * 64 + low6 b' < 0x10000" using x(2) l(1,2) by auto
    moreover have "(d * 64 + low6 b) * 64 + low6 b' < 0xD800 \<or> 0xE000 \<le> (d * 64 + low6 b) * 64 + low6 b'"
      using d(2) l x(2) by (cases "d < 13"; cases "d = 13") auto
    ultimately have "is_scalar c"
      by (simp add: 3(8) d_def [symmetric] is_scalar_def unat_scalar del: of_nat_add of_nat_mult)
    then show ?thesis
      using three_bytes(1) [OF x(2) l(1,2) d(1)] l(3,4) by (simp add: Cons 3(3,8) a x(1))
  next
    case (4 b b' b'')
    define d where "d = x - 0xF0"
    have x: "x = 0xF0 + d" "d < 5" using 4 by (auto simp: d_def)
    have l: "low6 b < 64" "low6 b' < 64" "low6 b'' < 64"
      "octet (0x80 + low6 b) = b" "octet (0x80 + low6 b') = b'" "octet (0x80 + low6 b'') = b''"
      using octet_low6 4 by blast+
    have d: "d = 0 \<longrightarrow> 16 \<le> low6 b" "d = 4 \<longrightarrow> low6 b < 16"
      using 4(4,7,8) x by (auto simp: low6_def continuation_def)
    have "((d * 64 + low6 b) * 64 + low6 b') * 64 + low6 b'' < 0x110000"
      using d(2) x(2) l by (cases "d = 4") auto
    moreover have "0x10000 \<le> ((d * 64 + low6 b) * 64 + low6 b') * 64 + low6 b''"
      using d(1) by (cases "d = 0") auto
    ultimately have "is_scalar c"
      by (simp add: 4(9) d_def [symmetric] is_scalar_def unat_scalar del: of_nat_add of_nat_mult)
    then show ?thesis
      using four_bytes(1) [OF x(2) l(1-3) d(1)] l(4-6) by (simp add: Cons 4(3,9) a x(1))
  qed
qed

lemma first_scalar_iff: "first_scalar bs = Some (c, r) \<longleftrightarrow> is_scalar c \<and> bs = utf8_bytes c @ r"
  using first_scalar_bytes first_scalar_SomeD by blast

lemma utf8_bytes_not_Nil [simp]: "utf8_bytes c \<noteq> []"
  by (simp add: utf8_bytes_def Let_def)

lemma from_utf8_iff: "from_utf8 bs = Some t \<longleftrightarrow> list_all is_scalar t \<and> bs = as_bytes t"
proof (induction bs arbitrary: t rule: from_utf8.induct)
  case (1 bs)
  show ?case
  proof (cases t)
    case Nil
    then show ?thesis by (subst from_utf8.simps) (auto simp: as_bytes_def split: option.splits)
  next
    case (Cons c u)
    have "from_utf8 bs = Some t \<longleftrightarrow> bs \<noteq> [] \<and> (\<exists>r. first_scalar bs = Some (c, r) \<and> from_utf8 r = Some u)"
      by (subst from_utf8.simps) (auto simp: Cons split: option.splits)
    also have "\<dots> \<longleftrightarrow> bs \<noteq> [] \<and> (\<exists>r. first_scalar bs = Some (c, r) \<and> list_all is_scalar u \<and> r = as_bytes u)"
      using 1 by blast
    also have "\<dots> \<longleftrightarrow> list_all is_scalar t \<and> bs = as_bytes t"
      by (auto simp: Cons first_scalar_iff as_bytes_def)
    finally show ?thesis .
  qed
qed

end
