(* ===== verification/Wire_Input.thy ===== *)
theory Wire_Input
  imports Wire_Record Utf8
begin

text \<open>
  The input records a viewer sends: \<open>fr-wire/src/input.rs\<close> (one request per record) and
  \<open>fr-wire/src/held_state.rs\<close> (the release-only snapshot of held keys and buttons). Parsing
  grants no authority; the direction and the delivery are those of the authenticated channel.
\<close>

section \<open>Routes\<close>

datatype InputDirection = ViewerToHost | HostToViewer

datatype InputDelivery = Reliable | Datagram

definition INPUT_PREFIX_BYTES :: nat where
  "INPUT_PREFIX_BYTES = 88"

definition KEYBOARD_USAGE_PAGE :: u16 where
  "KEYBOARD_USAGE_PAGE = 7"

definition MAX_TEXT_BYTES :: nat where
  "MAX_TEXT_BYTES = MAX_COMMITTED_TEXT_BYTES"

fun event_kind :: "InputEvent \<Rightarrow> Kind" where
  "event_kind (EvKey _ _) = KKey"
| "event_kind (EvButton _ _ _ _) = KButton"
| "event_kind (EvPointer _) = KPointer"
| "event_kind (EvRelative _ _ _) = KRelative"
| "event_kind (EvScroll _ _ _ _ _) = KScroll"
| "event_kind (EvText _) = KText"
| "event_kind (EvMode _ _) = KInputMode"

definition validate_route :: "InputDirection \<Rightarrow> InputDelivery \<Rightarrow> Kind \<Rightarrow> WireError + unit" where
  "validate_route direction delivery kind =
     (if direction \<noteq> ViewerToHost then Inl WrongRole
      else if delivery = Datagram \<and> kind \<noteq> KPointer then Inl WrongChannel
      else Inr ())"

section \<open>Fields of an event\<close>

definition read_point :: "byte list \<Rightarrow> (byte list, WireError, DesktopPoint) outcome" where
  "read_point r =
     try_then (reader_u32 r) (\<lambda>x r.
     try_then (reader_u32 r) (\<lambda>y r. (Inr \<lparr>dp_x = x, dp_y = y\<rparr>, r)))"

definition put_point :: "DesktopPoint \<Rightarrow> Writer \<Rightarrow> (Writer, WireError, unit) outcome" where
  "put_point p w = try_then (writer_u32 (dp_x p) w) (\<lambda>_. writer_u32 (dp_y p))"

fun transition_code :: "KeyTransition \<Rightarrow> u8" where
  "transition_code Release = 0"
| "transition_code Press = 1"
| "transition_code Repeat = 2"

definition transition_arms :: "(u8 \<times> KeyTransition) list" where
  "transition_arms = [(0, Release), (1, Press), (2, Repeat)]"

definition button_arms :: "(u8 \<times> PointerButton) list" where
  "button_arms = [(1, Primary), (2, Secondary), (3, Middle), (4, Back), (5, Forward)]"

fun unit_code :: "ScrollUnit \<Rightarrow> u8" where
  "unit_code Pixels = 0"
| "unit_code Lines = 1"

definition unit_arms :: "(u8 \<times> ScrollUnit) list" where
  "unit_arms = [(0, Pixels), (1, Lines)]"

fun mode_code :: "PointerMode \<Rightarrow> u8" where
  "mode_code AbsoluteMode = 0"
| "mode_code RelativeMode = 1"

definition mode_arms :: "(u8 \<times> PointerMode) list" where
  "mode_arms = [(0, AbsoluteMode), (1, RelativeMode)]"

definition read_event :: "Kind \<Rightarrow> byte list \<Rightarrow> (byte list, WireError, InputEvent) outcome" where
  "read_event k r =
     (if k = KKey then
        try_then (reader_u16 r) (\<lambda>page r.
        if page \<noteq> KEYBOARD_USAGE_PAGE then (Inl InvalidValue, r) else
        try_then (reader_u16 r) (\<lambda>u r.
        try_then (ok_or InvalidValue (physical_key_new u), r) (\<lambda>key r.
        try_then (reader_enum transition_arms r) (\<lambda>transition r. (Inr (EvKey key transition), r)))))
      else if k = KButton then
        try_then (reader_enum button_arms r) (\<lambda>button r.
        try_then (reader_enum bool_arms r) (\<lambda>pressed r.
        try_then (read_point r) (\<lambda>place r.
        try_then (reader_u64 r) (\<lambda>barrier r. (Inr (EvButton button pressed place barrier), r)))))
      else if k = KPointer then
        try_then (read_point r) (\<lambda>place r. (Inr (EvPointer place), r))
      else if k = KRelative then
        try_then (reader_u64 r) (\<lambda>epoch r.
        try_then (reader_u64 r) (\<lambda>x r.
        try_then (reader_u64 r) (\<lambda>y r. (Inr (EvRelative epoch x y), r))))
      else if k = KScroll then
        try_then (read_point r) (\<lambda>place r.
        try_then (reader_u64 r) (\<lambda>barrier r.
        try_then (reader_u32 r) (\<lambda>x r.
        try_then (reader_u32 r) (\<lambda>y r.
        try_then (reader_enum unit_arms r) (\<lambda>unit r. (Inr (EvScroll place barrier x y unit), r))))))
      else if k = KText then
        try_then (reader_data r) (\<lambda>text r.
        if text = [] \<or> length text > MAX_TEXT_BYTES then (Inl ResourceLimit, r)
        else try_then (ok_or InvalidValue (from_utf8 text), r) (\<lambda>text r. (Inr (EvText text), r)))
      else if k = KInputMode then
        try_then (reader_enum mode_arms r) (\<lambda>mode r.
        try_then (reader_u64 r) (\<lambda>epoch r. (Inr (EvMode mode epoch), r)))
      else (Inl UnsupportedKind, r))"

fun put_event :: "InputEvent \<Rightarrow> Writer \<Rightarrow> (Writer, WireError, unit) outcome" where
  "put_event (EvKey key transition) w =
     try_then (writer_u16 KEYBOARD_USAGE_PAGE w) (\<lambda>_ w.
     try_then (writer_u16 (usage key) w) (\<lambda>_.
     writer_u8 (transition_code transition)))"
| "put_event (EvButton button pressed place barrier) w =
     try_then (writer_u8 (of_nat (button_code button)) w) (\<lambda>_ w.
     try_then (writer_u8 (bool_code pressed) w) (\<lambda>_ w.
     try_then (put_point place w) (\<lambda>_.
     writer_u64 barrier)))"
| "put_event (EvPointer place) w = put_point place w"
| "put_event (EvRelative epoch x y) w =
     try_then (writer_u64 epoch w) (\<lambda>_ w.
     try_then (writer_u64 x w) (\<lambda>_.
     writer_u64 y))"
| "put_event (EvScroll place barrier x y unit) w =
     try_then (put_point place w) (\<lambda>_ w.
     try_then (writer_u64 barrier w) (\<lambda>_ w.
     try_then (writer_u32 x w) (\<lambda>_ w.
     try_then (writer_u32 y w) (\<lambda>_.
     writer_u8 (unit_code unit)))))"
| "put_event (EvText text) w = writer_data (as_bytes text) w"
| "put_event (EvMode mode epoch) w =
     try_then (writer_u8 (mode_code mode) w) (\<lambda>_.
     writer_u64 epoch)"

section \<open>Requests\<close>

definition read_credentials :: "byte list \<Rightarrow> (byte list, WireError, InputCredentials) outcome" where
  "read_credentials r =
     try_then (reader_u128 r) (\<lambda>session r.
     try_then (reader_u128 r) (\<lambda>lease r.
     try_then (reader_u128 r) (\<lambda>ticket r.
     try_then (reader_u64 r) (\<lambda>geometry r.
     try_then (reader_u64 r) (\<lambda>viewport r.
     try_then (reader_u64 r) (\<lambda>configuration r.
     try_then (reader_u64 r) (\<lambda>recovery r.
     (Inr \<lparr>ic_session = Opaque session, ic_lease = Opaque lease, ic_ticket = Opaque ticket,
           ic_view = \<lparr>iv_geometry = Generation geometry, iv_viewport = Generation viewport,
                      iv_configuration = Generation configuration, iv_recovery = Generation recovery\<rparr>\<rparr>,
      r))))))))"

definition decode_input ::
  "byte list \<Rightarrow> ProtocolLimits \<Rightarrow> u32 \<Rightarrow> InputDirection \<Rightarrow> InputDelivery \<Rightarrow> WireError + InputRequest" where
  "decode_input bytes limits binding direction delivery =
     (if direction \<noteq> ViewerToHost then Inl WrongRole else
      try_res (decode_bounded bytes (unat (pl_max_control_message_bytes limits)) binding None) (\<lambda>record.
      let k = rc_kind record in
      try_res (validate_route direction delivery k) (\<lambda>_.
      try_res (record_reader record k) (\<lambda>r.
      fst (
        try_then (read_credentials r) (\<lambda>credentials r.
        try_then (reader_u64 r) (\<lambda>sequence r.
        try_then (read_event k r) (\<lambda>event r.
        try_then (reader_finish r, r) (\<lambda>_ r.
        (Inr \<lparr>ir_credentials = credentials, ir_sequence = sequence, ir_event = event\<rparr>, r))))))))))"

fun event_size :: "InputEvent \<Rightarrow> WireError + nat" where
  "event_size (EvKey _ _) = Inr 5"
| "event_size (EvButton _ _ _ _) = Inr 18"
| "event_size (EvPointer _) = Inr 8"
| "event_size (EvRelative _ _ _) = Inr 24"
| "event_size (EvScroll _ _ _ _ _) = Inr 25"
| "event_size (EvMode _ _) = Inr 9"
| "event_size (EvText text) =
     (if text = [] \<or> text_len text > MAX_TEXT_BYTES then Inl ResourceLimit else Inr (4 + text_len text))"

definition put_input :: "InputRequest \<Rightarrow> Writer \<Rightarrow> (Writer, WireError, unit) outcome" where
  "put_input request w =
     (let c = ir_credentials request in
      try_then (writer_u128s [id_raw (ic_session c), id_raw (ic_lease c), id_raw (ic_ticket c)] w) (\<lambda>_ w.
      try_then (writer_u64s [gen_raw (iv_geometry (ic_view c)), gen_raw (iv_viewport (ic_view c)),
          gen_raw (iv_configuration (ic_view c)), gen_raw (iv_recovery (ic_view c)), ir_sequence request] w) (\<lambda>_.
      put_event (ir_event request))))"

definition encode_input ::
  "InputRequest \<Rightarrow> byte list \<Rightarrow> ProtocolLimits \<Rightarrow> u32 \<Rightarrow> InputDirection \<Rightarrow> InputDelivery
   \<Rightarrow> (byte list, WireError, nat) outcome" where
  "encode_input request out limits binding direction delivery =
     (let k = event_kind (ir_event request) in
      try_then (validate_route direction delivery k, out) (\<lambda>_ out.
      try_then (event_size (ir_event request), out) (\<lambda>size out.
      write_record out (unat (pl_max_control_message_bytes limits)) binding k (INPUT_PREFIX_BYTES + size)
        (put_input request))))"

section \<open>Held state\<close>

definition HELD_STATE_BYTES :: nat where
  "HELD_STATE_BYTES = HEADER_BYTES + 16 + 16 + 8 + 8 + KEY_BITMAP_BYTES + 1"

definition held_role :: "InputDirection \<Rightarrow> InputDelivery \<Rightarrow> WireError + unit" where
  "held_role direction delivery =
     (if direction \<noteq> ViewerToHost then Inl WrongRole
      else if delivery \<noteq> Reliable then Inl WrongChannel
      else Inr ())"

definition held_request_valid :: "HeldStateRequest \<Rightarrow> u32 \<Rightarrow> WireError + unit" where
  "held_request_valid request binding =
     (if binding = 0 \<or> id_raw (hr_session request) = 0 \<or> id_raw (hr_lease request) = 0
      then Inl InvalidBinding else Inr ())"

definition put_held :: "HeldStateRequest \<Rightarrow> Writer \<Rightarrow> (Writer, WireError, unit) outcome" where
  "put_held request w =
     try_then (writer_u128 (id_raw (hr_session request)) w) (\<lambda>_ w.
     try_then (writer_u128 (id_raw (hr_lease request)) w) (\<lambda>_ w.
     try_then (writer_u64 (hr_sequence request) w) (\<lambda>_ w.
     try_then (writer_u64 (hr_next_action request) w) (\<lambda>_ w.
     try_then (writer_put (hs_keys (hr_held request)) w) (\<lambda>_.
     writer_u8 (hs_buttons (hr_held request)))))))"

definition encode_held_state ::
  "HeldStateRequest \<Rightarrow> byte list \<Rightarrow> ProtocolLimits \<Rightarrow> u32 \<Rightarrow> InputDirection \<Rightarrow> InputDelivery
   \<Rightarrow> (byte list, WireError, nat) outcome" where
  "encode_held_state request out limits binding direction delivery =
     try_then (held_role direction delivery, out) (\<lambda>_ out.
     try_then (held_request_valid request binding, out) (\<lambda>_ out.
     write_record out (unat (pl_max_control_message_bytes limits)) binding KHeldState
       (HELD_STATE_BYTES - HEADER_BYTES) (put_held request)))"

definition read_held :: "u32 \<Rightarrow> byte list \<Rightarrow> (byte list, WireError, HeldStateRequest) outcome" where
  "read_held binding r =
     try_then (reader_u128 r) (\<lambda>session r.
     try_then (reader_u128 r) (\<lambda>lease r.
     try_then (reader_u64 r) (\<lambda>sequence r.
     try_then (reader_u64 r) (\<lambda>next_action r.
     try_then (reader_take KEY_BITMAP_BYTES r) (\<lambda>keys r.
     try_then (reader_u8 r) (\<lambda>buttons r.
     try_then (ok_or InvalidValue (from_bits keys buttons), r) (\<lambda>held r.
     try_then (reader_finish r, r) (\<lambda>_ r.
     let request = \<lparr>hr_session = Opaque session, hr_lease = Opaque lease, hr_sequence = sequence,
                    hr_next_action = next_action, hr_held = held\<rparr> in
     try_then (held_request_valid request binding, r) (\<lambda>_ r.
     (Inr request, r))))))))))"

definition decode_held_state ::
  "byte list \<Rightarrow> ProtocolLimits \<Rightarrow> u32 \<Rightarrow> InputDirection \<Rightarrow> InputDelivery \<Rightarrow> WireError + HeldStateRequest" where
  "decode_held_state bytes limits binding direction delivery =
     try_res (held_role direction delivery) (\<lambda>_.
     try_res (decode_bounded bytes (unat (pl_max_control_message_bytes limits)) binding None) (\<lambda>record.
     try_res (record_reader record KHeldState) (\<lambda>r.
     fst (read_held binding r))))"

section \<open>Layouts\<close>

definition point_layout :: "DesktopPoint \<Rightarrow> byte list" where
  "point_layout p = to_be_bytes (dp_x p) @ to_be_bytes (dp_y p)"

interpretation point: wire_field put_point read_point point_layout "\<lambda>_. True"
proof unfold_locales
  show "writes (put_point p) (point_layout p)" for p
    unfolding put_point_def [abs_def] point_layout_def by (intro wire_writes) simp_all
  show "read_point r = (Inr p, rest) \<longleftrightarrow> True \<and> r = point_layout p @ rest" for r p rest
    by (cases p) (auto simp: read_point_def wire_reads point_layout_def)
qed

lemma transition_arms_iff: "map_of transition_arms c = Some v \<longleftrightarrow> c = transition_code v"
  by (cases v) (auto simp: transition_arms_def split: if_splits)

interpretation transition: enum8 transition_code transition_arms
  by unfold_locales (rule transition_arms_iff)

lemma button_arms_iff: "map_of button_arms c = Some v \<longleftrightarrow> c = of_nat (button_code v)"
  by (cases v) (auto simp: button_arms_def split: if_splits)

interpretation button: enum8 "\<lambda>b. of_nat (button_code b)" button_arms
  by unfold_locales (rule button_arms_iff)

lemma unit_arms_iff: "map_of unit_arms c = Some v \<longleftrightarrow> c = unit_code v"
  by (cases v) (auto simp: unit_arms_def split: if_splits)

interpretation scroll_unit: enum8 unit_code unit_arms
  by unfold_locales (rule unit_arms_iff)

lemma mode_arms_iff: "map_of mode_arms c = Some v \<longleftrightarrow> c = mode_code v"
  by (cases v) (auto simp: mode_arms_def split: if_splits)

interpretation pointer_mode: enum8 mode_code mode_arms
  by unfold_locales (rule mode_arms_iff)

fun event_layout :: "InputEvent \<Rightarrow> byte list" where
  "event_layout (EvKey key transition) =
     to_be_bytes KEYBOARD_USAGE_PAGE @ to_be_bytes (usage key) @ [transition_code transition]"
| "event_layout (EvButton button pressed place barrier) =
     [of_nat (button_code button)] @ [bool_code pressed] @ point_layout place @ to_be_bytes barrier"
| "event_layout (EvPointer place) = point_layout place"
| "event_layout (EvRelative epoch x y) = to_be_bytes epoch @ to_be_bytes x @ to_be_bytes y"
| "event_layout (EvScroll place barrier x y unit) =
     point_layout place @ to_be_bytes barrier @ to_be_bytes x @ to_be_bytes y @ [unit_code unit]"
| "event_layout (EvText text) = data_layout (as_bytes text)"
| "event_layout (EvMode mode epoch) = [mode_code mode] @ to_be_bytes epoch"

text \<open>
  The events Rust's types admit: a physical key of the accepted usages (its field is private)
  and a text of scalar values. The codec itself bounds the text.
\<close>

fun event_typed :: "InputEvent \<Rightarrow> bool" where
  "event_typed (EvKey key _) = valid_key key"
| "event_typed (EvText text) = list_all is_scalar text"
| "event_typed _ = True"

definition event_sized :: "InputEvent \<Rightarrow> bool" where
  "event_sized event \<longleftrightarrow> is_ok (event_size event)"

lemma length_event_layout:
  "event_size event = Inr n \<Longrightarrow> length (event_layout event) = n"
  by (cases event) (auto simp: point_layout_def data_layout_def length_as_bytes split: if_splits)

lemma text_len_le: "is_ok (event_size (EvText text)) \<Longrightarrow> length (as_bytes text) < 2 ^ 32"
  by (simp add: length_as_bytes MAX_TEXT_BYTES_def MAX_COMMITTED_TEXT_BYTES_def split: if_splits)

lemma put_event_writes: "event_sized event \<Longrightarrow> writes (put_event event) (event_layout event)"
  unfolding event_sized_def
  by (cases event; simp only: put_event.simps [abs_def] event_layout.simps; (intro wire_writes transition.field.put_writes
      button.field.put_writes scroll_unit.field.put_writes pointer_mode.field.put_writes point.put_writes text_len_le)?)
    simp_all

lemma key_layout_iff: "physical_key_new u = Some key \<longleftrightarrow> valid_key key \<and> u = usage key"
  by (auto simp: valid_key_def physical_key_new_Some)

lemmas event_reads = wire_reads transition.field.get_iff button.field.get_iff scroll_unit.field.get_iff
  pointer_mode.field.get_iff point.get_iff

lemma as_bytes_Nil: "as_bytes t = [] \<longleftrightarrow> t = []"
  by (cases t) (simp_all add: as_bytes_def)

lemma text_sized_iff:
  "as_bytes text \<noteq> [] \<and> length (as_bytes text) \<le> MAX_TEXT_BYTES \<longleftrightarrow> event_sized (EvText text)"
  by (auto simp: event_sized_def length_as_bytes as_bytes_Nil)

lemma read_event_iff:
  "read_event k r = (Inr event, rest) \<longleftrightarrow>
     event_kind event = k \<and> event_typed event \<and> event_sized event \<and> r = event_layout event @ rest"
proof -
  consider "k = KKey" | "k = KButton" | "k = KPointer" | "k = KRelative" | "k = KScroll" | "k = KText" | "k = KInputMode"
    | "k \<notin> {KKey, KButton, KPointer, KRelative, KScroll, KText, KInputMode}" by blast
  then show ?thesis
  proof cases
    case 1
    then show ?thesis
      by (cases event) (auto simp: read_event_def event_reads key_layout_iff event_sized_def split: if_splits)
  next
    case 2
    then show ?thesis by (cases event) (auto simp: read_event_def event_reads event_sized_def)
  next
    case 3
    then show ?thesis by (cases event) (auto simp: read_event_def event_reads event_sized_def)
  next
    case 4
    then show ?thesis by (cases event) (auto simp: read_event_def event_reads event_sized_def)
  next
    case 5
    then show ?thesis by (cases event) (auto simp: read_event_def event_reads event_sized_def)
  next
    case 6
    have "(if d = [] \<or> length d > MAX_TEXT_BYTES then (Inl ResourceLimit, r')
        else try_then (ok_or InvalidValue (from_utf8 d), r') (\<lambda>text r. (Inr (EvText text), r))) = (Inr event, rest)
      \<longleftrightarrow> r' = rest \<and> (\<exists>t. event = EvText t \<and> event_typed event \<and> event_sized event \<and> d = as_bytes t)" for d r'
      by (auto simp: try_then_Inr_iff from_utf8_iff text_sized_iff [symmetric])
    then have "read_event k r = (Inr event, rest) \<longleftrightarrow>
      (\<exists>t. event = EvText t \<and> event_typed event \<and> event_sized event \<and> length (as_bytes t) < 2 ^ 32
         \<and> r = event_layout event @ rest)"
      unfolding read_event_def by (auto simp: 6 event_reads)
    also have "\<dots> \<longleftrightarrow> event_kind event = k \<and> event_typed event \<and> event_sized event \<and> r = event_layout event @ rest"
      using text_len_le by (cases event) (auto simp: 6 event_sized_def)
    finally show ?thesis .
  next
    case 7
    then show ?thesis by (cases event) (auto simp: read_event_def event_reads event_sized_def)
  next
    case 8
    then show ?thesis by (cases event) (auto simp: read_event_def)
  qed
qed

interpretation event: wire_field put_event "read_event k" event_layout
  "\<lambda>event. event_kind event = k \<and> event_typed event \<and> event_sized event" for k
  by unfold_locales (auto simp: read_event_iff put_event_writes)

definition credentials_layout :: "InputCredentials \<Rightarrow> byte list" where
  "credentials_layout c =
     to_be_bytes (id_raw (ic_session c)) @ to_be_bytes (id_raw (ic_lease c)) @ to_be_bytes (id_raw (ic_ticket c))
     @ to_be_bytes (gen_raw (iv_geometry (ic_view c))) @ to_be_bytes (gen_raw (iv_viewport (ic_view c)))
     @ to_be_bytes (gen_raw (iv_configuration (ic_view c))) @ to_be_bytes (gen_raw (iv_recovery (ic_view c)))"

lemma credentials_surjective:
  "c = \<lparr>ic_session = Opaque (id_raw (ic_session c)), ic_lease = Opaque (id_raw (ic_lease c)),
        ic_ticket = Opaque (id_raw (ic_ticket c)),
        ic_view = \<lparr>iv_geometry = Generation (gen_raw (iv_geometry (ic_view c))),
                   iv_viewport = Generation (gen_raw (iv_viewport (ic_view c))),
                   iv_configuration = Generation (gen_raw (iv_configuration (ic_view c))),
                   iv_recovery = Generation (gen_raw (iv_recovery (ic_view c)))\<rparr>\<rparr>" for c :: InputCredentials
  by simp

lemma read_credentials_iff: "read_credentials r = (Inr c, rest) \<longleftrightarrow> r = credentials_layout c @ rest"
  by (subst credentials_surjective [of c])
    (auto simp: read_credentials_def wire_reads credentials_layout_def intro!: exI)

definition input_layout :: "InputRequest \<Rightarrow> byte list" where
  "input_layout request =
     credentials_layout (ir_credentials request) @ to_be_bytes (ir_sequence request) @ event_layout (ir_event request)"

lemma length_credentials_layout [simp]: "length (credentials_layout c) = 80"
  by (simp add: credentials_layout_def)

lemma event_kind_plain [simp]: "kind_channel (event_kind event) = None" "\<not> kind_initial (event_kind event)"
  by (cases event; simp add: kind_channel_def kind_initial_def)+

definition input_typed :: "InputRequest \<Rightarrow> bool" where
  "input_typed request = event_typed (ir_event request)"

definition input_admissible :: "u32 \<Rightarrow> InputDirection \<Rightarrow> InputDelivery \<Rightarrow> InputRequest \<Rightarrow> bool" where
  "input_admissible binding direction delivery request \<longleftrightarrow>
     binding \<noteq> 0 \<and> validate_route direction delivery (event_kind (ir_event request)) = Inr ()
     \<and> event_sized (ir_event request)"

lemma put_input_writes:
  assumes "event_sized (ir_event request)"
  shows "writes (put_input request) (input_layout request)"
proof -
  let ?c = "ir_credentials request"
  have "writes (put_input request)
    (concat (map to_be_bytes [id_raw (ic_session ?c), id_raw (ic_lease ?c), id_raw (ic_ticket ?c)])
     @ concat (map to_be_bytes [gen_raw (iv_geometry (ic_view ?c)), gen_raw (iv_viewport (ic_view ?c)),
          gen_raw (iv_configuration (ic_view ?c)), gen_raw (iv_recovery (ic_view ?c)), ir_sequence request])
     @ event_layout (ir_event request))"
    unfolding put_input_def [abs_def] Let_def by (intro wire_writes put_event_writes assms)
  then show ?thesis by (simp add: input_layout_def credentials_layout_def)
qed

lemma decode_input_iff:
  "decode_input bytes limits binding direction delivery = Inr request \<longleftrightarrow>
     input_typed request \<and> input_admissible binding direction delivery request
     \<and> length bytes \<le> unat (pl_max_control_message_bytes limits)
     \<and> framed bytes (event_kind (ir_event request)) binding (input_layout request)" (is "?L \<longleftrightarrow> ?R")
proof
  assume ?L
  then obtain rc where rc: "decode_bounded bytes (unat (pl_max_control_message_bytes limits)) binding None = Inr rc"
    and route: "validate_route direction delivery (rc_kind rc) = Inr ()"
    and payload: "rc_payload rc = input_layout request" and kind: "event_kind (ir_event request) = rc_kind rc"
    and ok: "event_typed (ir_event request)" "event_sized (ir_event request)"
    by (cases request) (auto simp: decode_input_def try_res_Inr_iff Let_def record_reader_def fst_Inr_iff
        wire_reads read_credentials_iff read_event_iff reader_finish_iff input_layout_def split: if_splits)
  then have "framed bytes (event_kind (ir_event request)) binding (input_layout request)"
    and "length bytes \<le> unat (pl_max_control_message_bytes limits)" by (simp_all add: decode_bounded_iff)
  moreover from this have "binding \<noteq> 0" by (auto simp: framed_def)
  ultimately show ?R using route ok kind by (simp add: input_typed_def input_admissible_def)
next
  assume R: ?R
  let ?rc = "\<lparr>rc_kind = event_kind (ir_event request), rc_binding = binding, rc_payload = input_layout request\<rparr>"
  have "decode_bounded bytes (unat (pl_max_control_message_bytes limits)) binding None = Inr ?rc"
    using R by (simp add: decode_bounded_iff)
  moreover have "direction = ViewerToHost"
    using R by (auto simp: input_admissible_def validate_route_def split: if_splits)
  moreover have "read_event (event_kind (ir_event request)) (event_layout (ir_event request)) = (Inr (ir_event request), [])"
    using R by (simp add: read_event_iff input_typed_def input_admissible_def)
  moreover have "read_credentials (credentials_layout c @ rest) = (Inr c, rest)" for c rest
    by (simp add: read_credentials_iff)
  ultimately show ?L
    using R by (simp add: decode_input_def record_reader_def input_layout_def u64.get_layout
        reader_finish_def input_admissible_def)
qed

lemma length_input_layout:
  "event_size (ir_event request) = Inr n \<Longrightarrow> length (input_layout request) = INPUT_PREFIX_BYTES + n"
  by (simp add: input_layout_def INPUT_PREFIX_BYTES_def length_event_layout)

lemma event_size_le: "event_size event = Inr n \<Longrightarrow> n \<le> 4100"
  by (cases event) (auto simp: MAX_TEXT_BYTES_def MAX_COMMITTED_TEXT_BYTES_def split: if_splits)

interpretation input_codec: message_codec
  "\<lambda>request out. encode_input request out limits binding direction delivery"
  "\<lambda>bytes. decode_input bytes limits binding direction delivery"
  input_layout "\<lambda>request. event_kind (ir_event request)" binding "unat (pl_max_control_message_bytes limits)"
  input_typed "input_admissible binding direction delivery" for limits binding direction delivery
proof (rule codec_laws [where body = put_input])
  fix request out
  assume adm: "input_admissible binding direction delivery request"
  then obtain n where size: "event_size (ir_event request) = Inr n"
    by (auto simp: input_admissible_def event_sized_def is_ok_def split: sum.splits)
  show "length (input_layout request) < 2 ^ 32"
    using length_input_layout [OF size] event_size_le [OF size] by (simp add: INPUT_PREFIX_BYTES_def)
  show "binding \<noteq> 0 \<or> kind_initial (event_kind (ir_event request))"
    using adm by (simp add: input_admissible_def)
  show "encode_input request out limits binding direction delivery =
      write_record out (unat (pl_max_control_message_bytes limits)) binding (event_kind (ir_event request))
        (length (input_layout request)) (put_input request)"
    using adm size length_input_layout [OF size]
    by (simp add: encode_input_def input_admissible_def put_input_def [abs_def] Let_def)
  show "writes (put_input request) (input_layout request)"
    using adm by (intro put_input_writes) (simp add: input_admissible_def)
next
  fix request out
  assume "\<not> input_admissible binding direction delivery request"
  then show "\<exists>e. encode_input request out limits binding direction delivery = (Inl e, out)"
    using write_record_unbound [of binding "event_kind (ir_event request)"]
    by (cases "validate_route direction delivery (event_kind (ir_event request))";
        cases "event_size (ir_event request)")
      (auto simp: encode_input_def Let_def input_admissible_def event_sized_def)
qed (simp_all add: decode_input_iff)

definition held_layout :: "HeldStateRequest \<Rightarrow> byte list" where
  "held_layout request =
     to_be_bytes (id_raw (hr_session request)) @ to_be_bytes (id_raw (hr_lease request))
     @ to_be_bytes (hr_sequence request) @ to_be_bytes (hr_next_action request)
     @ hs_keys (hr_held request) @ [hs_buttons (hr_held request)]"

text \<open>A held state of the Rust type: an array of 32 bytes that \<open>from_bits\<close> accepted.\<close>

definition held_typed :: "HeldStateRequest \<Rightarrow> bool" where
  "held_typed request = held_valid (hr_held request)"

lemma read_held_iff:
  "read_held binding p = (Inr request, rest) \<longleftrightarrow>
     held_typed request \<and> held_request_valid request binding = Inr () \<and> p = held_layout request \<and> rest = []"
  (is "?L \<longleftrightarrow> ?R")
proof
  assume ?L
  then show ?R
    by (auto simp: read_held_def wire_reads reader_finish_iff Let_def held_layout_def held_typed_def held_valid_def
        from_bits_Some_iff)
next
  assume R: ?R
  have "from_bits (hs_keys (hr_held request)) (hs_buttons (hr_held request)) = Some (hr_held request)"
    "length (hs_keys (hr_held request)) = KEY_BITMAP_BYTES"
    using R by (simp_all add: held_typed_def held_valid_def)
  then show ?L
    using R by (cases request) (simp add: read_held_def held_layout_def u128.get_layout u64.get_layout reader_take_def
        u8.get_layout [where rest = "[]", simplified] reader_finish_def Let_def)
qed

lemma held_codec_size: "held_typed request \<Longrightarrow> length (held_layout request) = HELD_STATE_BYTES - HEADER_BYTES"
  by (simp add: held_typed_def held_valid_def held_layout_def HELD_STATE_BYTES_def)


lemma put_held_writes: "writes (put_held request) (held_layout request)"
  unfolding put_held_def [abs_def] held_layout_def by (intro wire_writes) simp_all

interpretation held_codec: message_codec
  "\<lambda>request out. encode_held_state request out limits binding direction delivery"
  "\<lambda>bytes. decode_held_state bytes limits binding direction delivery"
  held_layout "\<lambda>_. KHeldState" binding "unat (pl_max_control_message_bytes limits)"
  held_typed "\<lambda>request. held_role direction delivery = Inr () \<and> held_request_valid request binding = Inr ()"
  for limits binding direction delivery
proof (rule plain_codec_laws [where body = put_held and parse = "read_held binding"])
  fix request :: HeldStateRequest and out
  assume "held_typed request"
  then show "length (held_layout request) < 2 ^ 32"
    by (simp add: held_codec_size HELD_STATE_BYTES_def HEADER_BYTES_def KEY_BITMAP_BYTES_def)
qed (auto simp: put_held_writes kind_channel_def kind_initial_def read_held_iff encode_held_state_def
    decode_held_state_def held_codec_size held_request_valid_def held_role_def split: if_splits)

section \<open>Properties\<close>

text \<open>
  C29. The input codec is exact. A request of Rust's types is written exactly when the route
  admits it, its text is not empty and within 4096 bytes, and the record fits the limit and
  the buffer. What was written decodes to the same request and leaves the rest of the buffer
  alone; a refused request leaves the whole buffer alone. Conversely, a record that decodes
  is the encoding of its request, up to extensions the decoder may skip.
\<close>

theorem input_codec_is_exact:
  assumes "input_typed request"
  shows "(is_ok (fst (encode_input request out limits binding direction delivery)) \<longleftrightarrow>
      input_admissible binding direction delivery request
      \<and> HEADER_BYTES + length (input_layout request) \<le> min (unat (pl_max_control_message_bytes limits)) (length out))
   \<and> (encode_input request out limits binding direction delivery = (Inr n, out') \<longrightarrow>
      n \<le> length out \<and> decode_input (take n out') limits binding direction delivery = Inr request \<and> drop n out' = drop n out)
   \<and> (encode_input request out limits binding direction delivery = (Inl e, out') \<longrightarrow> out' = out)
   \<and> (decode_input bytes limits binding direction delivery = Inr request \<and> length bytes \<le> length out \<longrightarrow>
      (\<exists>extensions. validate_extensions extensions = Inr ()
         \<and> bytes = frame (event_kind (ir_event request)) binding (input_layout request) extensions
         \<and> encode_input request out limits binding direction delivery = (Inr (length bytes - length extensions),
             frame (event_kind (ir_event request)) binding (input_layout request) [] @ drop (length bytes - length extensions) out)))"
  using assms by (rule input_codec.exact)

definition example_text_request :: InputRequest where
  "example_text_request =
     \<lparr>ir_credentials = \<lparr>ic_session = Opaque 1, ic_lease = Opaque 2, ic_ticket = Opaque 3,
        ic_view = \<lparr>iv_geometry = Generation 4, iv_viewport = Generation 5,
                   iv_configuration = Generation 6, iv_recovery = Generation 7\<rparr>\<rparr>,
      ir_sequence = 9, ir_event = EvText [0x48, 0xE9, 0x20AC, 0x1F600]\<rparr>"

lemma example_text_typed: "input_typed example_text_request"
  by (simp add: input_typed_def example_text_request_def is_scalar_def)

theorem input_codec_is_exact_witness:
  "\<exists>n out'. encode_input example_text_request (replicate 200 0) ABSOLUTE 7 ViewerToHost Reliable = (Inr n, out')
     \<and> decode_input (take n out') ABSOLUTE 7 ViewerToHost Reliable = Inr example_text_request"
proof -
  let ?e = "encode_input example_text_request (replicate 200 0) ABSOLUTE 7 ViewerToHost Reliable"
  have size: "event_size (ir_event example_text_request) = Inr 14"
    by (simp add: example_text_request_def text_len_def utf8_len_def MAX_TEXT_BYTES_def MAX_COMMITTED_TEXT_BYTES_def)
  have "input_admissible 7 ViewerToHost Reliable example_text_request"
    using size by (simp add: input_admissible_def validate_route_def event_sized_def)
  moreover have "HEADER_BYTES + length (input_layout example_text_request)
      \<le> min (unat (pl_max_control_message_bytes ABSOLUTE)) (length (replicate 200 (0 :: byte)))"
    using length_input_layout [OF size] by (simp add: HEADER_BYTES_def INPUT_PREFIX_BYTES_def absolute_simps)
  ultimately have "is_ok (fst ?e)"
    using input_codec_is_exact [OF example_text_typed] by blast
  then obtain n out' where "?e = (Inr n, out')"
    by (cases ?e; cases "fst ?e") auto
  then show ?thesis using input_codec_is_exact [OF example_text_typed] by blast
qed

text \<open>
  The held-state codec is exact. A snapshot is written exactly when it travels reliably
  from the viewer to the host, names a channel, a session and a lease, and fits; it decodes
  to itself, a refusal writes nothing, and a record that decodes is the encoding of its
  snapshot up to skipped extensions.
\<close>

theorem held_state_codec_is_exact:
  assumes "held_typed request"
  shows "(is_ok (fst (encode_held_state request out limits binding direction delivery)) \<longleftrightarrow>
      (held_role direction delivery = Inr () \<and> held_request_valid request binding = Inr ())
      \<and> HEADER_BYTES + length (held_layout request) \<le> min (unat (pl_max_control_message_bytes limits)) (length out))
   \<and> (encode_held_state request out limits binding direction delivery = (Inr n, out') \<longrightarrow>
      n \<le> length out \<and> decode_held_state (take n out') limits binding direction delivery = Inr request \<and> drop n out' = drop n out)
   \<and> (encode_held_state request out limits binding direction delivery = (Inl e, out') \<longrightarrow> out' = out)
   \<and> (decode_held_state bytes limits binding direction delivery = Inr request \<and> length bytes \<le> length out \<longrightarrow>
      (\<exists>extensions. validate_extensions extensions = Inr ()
         \<and> bytes = frame KHeldState binding (held_layout request) extensions
         \<and> encode_held_state request out limits binding direction delivery = (Inr (length bytes - length extensions),
             frame KHeldState binding (held_layout request) [] @ drop (length bytes - length extensions) out)))"
  using assms by (rule held_codec.exact)

definition example_held_request :: HeldStateRequest where
  "example_held_request =
     \<lparr>hr_session = Opaque 1, hr_lease = Opaque 2, hr_sequence = 3, hr_next_action = 4,
      hr_held = set_button Primary True (set_key (PhysicalKey 4) True held_empty)\<rparr>"

lemma held_valid_empty: "held_valid held_empty"
  by (auto simp: held_valid_def held_empty_def from_bits_Some_iff KEY_BITMAP_BYTES_def key_bit_def unat_of_nat_less)

lemma example_held_typed: "held_typed example_held_request"
  by (simp add: held_typed_def example_held_request_def held_valid_set_button held_valid_set_key held_valid_empty
      valid_key_def physical_key_new_def)

end
