(* ===== verification/Wire_Ticket.thy ===== *)
theory Wire_Ticket
  imports Wire_Input
begin

text \<open>
  The input tickets a host issues to a viewer: \<open>fr-wire/src/input_ticket.rs\<close>. One record kind
  carries three layouts, one per negotiated profile; each extends the one before by a field.
  The record names \<open>Ticket\<close>, \<open>AuthorityTicket\<close> and \<open>ReadinessTicket\<close> are \<open>WireTicket\<close>,
  \<open>AuthorityTicket\<close> and \<open>ReadinessTicket\<close> here.
\<close>

definition INPUT_TICKET_BYTES :: nat where
  "INPUT_TICKET_BYTES = HEADER_BYTES + 104"

definition MAX_TICKET_LIFETIME_US :: u64 where
  "MAX_TICKET_LIFETIME_US = 1500000"

definition MAX_LEASE_LIFETIME_US :: u64 where
  "MAX_LEASE_LIFETIME_US = 3000000"

definition AUTHORITY_TICKET_BYTES :: nat where
  "AUTHORITY_TICKET_BYTES = INPUT_TICKET_BYTES + 8"

definition READINESS_TICKET_BYTES :: nat where
  "READINESS_TICKET_BYTES = AUTHORITY_TICKET_BYTES + 8"

record WireTicket =
  wt_credentials :: InputCredentials
  wt_sequence :: u64
  wt_issued_at_us :: u64
  wt_expires_at_us :: u64

record AuthorityTicket =
  at_ticket :: WireTicket
  at_authority_until_us :: u64

record ReadinessTicket =
  rt_authority :: AuthorityTicket
  rt_presented_sequence :: u64

definition feedback_role :: "InputDirection \<Rightarrow> InputDelivery \<Rightarrow> WireError + unit" where
  "feedback_role direction delivery =
     (if direction \<noteq> HostToViewer then Inl WrongRole
      else if delivery \<noteq> Reliable then Inl WrongChannel
      else Inr ())"

text \<open>\<open>(1..=maximum).contains(&n)\<close> on the difference of two instants.\<close>

definition lifetime_within :: "u64 \<Rightarrow> u64 \<Rightarrow> u64 \<Rightarrow> bool" where
  "lifetime_within maximum until from =
     is_some_and (\<lambda>n. 1 \<le> n \<and> n \<le> maximum) (checked_sub until from)"

definition valid_ticket :: "WireTicket \<Rightarrow> u32 \<Rightarrow> WireError + unit" where
  "valid_ticket ticket channel =
     (let c = wt_credentials ticket in
      if channel = 0 \<or> id_raw (ic_session c) = 0 \<or> id_raw (ic_lease c) = 0 \<or> id_raw (ic_ticket c) = 0
      then Inl InvalidBinding
      else if \<not> lifetime_within MAX_TICKET_LIFETIME_US (wt_expires_at_us ticket) (wt_issued_at_us ticket)
      then Inl InvalidValue
      else Inr ())"

definition valid_authority :: "AuthorityTicket \<Rightarrow> u32 \<Rightarrow> WireError + unit" where
  "valid_authority ticket channel =
     try_res (valid_ticket (at_ticket ticket) channel) (\<lambda>_.
     if wt_expires_at_us (at_ticket ticket) > at_authority_until_us ticket
        \<or> \<not> lifetime_within MAX_LEASE_LIFETIME_US (at_authority_until_us ticket) (wt_issued_at_us (at_ticket ticket))
     then Inl InvalidValue
     else Inr ())"

definition valid_readiness :: "ReadinessTicket \<Rightarrow> u32 \<Rightarrow> WireError + unit" where
  "valid_readiness ticket channel =
     try_res (valid_authority (rt_authority ticket) channel) (\<lambda>_.
     if rt_presented_sequence ticket = 0 then Inl InvalidValue else Inr ())"

section \<open>Bodies\<close>

definition write_body :: "WireTicket \<Rightarrow> Writer \<Rightarrow> (Writer, WireError, unit) outcome" where
  "write_body ticket w =
     (let c = wt_credentials ticket in
      try_then (writer_u128 (id_raw (ic_session c)) w) (\<lambda>_ w.
      try_then (writer_u128 (id_raw (ic_lease c)) w) (\<lambda>_ w.
      try_then (writer_u128 (id_raw (ic_ticket c)) w) (\<lambda>_.
      writer_u64s [gen_raw (iv_geometry (ic_view c)), gen_raw (iv_viewport (ic_view c)),
        gen_raw (iv_configuration (ic_view c)), gen_raw (iv_recovery (ic_view c)),
        wt_sequence ticket, wt_issued_at_us ticket, wt_expires_at_us ticket]))))"

definition read_body :: "byte list \<Rightarrow> (byte list, WireError, WireTicket) outcome" where
  "read_body r =
     try_then (read_credentials r) (\<lambda>credentials r.
     try_then (reader_u64 r) (\<lambda>sequence r.
     try_then (reader_u64 r) (\<lambda>issued_at_us r.
     try_then (reader_u64 r) (\<lambda>expires_at_us r.
     (Inr \<lparr>wt_credentials = credentials, wt_sequence = sequence, wt_issued_at_us = issued_at_us,
           wt_expires_at_us = expires_at_us\<rparr>, r)))))"

definition write_authority_body :: "AuthorityTicket \<Rightarrow> Writer \<Rightarrow> (Writer, WireError, unit) outcome" where
  "write_authority_body ticket w =
     try_then (write_body (at_ticket ticket) w) (\<lambda>_. writer_u64 (at_authority_until_us ticket))"

definition read_authority_body :: "byte list \<Rightarrow> (byte list, WireError, AuthorityTicket) outcome" where
  "read_authority_body r =
     try_then (read_body r) (\<lambda>ticket r.
     try_then (reader_u64 r) (\<lambda>authority_until_us r.
     (Inr \<lparr>at_ticket = ticket, at_authority_until_us = authority_until_us\<rparr>, r)))"

section \<open>Codecs\<close>

definition encode_ticket ::
  "WireTicket \<Rightarrow> byte list \<Rightarrow> ProtocolLimits \<Rightarrow> u32 \<Rightarrow> InputDirection \<Rightarrow> InputDelivery
   \<Rightarrow> (byte list, WireError, nat) outcome" where
  "encode_ticket ticket out limits channel direction delivery =
     try_then (feedback_role direction delivery, out) (\<lambda>_ out.
     try_then (valid_ticket ticket channel, out) (\<lambda>_ out.
     write_record out (unat (pl_max_control_message_bytes limits)) channel KInputTicket
       (INPUT_TICKET_BYTES - HEADER_BYTES) (write_body ticket)))"

definition read_ticket :: "u32 \<Rightarrow> byte list \<Rightarrow> (byte list, WireError, WireTicket) outcome" where
  "read_ticket channel r =
     try_then (read_body r) (\<lambda>ticket r.
     try_then (reader_finish r, r) (\<lambda>_ r.
     try_then (valid_ticket ticket channel, r) (\<lambda>_ r. (Inr ticket, r))))"

definition decode_ticket ::
  "byte list \<Rightarrow> ProtocolLimits \<Rightarrow> u32 \<Rightarrow> InputDirection \<Rightarrow> InputDelivery \<Rightarrow> WireError + WireTicket" where
  "decode_ticket bytes limits channel direction delivery =
     try_res (feedback_role direction delivery) (\<lambda>_.
     try_res (decode_bounded bytes (unat (pl_max_control_message_bytes limits)) channel None) (\<lambda>record.
     try_res (record_reader record KInputTicket) (\<lambda>r. fst (read_ticket channel r))))"

definition encode_authority ::
  "AuthorityTicket \<Rightarrow> byte list \<Rightarrow> ProtocolLimits \<Rightarrow> u32 \<Rightarrow> InputDirection \<Rightarrow> InputDelivery
   \<Rightarrow> (byte list, WireError, nat) outcome" where
  "encode_authority ticket out limits channel direction delivery =
     try_then (feedback_role direction delivery, out) (\<lambda>_ out.
     try_then (valid_authority ticket channel, out) (\<lambda>_ out.
     write_record out (unat (pl_max_control_message_bytes limits)) channel KInputTicket
       (AUTHORITY_TICKET_BYTES - HEADER_BYTES) (write_authority_body ticket)))"

definition read_authority_ticket :: "u32 \<Rightarrow> byte list \<Rightarrow> (byte list, WireError, AuthorityTicket) outcome" where
  "read_authority_ticket channel r =
     try_then (read_authority_body r) (\<lambda>ticket r.
     try_then (reader_finish r, r) (\<lambda>_ r.
     try_then (valid_authority ticket channel, r) (\<lambda>_ r. (Inr ticket, r))))"

definition decode_authority ::
  "byte list \<Rightarrow> ProtocolLimits \<Rightarrow> u32 \<Rightarrow> InputDirection \<Rightarrow> InputDelivery \<Rightarrow> WireError + AuthorityTicket" where
  "decode_authority bytes limits channel direction delivery =
     try_res (feedback_role direction delivery) (\<lambda>_.
     try_res (decode_bounded bytes (unat (pl_max_control_message_bytes limits)) channel None) (\<lambda>record.
     try_res (record_reader record KInputTicket) (\<lambda>r. fst (read_authority_ticket channel r))))"

definition write_readiness_body :: "ReadinessTicket \<Rightarrow> Writer \<Rightarrow> (Writer, WireError, unit) outcome" where
  "write_readiness_body ticket w =
     try_then (write_authority_body (rt_authority ticket) w) (\<lambda>_. writer_u64 (rt_presented_sequence ticket))"

definition encode_readiness ::
  "ReadinessTicket \<Rightarrow> byte list \<Rightarrow> ProtocolLimits \<Rightarrow> u32 \<Rightarrow> InputDirection \<Rightarrow> InputDelivery
   \<Rightarrow> (byte list, WireError, nat) outcome" where
  "encode_readiness ticket out limits channel direction delivery =
     try_then (feedback_role direction delivery, out) (\<lambda>_ out.
     try_then (valid_readiness ticket channel, out) (\<lambda>_ out.
     write_record out (unat (pl_max_control_message_bytes limits)) channel KInputTicket
       (READINESS_TICKET_BYTES - HEADER_BYTES) (write_readiness_body ticket)))"

definition read_readiness_ticket :: "u32 \<Rightarrow> byte list \<Rightarrow> (byte list, WireError, ReadinessTicket) outcome" where
  "read_readiness_ticket channel r =
     try_then (read_authority_body r) (\<lambda>authority r.
     try_then (reader_u64 r) (\<lambda>presented_sequence r.
     let ticket = \<lparr>rt_authority = authority, rt_presented_sequence = presented_sequence\<rparr> in
     try_then (reader_finish r, r) (\<lambda>_ r.
     try_then (valid_readiness ticket channel, r) (\<lambda>_ r. (Inr ticket, r)))))"

definition decode_readiness ::
  "byte list \<Rightarrow> ProtocolLimits \<Rightarrow> u32 \<Rightarrow> InputDirection \<Rightarrow> InputDelivery \<Rightarrow> WireError + ReadinessTicket" where
  "decode_readiness bytes limits channel direction delivery =
     try_res (feedback_role direction delivery) (\<lambda>_.
     if length bytes \<noteq> READINESS_TICKET_BYTES
     then Inl (if length bytes < READINESS_TICKET_BYTES then Truncated else TrailingBytes)
     else
     try_res (decode_bounded bytes (unat (pl_max_control_message_bytes limits)) channel None) (\<lambda>record.
     try_res (record_reader record KInputTicket) (\<lambda>r. fst (read_readiness_ticket channel r))))"

section \<open>Layouts\<close>

definition ticket_layout :: "WireTicket \<Rightarrow> byte list" where
  "ticket_layout ticket =
     credentials_layout (wt_credentials ticket) @ to_be_bytes (wt_sequence ticket)
     @ to_be_bytes (wt_issued_at_us ticket) @ to_be_bytes (wt_expires_at_us ticket)"

definition authority_layout :: "AuthorityTicket \<Rightarrow> byte list" where
  "authority_layout ticket = ticket_layout (at_ticket ticket) @ to_be_bytes (at_authority_until_us ticket)"

definition readiness_layout :: "ReadinessTicket \<Rightarrow> byte list" where
  "readiness_layout ticket = authority_layout (rt_authority ticket) @ to_be_bytes (rt_presented_sequence ticket)"

lemma ticket_layout_lengths [simp]:
  "length (ticket_layout t) = 104" "length (authority_layout a) = 112" "length (readiness_layout r) = 120"
  by (simp_all add: ticket_layout_def authority_layout_def readiness_layout_def)

lemmas ticket_sizes = INPUT_TICKET_BYTES_def AUTHORITY_TICKET_BYTES_def READINESS_TICKET_BYTES_def HEADER_BYTES_def

interpretation ticket_body: wire_field write_body read_body ticket_layout "\<lambda>_. True"
proof unfold_locales
  fix ticket :: WireTicket
  let ?c = "wt_credentials ticket"
  have "writes (write_body ticket)
    (to_be_bytes (id_raw (ic_session ?c)) @ to_be_bytes (id_raw (ic_lease ?c)) @ to_be_bytes (id_raw (ic_ticket ?c))
     @ concat (map to_be_bytes [gen_raw (iv_geometry (ic_view ?c)), gen_raw (iv_viewport (ic_view ?c)),
          gen_raw (iv_configuration (ic_view ?c)), gen_raw (iv_recovery (ic_view ?c)),
          wt_sequence ticket, wt_issued_at_us ticket, wt_expires_at_us ticket]))"
    unfolding write_body_def [abs_def] Let_def by (intro wire_writes) simp_all
  then show "writes (write_body ticket) (ticket_layout ticket)"
    by (simp add: ticket_layout_def credentials_layout_def)
next
  fix r rest and ticket :: WireTicket
  show "read_body r = (Inr ticket, rest) \<longleftrightarrow> True \<and> r = ticket_layout ticket @ rest"
    by (cases ticket) (auto simp: read_body_def wire_reads read_credentials_iff ticket_layout_def)
qed

interpretation authority_body: wire_field write_authority_body read_authority_body authority_layout "\<lambda>_. True"
proof unfold_locales
  show "writes (write_authority_body t) (authority_layout t)" for t
    unfolding write_authority_body_def [abs_def] authority_layout_def
    by (intro wire_writes ticket_body.put_writes) simp_all
  show "read_authority_body r = (Inr t, rest) \<longleftrightarrow> True \<and> r = authority_layout t @ rest" for r t rest
    by (cases t) (auto simp: read_authority_body_def wire_reads ticket_body.get_iff authority_layout_def)
qed

lemma write_readiness_body_writes: "writes (write_readiness_body t) (readiness_layout t)"
  unfolding write_readiness_body_def [abs_def] readiness_layout_def
  by (intro wire_writes authority_body.put_writes) simp_all

lemma read_ticket_iff:
  "read_ticket channel p = (Inr t, rest) \<longleftrightarrow> valid_ticket t channel = Inr () \<and> p = ticket_layout t \<and> rest = []"
  by (auto simp: read_ticket_def wire_reads ticket_body.get_iff reader_finish_iff)

lemma read_authority_ticket_iff:
  "read_authority_ticket channel p = (Inr t, rest) \<longleftrightarrow>
     valid_authority t channel = Inr () \<and> p = authority_layout t \<and> rest = []"
  by (auto simp: read_authority_ticket_def wire_reads authority_body.get_iff reader_finish_iff)

lemma read_readiness_ticket_iff:
  "read_readiness_ticket channel p = (Inr t, rest) \<longleftrightarrow>
     valid_readiness t channel = Inr () \<and> p = readiness_layout t \<and> rest = []"
  by (cases t) (auto simp: read_readiness_ticket_def wire_reads authority_body.get_iff reader_finish_iff Let_def
      readiness_layout_def)

lemma valid_ticket_bound [dest]: "valid_ticket t channel = Inr () \<Longrightarrow> channel \<noteq> 0"
  by (auto simp: valid_ticket_def Let_def)

lemma valid_authority_bound [dest]: "valid_authority t channel = Inr () \<Longrightarrow> channel \<noteq> 0"
  by (auto simp: valid_authority_def try_res_Inr_iff)

lemma valid_readiness_bound [dest]: "valid_readiness t channel = Inr () \<Longrightarrow> channel \<noteq> 0"
  by (auto simp: valid_readiness_def try_res_Inr_iff)

interpretation ticket_codec: message_codec
  "\<lambda>ticket out. encode_ticket ticket out limits channel direction delivery"
  "\<lambda>bytes. decode_ticket bytes limits channel direction delivery"
  ticket_layout "\<lambda>_. KInputTicket" channel "unat (pl_max_control_message_bytes limits)"
  "\<lambda>_. True" "\<lambda>ticket. feedback_role direction delivery = Inr () \<and> valid_ticket ticket channel = Inr ()"
  for limits channel direction delivery
  by (rule checked_codec_laws [where body = write_body and parse = "read_ticket channel"
        and n = "INPUT_TICKET_BYTES - HEADER_BYTES"])
    (auto simp: ticket_body.put_writes kind_channel_def kind_initial_def read_ticket_iff encode_ticket_def
      decode_ticket_def ticket_sizes)

interpretation authority_codec: message_codec
  "\<lambda>ticket out. encode_authority ticket out limits channel direction delivery"
  "\<lambda>bytes. decode_authority bytes limits channel direction delivery"
  authority_layout "\<lambda>_. KInputTicket" channel "unat (pl_max_control_message_bytes limits)"
  "\<lambda>_. True" "\<lambda>ticket. feedback_role direction delivery = Inr () \<and> valid_authority ticket channel = Inr ()"
  for limits channel direction delivery
  by (rule checked_codec_laws [where body = write_authority_body and parse = "read_authority_ticket channel"
        and n = "AUTHORITY_TICKET_BYTES - HEADER_BYTES"])
    (auto simp: authority_body.put_writes kind_channel_def kind_initial_def read_authority_ticket_iff
      encode_authority_def decode_authority_def ticket_sizes)

interpretation readiness_codec: message_codec
  "\<lambda>ticket out. encode_readiness ticket out limits channel direction delivery"
  "\<lambda>bytes. decode_readiness bytes limits channel direction delivery"
  readiness_layout "\<lambda>_. KInputTicket" channel "unat (pl_max_control_message_bytes limits)"
  "\<lambda>_. True" "\<lambda>ticket. feedback_role direction delivery = Inr () \<and> valid_readiness ticket channel = Inr ()"
  for limits channel direction delivery
proof (rule restricted_codec_laws [where P = "\<lambda>bytes. length bytes = READINESS_TICKET_BYTES"])
  let ?decode = "\<lambda>bytes. try_res (feedback_role direction delivery) (\<lambda>_.
     try_res (decode_bounded bytes (unat (pl_max_control_message_bytes limits)) channel None) (\<lambda>record.
     try_res (record_reader record KInputTicket) (\<lambda>r. fst (read_readiness_ticket channel r))))"
  show "message_codec (\<lambda>ticket out. encode_readiness ticket out limits channel direction delivery) ?decode
      readiness_layout (\<lambda>_. KInputTicket) channel (unat (pl_max_control_message_bytes limits)) (\<lambda>_. True)
      (\<lambda>ticket. feedback_role direction delivery = Inr () \<and> valid_readiness ticket channel = Inr ())"
    by (rule checked_codec_laws [where body = write_readiness_body and parse = "read_readiness_ticket channel"
          and n = "READINESS_TICKET_BYTES - HEADER_BYTES"])
      (auto simp: write_readiness_body_writes kind_channel_def kind_initial_def read_readiness_ticket_iff
        encode_readiness_def ticket_sizes)
  show "decode_readiness bytes limits channel direction delivery = ?decode bytes"
    if "length bytes = READINESS_TICKET_BYTES" for bytes
    using that by (simp add: decode_readiness_def)
  show "\<exists>e. decode_readiness bytes limits channel direction delivery = Inl e"
    if "length bytes \<noteq> READINESS_TICKET_BYTES" for bytes
    using that by (cases "feedback_role direction delivery") (auto simp: decode_readiness_def)
qed (simp add: length_frame ticket_sizes)

section \<open>Properties\<close>

lemma lifetime_within_iff:
  "lifetime_within maximum until from \<longleftrightarrow> unat from < unat until \<and> unat until \<le> unat from + unat maximum"
  by (auto simp: lifetime_within_def is_some_and_def checked_sub_def word_le_nat_alt unat_sub word_less_nat_alt
      split: option.splits)

lemma valid_readiness_bounds:
  assumes "valid_readiness t channel = Inr ()"
  shows "let a = rt_authority t; ticket = at_ticket a in
    unat (wt_issued_at_us ticket) < unat (wt_expires_at_us ticket)
    \<and> unat (wt_expires_at_us ticket) \<le> unat (wt_issued_at_us ticket) + 1500000
    \<and> unat (wt_expires_at_us ticket) \<le> unat (at_authority_until_us a)
    \<and> unat (at_authority_until_us a) \<le> unat (wt_issued_at_us ticket) + 3000000
    \<and> rt_presented_sequence t \<noteq> 0"
  using assms
  by (auto simp: valid_readiness_def valid_authority_def valid_ticket_def try_res_Inr_iff Let_def lifetime_within_iff
      MAX_TICKET_LIFETIME_US_def MAX_LEASE_LIFETIME_US_def word_le_nat_alt word_less_nat_alt not_less split: if_splits)

lemma decoded_payload_lengths:
  "is_ok (decode_ticket bytes limits channel direction delivery) \<Longrightarrow>
     \<exists>p. framed bytes KInputTicket channel p \<and> length p = 104"
  "is_ok (decode_authority bytes limits channel direction delivery) \<Longrightarrow>
     \<exists>p. framed bytes KInputTicket channel p \<and> length p = 112"
  "is_ok (decode_readiness bytes limits channel direction delivery) \<Longrightarrow>
     \<exists>p. framed bytes KInputTicket channel p \<and> length p = 120"
  unfolding is_ok_iff
  by (blast dest: ticket_codec.decode_framed authority_codec.decode_framed readiness_codec.decode_framed
      intro: ticket_layout_lengths)+

lemma ticket_profiles_disjoint:
  "\<not> (is_ok (decode_ticket bytes limits channel direction delivery)
      \<and> is_ok (decode_authority bytes limits channel direction delivery))"
  "\<not> (is_ok (decode_ticket bytes limits channel direction delivery)
      \<and> is_ok (decode_readiness bytes limits channel direction delivery))"
  "\<not> (is_ok (decode_authority bytes limits channel direction delivery)
      \<and> is_ok (decode_readiness bytes limits channel direction delivery))"
  by (fastforce dest!: decoded_payload_lengths dest: framed_length_unique)+

text \<open>
  C30. The three ticket profiles round-trip at their exact sizes and are never confused. A
  ticket that is written takes 128, 136 or 144 bytes and decodes to itself under its own
  profile; a received record is accepted by at most one of the three decoders, whatever
  extensions it carries; and an accepted readiness ticket is 144 bytes long, lives for at most
  1.5 seconds, never outlives its authority, whose cap is at most 3 seconds after issuance,
  and names a presented report.
\<close>

theorem ticket_profiles_round_trip_and_never_confuse:
  "(encode_ticket ticket out limits channel direction delivery = (Inr n, out') \<longrightarrow>
      n = 128 \<and> n \<le> length out \<and> decode_ticket (take n out') limits channel direction delivery = Inr ticket
      \<and> drop n out' = drop n out)
   \<and> (encode_authority authority out limits channel direction delivery = (Inr n, out') \<longrightarrow>
      n = 136 \<and> n \<le> length out \<and> decode_authority (take n out') limits channel direction delivery = Inr authority
      \<and> drop n out' = drop n out)
   \<and> (encode_readiness readiness out limits channel direction delivery = (Inr n, out') \<longrightarrow>
      n = 144 \<and> n \<le> length out \<and> decode_readiness (take n out') limits channel direction delivery = Inr readiness
      \<and> drop n out' = drop n out)
   \<and> length (filter id [is_ok (decode_ticket bytes limits channel direction delivery),
        is_ok (decode_authority bytes limits channel direction delivery),
        is_ok (decode_readiness bytes limits channel direction delivery)]) \<le> 1
   \<and> (decode_readiness bytes limits channel direction delivery = Inr readiness \<longrightarrow>
      length bytes = 144
      \<and> (let a = rt_authority readiness; t = at_ticket a in
         unat (wt_issued_at_us t) < unat (wt_expires_at_us t)
         \<and> unat (wt_expires_at_us t) \<le> unat (wt_issued_at_us t) + 1500000
         \<and> unat (wt_expires_at_us t) \<le> unat (at_authority_until_us a)
         \<and> unat (at_authority_until_us a) \<le> unat (wt_issued_at_us t) + 3000000
         \<and> rt_presented_sequence readiness \<noteq> 0))" (is "?T \<and> ?A \<and> ?R \<and> ?D \<and> ?V")
proof (intro conjI)
  show ?T using ticket_codec.round_trip [where m = ticket and out = out and out' = out' and n = n]
    by (auto simp: ticket_codec.encode_iff HEADER_BYTES_def)
  show ?A using authority_codec.round_trip [where m = authority and out = out and out' = out' and n = n]
    by (auto simp: authority_codec.encode_iff HEADER_BYTES_def)
  show ?R using readiness_codec.round_trip [where m = readiness and out = out and out' = out' and n = n]
    by (auto simp: readiness_codec.encode_iff HEADER_BYTES_def)
  show ?D
    using ticket_profiles_disjoint [of bytes limits channel direction delivery] by auto
  show ?V
  proof (intro impI conjI)
    assume "decode_readiness bytes limits channel direction delivery = Inr readiness"
    note d = readiness_codec.decode_framed [OF this] this
    show "length bytes = 144"
      using d(2) by (auto simp: decode_readiness_def try_res_Inr_iff ticket_sizes split: if_splits)
    show "let a = rt_authority readiness; t = at_ticket a in
         unat (wt_issued_at_us t) < unat (wt_expires_at_us t)
         \<and> unat (wt_expires_at_us t) \<le> unat (wt_issued_at_us t) + 1500000
         \<and> unat (wt_expires_at_us t) \<le> unat (at_authority_until_us a)
         \<and> unat (at_authority_until_us a) \<le> unat (wt_issued_at_us t) + 3000000
         \<and> rt_presented_sequence readiness \<noteq> 0"
      using d(1) valid_readiness_bounds [of readiness channel] by simp
  qed
qed

definition example_readiness :: ReadinessTicket where
  "example_readiness =
     \<lparr>rt_authority = \<lparr>at_ticket = \<lparr>wt_credentials = \<lparr>ic_session = Opaque 1, ic_lease = Opaque 2, ic_ticket = Opaque 3,
           ic_view = \<lparr>iv_geometry = Generation 4, iv_viewport = Generation 5,
                      iv_configuration = Generation 6, iv_recovery = Generation 7\<rparr>\<rparr>,
         wt_sequence = 8, wt_issued_at_us = 1000, wt_expires_at_us = 900000\<rparr>,
       at_authority_until_us = 2000000\<rparr>,
      rt_presented_sequence = 5\<rparr>"

theorem ticket_profiles_round_trip_and_never_confuse_witness:
  "\<exists>out'. encode_readiness example_readiness (replicate 200 0) ABSOLUTE 7 HostToViewer Reliable = (Inr 144, out')
     \<and> decode_readiness (take 144 out') ABSOLUTE 7 HostToViewer Reliable = Inr example_readiness
     \<and> \<not> is_ok (decode_ticket (take 144 out') ABSOLUTE 7 HostToViewer Reliable)"
proof -
  let ?e = "encode_readiness example_readiness (replicate 200 0) ABSOLUTE 7 HostToViewer Reliable"
  have "feedback_role HostToViewer Reliable = Inr () \<and> valid_readiness example_readiness 7 = Inr ()"
    by (simp add: feedback_role_def valid_readiness_def valid_authority_def valid_ticket_def example_readiness_def
        lifetime_within_def checked_sub_def is_some_and_def MAX_TICKET_LIFETIME_US_def MAX_LEASE_LIFETIME_US_def)
  moreover have "HEADER_BYTES + length (readiness_layout example_readiness)
      \<le> min (unat (pl_max_control_message_bytes ABSOLUTE)) (length (replicate 200 (0 :: byte)))"
    by (simp add: HEADER_BYTES_def absolute_simps)
  ultimately have "is_ok (fst ?e)"
    using readiness_codec.exact [of example_readiness] by blast
  then obtain n out' where e: "?e = (Inr n, out')" by (cases ?e; cases "fst ?e") auto
  then have "n = 144" "decode_readiness (take n out') ABSOLUTE 7 HostToViewer Reliable = Inr example_readiness"
    using ticket_profiles_round_trip_and_never_confuse by blast+
  moreover from this have "\<not> is_ok (decode_ticket (take n out') ABSOLUTE 7 HostToViewer Reliable)"
    using ticket_profiles_disjoint(2) [of "take n out'" ABSOLUTE 7 HostToViewer Reliable] by simp
  ultimately show ?thesis using e by blast
qed

end
