(* ===== verification/Wire_Challenge.thy ===== *)
theory Wire_Challenge
  imports Wire_Ticket
begin

text \<open>
  The challenges by which a host renews observation or control: \<open>fr-wire/src/authority.rs\<close>.
  Its \<open>Binding\<close>, \<open>Scope\<close> and \<open>Message\<close> are \<open>ChallengeBinding\<close>, \<open>Scope\<close> and
  \<open>ChallengeMessage\<close> here. Whether the lease is present is told twice on the wire, by the
  scope and by the presence byte.
\<close>

record ChallengeBinding =
  cb_channel :: u32
  cb_session :: RemoteSessionId

datatype Scope = ScopeObservation | ScopeControl InputLeaseId

datatype ChallengeMessage =
    MChallenge Scope u128 u64
  | MResponse Scope u128

fun message_scope :: "ChallengeMessage \<Rightarrow> Scope" where
  "message_scope (MChallenge scope _ _) = scope"
| "message_scope (MResponse scope _) = scope"

fun message_nonce :: "ChallengeMessage \<Rightarrow> u128" where
  "message_nonce (MChallenge _ nonce _) = nonce"
| "message_nonce (MResponse _ nonce) = nonce"

fun message_kind :: "ChallengeMessage \<Rightarrow> Kind" where
  "message_kind (MChallenge _ _ _) = KChallenge"
| "message_kind (MResponse _ _) = KChallengeResponse"

definition message_validate :: "ChallengeMessage \<Rightarrow> WireError + unit" where
  "message_validate message =
     (if message_nonce message = 0
         \<or> (case message_scope message of ScopeControl lease \<Rightarrow> id_raw lease = 0 | ScopeObservation \<Rightarrow> False)
         \<or> (case message of MChallenge _ _ deadline \<Rightarrow> deadline = 0 | MResponse _ _ \<Rightarrow> False)
      then Inl InvalidValue else Inr ())"

definition challenge_role :: "Kind \<Rightarrow> InputDirection \<Rightarrow> InputDelivery \<Rightarrow> WireError + unit" where
  "challenge_role kind direction delivery =
     (if delivery \<noteq> Reliable then Inl WrongChannel
      else if kind = KChallenge then (if direction \<noteq> HostToViewer then Inl WrongRole else Inr ())
      else if kind = KChallengeResponse then (if direction \<noteq> ViewerToHost then Inl WrongRole else Inr ())
      else Inl UnsupportedKind)"

definition validate_binding :: "ChallengeBinding \<Rightarrow> WireError + unit" where
  "validate_binding binding =
     (if cb_channel binding = 0 \<or> id_raw (cb_session binding) = 0 then Inl InvalidBinding else Inr ())"

definition is_control :: "Scope \<Rightarrow> bool" where
  "is_control scope = (case scope of ScopeControl _ \<Rightarrow> True | ScopeObservation \<Rightarrow> False)"

definition put_challenge :: "ChallengeBinding \<Rightarrow> ChallengeMessage \<Rightarrow> Writer \<Rightarrow> (Writer, WireError, unit) outcome" where
  "put_challenge binding message w =
     (let control = is_control (message_scope message) in
      try_then (writer_u128 (id_raw (cb_session binding)) w) (\<lambda>_ w.
      try_then (writer_u8 (bool_code control) w) (\<lambda>_ w.
      try_then (writer_u8 (bool_code control) w) (\<lambda>_ w.
      try_then (case message_scope message of
          ScopeControl lease \<Rightarrow> writer_u128 (id_raw lease) w
        | ScopeObservation \<Rightarrow> (Inr (), w)) (\<lambda>_ w.
      try_then (writer_u128 (message_nonce message) w) (\<lambda>_ w.
      case message of
        MChallenge _ _ deadline \<Rightarrow> writer_u64 deadline w
      | MResponse _ _ \<Rightarrow> (Inr (), w)))))))"

definition challenge_payload :: "ChallengeMessage \<Rightarrow> nat" where
  "challenge_payload message =
     34 + (if is_control (message_scope message) then 16 else 0)
     + (case message of MChallenge _ _ _ \<Rightarrow> 8 | MResponse _ _ \<Rightarrow> 0)"

definition encode_challenge ::
  "ChallengeMessage \<Rightarrow> ChallengeBinding \<Rightarrow> ProtocolLimits \<Rightarrow> byte list \<Rightarrow> InputDirection \<Rightarrow> InputDelivery
   \<Rightarrow> (byte list, WireError, nat) outcome" where
  "encode_challenge message binding limits out direction delivery =
     try_then (validate_binding binding, out) (\<lambda>_ out.
     try_then (message_validate message, out) (\<lambda>_ out.
     try_then (challenge_role (message_kind message) direction delivery, out) (\<lambda>_ out.
     write_record out (unat (pl_max_control_message_bytes limits)) (cb_channel binding) (message_kind message)
       (challenge_payload message) (put_challenge binding message))))"

definition read_scope :: "byte list \<Rightarrow> (byte list, WireError, Scope) outcome" where
  "read_scope r =
     try_then (reader_u8 r) (\<lambda>scope r.
     try_then (reader_u8 r) (\<lambda>present r.
     if scope = 0 \<and> present = 0 then (Inr ScopeObservation, r)
     else if scope = 1 \<and> present = 1
     then try_then (reader_u128 r) (\<lambda>lease r. (Inr (ScopeControl (Opaque lease)), r))
     else (Inl InvalidValue, r)))"

definition read_challenge :: "ChallengeBinding \<Rightarrow> Kind \<Rightarrow> byte list \<Rightarrow> (byte list, WireError, ChallengeMessage) outcome" where
  "read_challenge binding kind r =
     try_then (reader_u128 r) (\<lambda>session r.
     if session \<noteq> id_raw (cb_session binding) then (Inl InvalidBinding, r) else
     try_then (read_scope r) (\<lambda>scope r.
     try_then (reader_u128 r) (\<lambda>nonce r.
     try_then
       (if kind = KChallenge
        then try_then (reader_u64 r) (\<lambda>deadline r. (Inr (MChallenge scope nonce deadline), r))
        else (Inr (MResponse scope nonce), r)) (\<lambda>message r.
     try_then (reader_finish r, r) (\<lambda>_ r.
     try_then (message_validate message, r) (\<lambda>_ r. (Inr message, r)))))))"

definition decode_challenge ::
  "byte list \<Rightarrow> ChallengeBinding \<Rightarrow> ProtocolLimits \<Rightarrow> InputDirection \<Rightarrow> InputDelivery \<Rightarrow> WireError + ChallengeMessage" where
  "decode_challenge bytes binding limits direction delivery =
     try_res (validate_binding binding) (\<lambda>_.
     try_res (decode_bounded bytes (unat (pl_max_control_message_bytes limits)) (cb_channel binding) None) (\<lambda>record.
     try_res (challenge_role (rc_kind record) direction delivery) (\<lambda>_.
     try_res (record_reader record (rc_kind record)) (\<lambda>r.
     fst (read_challenge binding (rc_kind record) r)))))"

section \<open>Layout\<close>

fun scope_layout :: "Scope \<Rightarrow> byte list" where
  "scope_layout ScopeObservation = [0, 0]"
| "scope_layout (ScopeControl lease) = [1, 1] @ to_be_bytes (id_raw lease)"

fun deadline_layout :: "ChallengeMessage \<Rightarrow> byte list" where
  "deadline_layout (MChallenge _ _ deadline) = to_be_bytes deadline"
| "deadline_layout (MResponse _ _) = []"

definition challenge_layout :: "ChallengeBinding \<Rightarrow> ChallengeMessage \<Rightarrow> byte list" where
  "challenge_layout binding message =
     to_be_bytes (id_raw (cb_session binding)) @ scope_layout (message_scope message)
     @ to_be_bytes (message_nonce message) @ deadline_layout message"

definition challenge_admissible :: "ChallengeBinding \<Rightarrow> InputDirection \<Rightarrow> InputDelivery \<Rightarrow> ChallengeMessage \<Rightarrow> bool" where
  "challenge_admissible binding direction delivery message \<longleftrightarrow>
     validate_binding binding = Inr () \<and> message_validate message = Inr ()
     \<and> challenge_role (message_kind message) direction delivery = Inr ()"

lemma length_challenge_layout: "length (challenge_layout binding message) = challenge_payload message"
  by (cases message; cases "message_scope message")
    (simp_all add: challenge_layout_def challenge_payload_def is_control_def)

lemma challenge_payload_less: "challenge_payload message < 4294967296"
  by (cases message) (simp_all add: challenge_payload_def)

lemma put_challenge_writes: "writes (put_challenge binding message) (challenge_layout binding message)"
proof -
  let ?c = "is_control (message_scope message)"
  have lease: "writes (\<lambda>w. case message_scope message of
          ScopeControl lease \<Rightarrow> writer_u128 (id_raw lease) w
        | ScopeObservation \<Rightarrow> (Inr (), w)) (drop 2 (scope_layout (message_scope message)))"
    by (cases "message_scope message") (simp_all add: u128.put_writes writes_none)
  have deadline: "writes (\<lambda>w. case message of
        MChallenge _ _ deadline \<Rightarrow> writer_u64 deadline w
      | MResponse _ _ \<Rightarrow> (Inr (), w)) (deadline_layout message)"
    by (cases message) (simp_all add: u64.put_writes writes_none)
  have "writes (put_challenge binding message)
    (to_be_bytes (id_raw (cb_session binding)) @ [bool_code ?c] @ [bool_code ?c]
      @ drop 2 (scope_layout (message_scope message)) @ to_be_bytes (message_nonce message) @ deadline_layout message)"
    unfolding put_challenge_def [abs_def] Let_def by (intro wire_writes lease deadline) simp_all
  then show ?thesis
    by (cases "message_scope message") (simp_all add: challenge_layout_def is_control_def bool_code_def)
qed

lemma read_scope_iff: "read_scope r = (Inr scope, rest) \<longleftrightarrow> r = scope_layout scope @ rest"
proof (cases scope)
  case (ScopeControl lease)
  then show ?thesis by (cases lease) (auto simp: read_scope_def wire_reads split: if_splits)
qed (auto simp: read_scope_def wire_reads split: if_splits)

lemma read_challenge_iff:
  assumes "kind = KChallenge \<or> kind = KChallengeResponse"
  shows "read_challenge binding kind p = (Inr message, rest) \<longleftrightarrow>
     message_kind message = kind \<and> message_validate message = Inr () \<and> p = challenge_layout binding message \<and> rest = []"
  using assms
  by (cases message) (auto simp: read_challenge_def wire_reads read_scope_iff reader_finish_iff challenge_layout_def
      split: if_splits)

lemma challenge_role_kind:
  "challenge_role kind direction delivery = Inr () \<Longrightarrow> kind = KChallenge \<or> kind = KChallengeResponse"
  by (auto simp: challenge_role_def split: if_splits)

lemma message_kind_plain [simp]:
  "kind_channel (message_kind message) = None" "\<not> kind_initial (message_kind message)"
  by (cases message; simp add: kind_channel_def kind_initial_def)+

lemma decode_challenge_iff:
  "decode_challenge bytes binding limits direction delivery = Inr message \<longleftrightarrow>
     challenge_admissible binding direction delivery message
     \<and> length bytes \<le> unat (pl_max_control_message_bytes limits)
     \<and> framed bytes (message_kind message) (cb_channel binding) (challenge_layout binding message)" (is "?L \<longleftrightarrow> ?R")
proof
  assume ?L
  then obtain rc where rc: "decode_bounded bytes (unat (pl_max_control_message_bytes limits)) (cb_channel binding) None = Inr rc"
    and ok: "validate_binding binding = Inr ()" "challenge_role (rc_kind rc) direction delivery = Inr ()"
    and read: "\<exists>rest. read_challenge binding (rc_kind rc) (rc_payload rc) = (Inr message, rest)"
    by (auto simp: decode_challenge_def try_res_Inr_iff record_reader_def fst_Inr_iff)
  then show ?R
    using read_challenge_iff [OF challenge_role_kind [OF ok(2)]]
    by (auto simp: decode_bounded_iff challenge_admissible_def)
next
  assume R: ?R
  let ?rc = "\<lparr>rc_kind = message_kind message, rc_binding = cb_channel binding, rc_payload = challenge_layout binding message\<rparr>"
  have "decode_bounded bytes (unat (pl_max_control_message_bytes limits)) (cb_channel binding) None = Inr ?rc"
    using R by (simp add: decode_bounded_iff)
  moreover have role: "challenge_role (message_kind message) direction delivery = Inr ()"
    using R by (simp add: challenge_admissible_def)
  moreover have "read_challenge binding (message_kind message) (challenge_layout binding message) = (Inr message, [])"
    using R by (simp add: read_challenge_iff [OF challenge_role_kind [OF role]] challenge_admissible_def)
  ultimately show ?L
    using R by (simp add: decode_challenge_def record_reader_def challenge_admissible_def)
qed

interpretation challenge_codec: message_codec
  "\<lambda>message out. encode_challenge message binding limits out direction delivery"
  "\<lambda>bytes. decode_challenge bytes binding limits direction delivery"
  "challenge_layout binding" message_kind "cb_channel binding" "unat (pl_max_control_message_bytes limits)"
  "\<lambda>_. True" "challenge_admissible binding direction delivery" for limits binding direction delivery
proof (rule codec_laws [where body = "put_challenge binding"])
  fix message out
  assume "\<not> challenge_admissible binding direction delivery message"
  then show "\<exists>e. encode_challenge message binding limits out direction delivery = (Inl e, out)"
    by (cases "validate_binding binding"; cases "message_validate message";
        cases "challenge_role (message_kind message) direction delivery")
      (auto simp: encode_challenge_def challenge_admissible_def)
qed (auto simp: put_challenge_writes decode_challenge_iff length_challenge_layout challenge_payload_less
    encode_challenge_def challenge_admissible_def validate_binding_def split: if_splits)

section \<open>Properties\<close>

text \<open>
  The challenge codec is exact, and a challenge is never taken for a response. A message
  is written exactly when the binding names a channel and a session, nonce, lease and deadline
  are not zero, and it travels reliably in the direction of its kind. It decodes to itself, a
  refusal writes nothing, and a record that decodes is the encoding of its message up to
  skipped extensions; in one direction only one of the two kinds decodes.
\<close>

theorem challenge_codec_is_exact:
  "(is_ok (fst (encode_challenge message binding limits out direction delivery)) \<longleftrightarrow>
      challenge_admissible binding direction delivery message
      \<and> HEADER_BYTES + length ((challenge_layout binding) message) \<le> min (unat (pl_max_control_message_bytes limits)) (length out))
   \<and> (encode_challenge message binding limits out direction delivery = (Inr n, out') \<longrightarrow>
      n \<le> length out \<and> decode_challenge (take n out') binding limits direction delivery = Inr message \<and> drop n out' = drop n out)
   \<and> (encode_challenge message binding limits out direction delivery = (Inl e, out') \<longrightarrow> out' = out)
   \<and> (decode_challenge bytes binding limits direction delivery = Inr message \<and> length bytes \<le> length out \<longrightarrow>
      (\<exists>extensions. validate_extensions extensions = Inr ()
         \<and> bytes = frame (message_kind message) (cb_channel binding) ((challenge_layout binding) message) extensions
         \<and> encode_challenge message binding limits out direction delivery = (Inr (length bytes - length extensions),
             frame (message_kind message) (cb_channel binding) ((challenge_layout binding) message) [] @ drop (length bytes - length extensions) out)))
   \<and> (decode_challenge bytes binding limits direction delivery = Inr message \<longrightarrow>
      delivery = Reliable \<and> direction = (case message of MChallenge _ _ _ \<Rightarrow> HostToViewer | MResponse _ _ \<Rightarrow> ViewerToHost))"
proof -
  have "delivery = Reliable \<and> direction = (case message of MChallenge _ _ _ \<Rightarrow> HostToViewer | MResponse _ _ \<Rightarrow> ViewerToHost)"
    if "decode_challenge bytes binding limits direction delivery = Inr message"
    using that by (cases message)
      (auto simp: decode_challenge_iff challenge_admissible_def challenge_role_def split: if_splits)
  then show ?thesis
    using challenge_codec.exact [where m = message and limits = limits and binding = binding and out = out
        and direction = direction and delivery = delivery and n = n and out' = out' and e = e and bytes = bytes]
    by blast
qed

end
