(* ===== verification/Wire_Result.thy ===== *)
theory Wire_Result
  imports Wire_Ticket Input_Session
begin

text \<open>
  The input results a host returns: \<open>fr-wire/src/input_result.rs\<close>. A terminal receipt of the
  input owner becomes a fixed record without content; the wire's refusal categories are the
  33 codes of \<open>Reason\<close>, whose constructors carry an \<open>R\<close> here.
\<close>

section \<open>Results\<close>

definition INPUT_RESULT_BYTES :: nat where
  "INPUT_RESULT_BYTES = HEADER_BYTES + 50"

record ResultBinding =
  rb_channel :: u32
  rb_session :: RemoteSessionId
  rb_lease :: InputLeaseId

datatype SequenceSpace = ActionSpace | PointerSpace

datatype Stage = StageAdmitted | StageSubmittedToOs | StageObserved

datatype Reason =
    RInvalidState | RObservationExpired | RNoLease | RStaleLease
  | RLeaseExpired | RViewUnready | RControllerBusy | RControllerCleanupRequired
  | RTicketInvalid | RTicketExpired | RChallengeMismatch | RChallengePending
  | RChallengeExpired | RClockRegression | RDeadlineOverflow | RInvalidReceiptCapacity
  | RSequenceFenced | RPreviousActionPending | RSequenceGap | RNotPending
  | RStaleSession | RStaleView | ROutOfBounds | RUnsupported
  | RInvalidTransition | RRelativeOverflow | RModeMismatch | RRevoked
  | RPermissionMissing | RPlatformGeometryChanged | RPlatformUnavailable | RUnknownEffect
  | RAuthorityUnavailable

fun reason_code :: "Reason \<Rightarrow> u16" where
  "reason_code RInvalidState = 1"
| "reason_code RObservationExpired = 2"
| "reason_code RNoLease = 3"
| "reason_code RStaleLease = 4"
| "reason_code RLeaseExpired = 5"
| "reason_code RViewUnready = 6"
| "reason_code RControllerBusy = 7"
| "reason_code RControllerCleanupRequired = 8"
| "reason_code RTicketInvalid = 9"
| "reason_code RTicketExpired = 10"
| "reason_code RChallengeMismatch = 11"
| "reason_code RChallengePending = 12"
| "reason_code RChallengeExpired = 13"
| "reason_code RClockRegression = 14"
| "reason_code RDeadlineOverflow = 15"
| "reason_code RInvalidReceiptCapacity = 16"
| "reason_code RSequenceFenced = 17"
| "reason_code RPreviousActionPending = 18"
| "reason_code RSequenceGap = 19"
| "reason_code RNotPending = 20"
| "reason_code RStaleSession = 21"
| "reason_code RStaleView = 22"
| "reason_code ROutOfBounds = 23"
| "reason_code RUnsupported = 24"
| "reason_code RInvalidTransition = 25"
| "reason_code RRelativeOverflow = 26"
| "reason_code RModeMismatch = 27"
| "reason_code RRevoked = 28"
| "reason_code RPermissionMissing = 29"
| "reason_code RPlatformGeometryChanged = 30"
| "reason_code RPlatformUnavailable = 31"
| "reason_code RUnknownEffect = 32"
| "reason_code RAuthorityUnavailable = 33"

definition reason_arms :: "(u16 \<times> Reason option) list" where
  "reason_arms =
     [(0, None),
      (1, Some RInvalidState), (2, Some RObservationExpired), (3, Some RNoLease),
      (4, Some RStaleLease), (5, Some RLeaseExpired), (6, Some RViewUnready),
      (7, Some RControllerBusy), (8, Some RControllerCleanupRequired), (9, Some RTicketInvalid),
      (10, Some RTicketExpired), (11, Some RChallengeMismatch), (12, Some RChallengePending),
      (13, Some RChallengeExpired), (14, Some RClockRegression), (15, Some RDeadlineOverflow),
      (16, Some RInvalidReceiptCapacity), (17, Some RSequenceFenced), (18, Some RPreviousActionPending),
      (19, Some RSequenceGap), (20, Some RNotPending), (21, Some RStaleSession),
      (22, Some RStaleView), (23, Some ROutOfBounds), (24, Some RUnsupported),
      (25, Some RInvalidTransition), (26, Some RRelativeOverflow), (27, Some RModeMismatch),
      (28, Some RRevoked), (29, Some RPermissionMissing), (30, Some RPlatformGeometryChanged),
      (31, Some RPlatformUnavailable), (32, Some RUnknownEffect), (33, Some RAuthorityUnavailable)]"

definition is_expiry :: "Reason \<Rightarrow> bool" where
  "is_expiry reason \<longleftrightarrow> reason \<in> {RObservationExpired, RLeaseExpired, RTicketExpired}"

fun authority_reason :: "AuthorityError \<Rightarrow> WireError + Reason" where
  "authority_reason (InvalidState _) = Inr RInvalidState"
| "authority_reason ObservationExpired = Inr RObservationExpired"
| "authority_reason NoLease = Inr RNoLease"
| "authority_reason StaleLease = Inr RStaleLease"
| "authority_reason LeaseExpired = Inr RLeaseExpired"
| "authority_reason ViewUnready = Inr RViewUnready"
| "authority_reason ControllerBusy = Inr RControllerBusy"
| "authority_reason ControllerCleanupRequired = Inr RControllerCleanupRequired"
| "authority_reason TicketInvalid = Inr RTicketInvalid"
| "authority_reason TicketExpired = Inr RTicketExpired"
| "authority_reason ChallengeMismatch = Inr RChallengeMismatch"
| "authority_reason ChallengePending = Inr RChallengePending"
| "authority_reason ChallengeExpired = Inr RChallengeExpired"
| "authority_reason ClockRegression = Inr RClockRegression"
| "authority_reason DeadlineOverflow = Inr RDeadlineOverflow"
| "authority_reason _ = Inl UnsupportedKind"

fun sequence_reason :: "InputSequenceError \<Rightarrow> Reason" where
  "sequence_reason (InvalidCapacity _) = RInvalidReceiptCapacity"
| "sequence_reason SequenceStaleLease = RStaleLease"
| "sequence_reason Fenced = RSequenceFenced"
| "sequence_reason (PreviousActionPending _) = RPreviousActionPending"
| "sequence_reason (SequenceGap _ _) = RSequenceGap"
| "sequence_reason NotPending = RNotPending"

fun reason_try_from :: "Refusal \<Rightarrow> WireError + Reason" where
  "reason_try_from (RefAuthority error) = authority_reason error"
| "reason_try_from (RefSequence error) = Inr (sequence_reason error)"
| "reason_try_from StaleSession = Inr RStaleSession"
| "reason_try_from RefStaleLease = Inr RStaleLease"
| "reason_try_from StaleView = Inr RStaleView"
| "reason_try_from OutOfBounds = Inr ROutOfBounds"
| "reason_try_from RefUnsupported = Inr RUnsupported"
| "reason_try_from (RefPlatform PlatformUnsupported) = Inr RUnsupported"
| "reason_try_from InvalidTransition = Inr RInvalidTransition"
| "reason_try_from RelativeOverflow = Inr RRelativeOverflow"
| "reason_try_from ModeMismatch = Inr RModeMismatch"
| "reason_try_from Revoked = Inr RRevoked"
| "reason_try_from (RefPlatform PlatformPermission) = Inr RPermissionMissing"
| "reason_try_from (RefPlatform Input_Session.PlatformGeometryChanged) = Inr RPlatformGeometryChanged"
| "reason_try_from (RefPlatform PlatformUnavailable) = Inr RPlatformUnavailable"
| "reason_try_from UnknownEffect = Inr RUnknownEffect"
| "reason_try_from AuthorityUnavailable = Inr RAuthorityUnavailable"
| "reason_try_from ExpiredAtBoundary = Inr RTicketExpired"

record InputResult =
  rs_binding :: ResultBinding
  rs_sequence :: u64
  rs_space :: SequenceSpace
  rs_stage :: Stage
  rs_outcome :: InputOutcome
  rs_submitted_operations :: u32
  rs_unknown_next_operation :: bool
  rs_reason :: "Reason option"

definition result_validate :: "InputResult \<Rightarrow> WireError + unit" where
  "result_validate result =
     (let maximum = of_nat MAX_COMMITTED_TEXT_BYTES;
          submitted = rs_submitted_operations result;
          has_prefix = submitted \<noteq> 0;
          outcome = rs_outcome result;
          unknown = (outcome = EffectUnknown);
          reason = rs_reason result
      in
      if rb_channel (rs_binding result) = 0 then Inl InvalidBinding
      else if submitted > maximum
        \<or> (rs_unknown_next_operation result \<or> outcome = PartiallySubmittedToOs) \<and> submitted = maximum
      then Inl ResourceLimit
      else if rs_space result = PointerSpace
        \<and> (submitted > 1 \<or> unknown \<and> has_prefix \<or> outcome \<in> {AppliedLocally, PartiallySubmittedToOs})
      then Inl InvalidValue
      else if rs_unknown_next_operation result \<noteq> unknown
        \<or> (rs_stage result = StageAdmitted) = has_prefix
        \<or> rs_stage result = StageObserved \<and> outcome \<noteq> SubmittedToOs
      then Inl InvalidValue
      else if (case outcome of
           SubmittedToOs \<Rightarrow> has_prefix \<and> reason = None
         | AppliedLocally \<Rightarrow> \<not> has_prefix \<and> reason = None
         | RejectedBeforeSubmission \<Rightarrow>
             \<not> has_prefix \<and> is_some_and (\<lambda>r. \<not> is_expiry r \<and> r \<notin> {RRevoked, RUnknownEffect}) reason
         | ExpiredBeforeSubmission \<Rightarrow> \<not> has_prefix \<and> is_some_and is_expiry reason
         | CancelledBeforeSubmission \<Rightarrow> \<not> has_prefix \<and> reason = Some RRevoked
         | PartiallySubmittedToOs \<Rightarrow> has_prefix \<and> is_some_and (\<lambda>r. r \<noteq> RUnknownEffect) reason
         | EffectUnknown \<Rightarrow> reason = Some RUnknownEffect)
      then Inr ()
      else Inl InvalidValue)"

definition from_receipt :: "ResultBinding \<Rightarrow> SequenceSpace \<Rightarrow> Receipt \<Rightarrow> WireError + InputResult" where
  "from_receipt binding space receipt =
     try_res (case rc_refusal receipt of
         None \<Rightarrow> Inr None
       | Some refusal \<Rightarrow> try_res (reason_try_from refusal) (\<lambda>reason. Inr (Some reason))) (\<lambda>reason.
     let result = \<lparr>rs_binding = binding, rs_sequence = rc_sequence receipt, rs_space = space,
           rs_stage = (if rc_submitted_operations receipt = 0 then StageAdmitted else StageSubmittedToOs),
           rs_outcome = rc_outcome receipt, rs_submitted_operations = rc_submitted_operations receipt,
           rs_unknown_next_operation = (rc_outcome receipt = EffectUnknown), rs_reason = reason\<rparr> in
     try_res (result_validate result) (\<lambda>_. Inr result))"

section \<open>Codec\<close>

definition result_route :: "InputDirection \<Rightarrow> InputDelivery \<Rightarrow> WireError + unit" where
  "result_route direction delivery =
     (if direction \<noteq> HostToViewer then Inl WrongRole
      else if delivery \<noteq> Reliable then Inl WrongChannel
      else Inr ())"

fun space_code :: "SequenceSpace \<Rightarrow> u8" where
  "space_code ActionSpace = 0"
| "space_code PointerSpace = 1"

definition space_arms :: "(u8 \<times> SequenceSpace) list" where
  "space_arms = [(0, ActionSpace), (1, PointerSpace)]"

fun stage_code :: "Stage \<Rightarrow> u8" where
  "stage_code StageAdmitted = 0"
| "stage_code StageSubmittedToOs = 1"
| "stage_code StageObserved = 2"

definition stage_arms :: "(u8 \<times> Stage) list" where
  "stage_arms = [(0, StageAdmitted), (1, StageSubmittedToOs), (2, StageObserved)]"

fun outcome_code :: "InputOutcome \<Rightarrow> u8" where
  "outcome_code SubmittedToOs = 0"
| "outcome_code AppliedLocally = 1"
| "outcome_code RejectedBeforeSubmission = 2"
| "outcome_code ExpiredBeforeSubmission = 3"
| "outcome_code CancelledBeforeSubmission = 4"
| "outcome_code PartiallySubmittedToOs = 5"
| "outcome_code EffectUnknown = 6"

definition outcome_arms :: "(u8 \<times> InputOutcome) list" where
  "outcome_arms =
     [(0, SubmittedToOs), (1, AppliedLocally), (2, RejectedBeforeSubmission), (3, ExpiredBeforeSubmission),
      (4, CancelledBeforeSubmission), (5, PartiallySubmittedToOs), (6, EffectUnknown)]"

fun optional_reason_code :: "Reason option \<Rightarrow> u16" where
  "optional_reason_code None = 0"
| "optional_reason_code (Some reason) = reason_code reason"

definition put_result :: "InputResult \<Rightarrow> Writer \<Rightarrow> (Writer, WireError, unit) outcome" where
  "put_result result w =
     try_then (writer_u128 (id_raw (rb_session (rs_binding result))) w) (\<lambda>_ w.
     try_then (writer_u128 (id_raw (rb_lease (rs_binding result))) w) (\<lambda>_ w.
     try_then (writer_u64 (rs_sequence result) w) (\<lambda>_ w.
     try_then (writer_u8 (space_code (rs_space result)) w) (\<lambda>_ w.
     try_then (writer_u8 (stage_code (rs_stage result)) w) (\<lambda>_ w.
     try_then (writer_u8 (outcome_code (rs_outcome result)) w) (\<lambda>_ w.
     try_then (writer_u32 (rs_submitted_operations result) w) (\<lambda>_ w.
     try_then (writer_u8 (bool_code (rs_unknown_next_operation result)) w) (\<lambda>_.
     writer_u16 (optional_reason_code (rs_reason result))))))))))"

definition encode_input_result ::
  "InputResult \<Rightarrow> byte list \<Rightarrow> ProtocolLimits \<Rightarrow> InputDirection \<Rightarrow> InputDelivery
   \<Rightarrow> (byte list, WireError, nat) outcome" where
  "encode_input_result result out limits direction delivery =
     try_then (result_route direction delivery, out) (\<lambda>_ out.
     try_then (result_validate result, out) (\<lambda>_ out.
     write_record out (unat (pl_max_control_message_bytes limits)) (rb_channel (rs_binding result)) KInputResult
       (INPUT_RESULT_BYTES - HEADER_BYTES) (put_result result)))"

definition read_result :: "ResultBinding \<Rightarrow> byte list \<Rightarrow> (byte list, WireError, InputResult) outcome" where
  "read_result binding r =
     try_then (reader_u128 r) (\<lambda>session r.
     if Opaque session \<noteq> rb_session binding then (Inl InvalidBinding, r) else
     try_then (reader_u128 r) (\<lambda>lease r.
     if Opaque lease \<noteq> rb_lease binding then (Inl InvalidBinding, r) else
     try_then (reader_u64 r) (\<lambda>sequence r.
     try_then (reader_enum space_arms r) (\<lambda>space r.
     try_then (reader_enum stage_arms r) (\<lambda>stage r.
     try_then (reader_enum outcome_arms r) (\<lambda>outcome r.
     try_then (reader_u32 r) (\<lambda>submitted_operations r.
     try_then (reader_enum bool_arms r) (\<lambda>unknown_next_operation r.
     try_then (reader_enum16 reason_arms r) (\<lambda>reason r.
     try_then (reader_finish r, r) (\<lambda>_ r.
     let result = \<lparr>rs_binding = binding, rs_sequence = sequence, rs_space = space, rs_stage = stage,
           rs_outcome = outcome, rs_submitted_operations = submitted_operations,
           rs_unknown_next_operation = unknown_next_operation, rs_reason = reason\<rparr> in
     try_then (result_validate result, r) (\<lambda>_ r. (Inr result, r))))))))))))"

definition decode_input_result ::
  "byte list \<Rightarrow> ProtocolLimits \<Rightarrow> ResultBinding \<Rightarrow> InputDirection \<Rightarrow> InputDelivery \<Rightarrow> WireError + InputResult" where
  "decode_input_result bytes limits binding direction delivery =
     try_res (result_route direction delivery) (\<lambda>_.
     try_res (decode_bounded bytes (unat (pl_max_control_message_bytes limits)) (rb_channel binding) None) (\<lambda>record.
     try_res (record_reader record KInputResult) (\<lambda>r. fst (read_result binding r))))"

section \<open>Layout\<close>

definition result_layout :: "InputResult \<Rightarrow> byte list" where
  "result_layout result =
     to_be_bytes (id_raw (rb_session (rs_binding result))) @ to_be_bytes (id_raw (rb_lease (rs_binding result)))
     @ to_be_bytes (rs_sequence result) @ [space_code (rs_space result)] @ [stage_code (rs_stage result)]
     @ [outcome_code (rs_outcome result)] @ to_be_bytes (rs_submitted_operations result)
     @ [bool_code (rs_unknown_next_operation result)] @ to_be_bytes (optional_reason_code (rs_reason result))"

interpretation sequence_space: enum8 space_code space_arms
proof
  show "map_of space_arms c = Some v \<longleftrightarrow> c = space_code v" for c v
    by (cases v) (auto simp: space_arms_def split: if_splits)
qed

interpretation result_stage: enum8 stage_code stage_arms
proof
  show "map_of stage_arms c = Some v \<longleftrightarrow> c = stage_code v" for c v
    by (cases v) (auto simp: stage_arms_def split: if_splits)
qed

interpretation result_outcome: enum8 outcome_code outcome_arms
proof (standard, rule arms_iffI)
  show "map_of outcome_arms (outcome_code v) = Some v" for v
    by (cases v) (simp_all add: outcome_arms_def)
qed (simp add: outcome_arms_def)

interpretation result_reason: enum16 optional_reason_code reason_arms
proof (standard, rule arms_iffI)
  show "map_of reason_arms (optional_reason_code v) = Some v" for v
  proof (cases v)
    case (Some reason)
    then show ?thesis by (cases reason) (simp_all add: reason_arms_def)
  qed (simp add: reason_arms_def)
qed (simp add: reason_arms_def)

lemmas result_fields = sequence_space.field.get_iff result_stage.field.get_iff result_outcome.field.get_iff
  result_reason.field.get_iff

lemma put_result_writes: "writes (put_result result) (result_layout result)"
  unfolding put_result_def [abs_def] result_layout_def
  by (intro wire_writes sequence_space.field.put_writes result_stage.field.put_writes
      result_outcome.field.put_writes result_reason.field.put_writes) simp_all

lemma length_result_layout [simp]: "length (result_layout result) = 50"
  by (simp add: result_layout_def)

text \<open>A result the decoder of one binding can return: it carries that binding.\<close>

definition result_typed :: "ResultBinding \<Rightarrow> InputResult \<Rightarrow> bool" where
  "result_typed binding result \<longleftrightarrow> rs_binding result = binding"

lemma opaque_raw: "Opaque x = i \<longleftrightarrow> x = id_raw i"
  by (cases i) auto

lemma read_result_iff:
  "read_result binding p = (Inr result, rest) \<longleftrightarrow>
     result_typed binding result \<and> result_validate result = Inr () \<and> p = result_layout result \<and> rest = []"
  (is "?L \<longleftrightarrow> ?R")
proof
  assume ?L
  then show ?R
    by (auto simp: read_result_def wire_reads result_fields reader_finish_iff Let_def result_layout_def result_typed_def
        opaque_raw split: if_splits)
next
  assume ?R
  then show ?L
    by (cases result) (auto simp: read_result_def result_layout_def result_typed_def u128.get_layout u64.get_layout
        u32.get_layout sequence_space.field.get_layout [simplified] result_stage.field.get_layout [simplified]
        result_outcome.field.get_layout [simplified] boolean.field.get_layout [simplified]
        result_reason.field.get_layout [where rest = "[]", simplified] reader_finish_def Let_def)
qed

lemma result_validate_bound [dest]: "result_validate result = Inr () \<Longrightarrow> rb_channel (rs_binding result) \<noteq> 0"
  by (auto simp: result_validate_def Let_def split: if_splits)

interpretation result_codec: message_codec
  "\<lambda>result out. encode_input_result result out limits direction delivery"
  "\<lambda>bytes. decode_input_result bytes limits binding direction delivery"
  result_layout "\<lambda>_. KInputResult" "rb_channel binding" "unat (pl_max_control_message_bytes limits)"
  "result_typed binding" "\<lambda>result. result_route direction delivery = Inr () \<and> result_validate result = Inr ()"
  for limits binding direction delivery
  by (rule checked_codec_laws [where body = put_result and parse = "read_result binding"
        and n = "INPUT_RESULT_BYTES - HEADER_BYTES"])
    (auto simp: put_result_writes kind_channel_def kind_initial_def read_result_iff encode_input_result_def
      decode_input_result_def result_typed_def INPUT_RESULT_BYTES_def HEADER_BYTES_def)

section \<open>Properties\<close>

text \<open>
  The result codec is exact. A result is written exactly when it travels reliably from
  the host to the viewer, passes its own validation and fits; it decodes to itself under its
  binding, a refusal writes nothing, and a record that decodes is the encoding of its result
  up to skipped extensions.
\<close>

theorem input_result_codec_is_exact:
  "(is_ok (fst (encode_input_result result out limits direction delivery)) \<longleftrightarrow>
      (result_route direction delivery = Inr () \<and> result_validate result = Inr ())
      \<and> HEADER_BYTES + length (result_layout result) \<le> min (unat (pl_max_control_message_bytes limits)) (length out))
   \<and> (encode_input_result result out limits direction delivery = (Inr n, out') \<longrightarrow>
      n \<le> length out \<and> decode_input_result (take n out') limits (rs_binding result) direction delivery = Inr result \<and> drop n out' = drop n out)
   \<and> (encode_input_result result out limits direction delivery = (Inl e, out') \<longrightarrow> out' = out)
   \<and> (decode_input_result bytes limits (rs_binding result) direction delivery = Inr result \<and> length bytes \<le> length out \<longrightarrow>
      (\<exists>extensions. validate_extensions extensions = Inr ()
         \<and> bytes = frame KInputResult (rb_channel (rs_binding result)) (result_layout result) extensions
         \<and> encode_input_result result out limits direction delivery = (Inr (length bytes - length extensions),
             frame KInputResult (rb_channel (rs_binding result)) (result_layout result) [] @ drop (length bytes - length extensions) out)))"
  by (rule result_codec.exact) (simp add: result_typed_def)

end
