(* ===== verification/Wire_Refusal.thy ===== *)
theory Wire_Refusal
  imports Wire_Result
begin

text \<open>
  Refusal records: \<open>fr-wire/src/refusal.rs\<close>. Its \<open>Reason\<close> is \<open>RefusalReason\<close> here, its
  \<open>Stage\<close> is that of the input results.
\<close>

datatype RefusalReason =
    ReasonInvalidMessage | ReasonUnsupportedVersion | ReasonUnsupportedProfile | ReasonRequiredCapability
  | ReasonInvalidLimits | ReasonInvalidSelection | ReasonPermissionDenied | ReasonLocalApprovalDenied
  | ReasonApprovalExpired | ReasonControlUnavailable | ReasonResourceLimit | ReasonInvalidState
  | ReasonExpired | ReasonHostUnavailable | ReasonTailnetMembershipUnverifiable

fun refusal_code :: "RefusalReason \<Rightarrow> u16" where
  "refusal_code ReasonInvalidMessage = 1"
| "refusal_code ReasonUnsupportedVersion = 2"
| "refusal_code ReasonUnsupportedProfile = 3"
| "refusal_code ReasonRequiredCapability = 4"
| "refusal_code ReasonInvalidLimits = 5"
| "refusal_code ReasonInvalidSelection = 6"
| "refusal_code ReasonPermissionDenied = 7"
| "refusal_code ReasonLocalApprovalDenied = 8"
| "refusal_code ReasonApprovalExpired = 9"
| "refusal_code ReasonControlUnavailable = 10"
| "refusal_code ReasonResourceLimit = 11"
| "refusal_code ReasonInvalidState = 12"
| "refusal_code ReasonExpired = 13"
| "refusal_code ReasonHostUnavailable = 14"
| "refusal_code ReasonTailnetMembershipUnverifiable = 15"

definition refusal_arms :: "(u16 \<times> RefusalReason) list" where
  "refusal_arms =
     [(1, ReasonInvalidMessage), (2, ReasonUnsupportedVersion), (3, ReasonUnsupportedProfile),
      (4, ReasonRequiredCapability), (5, ReasonInvalidLimits), (6, ReasonInvalidSelection),
      (7, ReasonPermissionDenied), (8, ReasonLocalApprovalDenied), (9, ReasonApprovalExpired),
      (10, ReasonControlUnavailable), (11, ReasonResourceLimit), (12, ReasonInvalidState),
      (13, ReasonExpired), (14, ReasonHostUnavailable), (15, ReasonTailnetMembershipUnverifiable)]"

record Refused =
  rf_reason :: RefusalReason
  rf_operation :: "u64 option"
  rf_stage :: "Stage option"

definition refused_connection :: "RefusalReason \<Rightarrow> Refused" where
  "refused_connection reason = \<lparr>rf_reason = reason, rf_operation = None, rf_stage = None\<rparr>"

definition refused_validate :: "Refused \<Rightarrow> u32 \<Rightarrow> WireError + unit" where
  "refused_validate m binding =
     (if is_some (rf_stage m) \<and> (binding = 0 \<or> rf_operation m = None) then Inl InvalidValue else Inr ())"

definition refusal_maximum :: "nat \<Rightarrow> InputDelivery \<Rightarrow> WireError + nat" where
  "refusal_maximum value delivery =
     (if delivery \<noteq> Reliable then Inl WrongChannel
      else Inr (min value (unat (pl_max_control_message_bytes ABSOLUTE))))"

definition refused_payload :: "Refused \<Rightarrow> nat" where
  "refused_payload m = 4 + of_bool (is_some (rf_operation m)) * 8 + of_bool (is_some (rf_stage m))"

definition put_refused :: "Refused \<Rightarrow> Writer \<Rightarrow> (Writer, WireError, unit) outcome" where
  "put_refused m w =
     try_then (writer_u16 (refusal_code (rf_reason m)) w) (\<lambda>_ w.
     try_then (writer_optional_u64 (rf_operation m) w) (\<lambda>_ w.
     try_then (writer_u8 (of_bool (is_some (rf_stage m))) w) (\<lambda>_ w.
     case rf_stage m of
       Some stage \<Rightarrow> writer_u8 (stage_code stage) w
     | None \<Rightarrow> (Inr (), w))))"

definition encode_refused ::
  "Refused \<Rightarrow> u32 \<Rightarrow> nat \<Rightarrow> byte list \<Rightarrow> InputDelivery \<Rightarrow> (byte list, WireError, nat) outcome" where
  "encode_refused m binding limit out delivery =
     try_then (refusal_maximum limit delivery, out) (\<lambda>maximum out.
     try_then (refused_validate m binding, out) (\<lambda>_ out.
     write_record out maximum binding KRefused (refused_payload m) (put_refused m)))"

definition read_stage :: "byte list \<Rightarrow> (byte list, WireError, Stage option) outcome" where
  "read_stage r =
     try_then (reader_u8 r) (\<lambda>tag r.
     if tag = 0 then (Inr None, r)
     else if tag = 1 then try_then (reader_enum stage_arms r) (\<lambda>stage r. (Inr (Some stage), r))
     else (Inl InvalidValue, r))"

definition read_refused :: "u32 \<Rightarrow> byte list \<Rightarrow> (byte list, WireError, Refused) outcome" where
  "read_refused binding r =
     try_then (reader_enum16 refusal_arms r) (\<lambda>reason r.
     try_then (reader_optional_u64 r) (\<lambda>operation r.
     try_then (read_stage r) (\<lambda>stage r.
     try_then (reader_finish r, r) (\<lambda>_ r.
     let m = \<lparr>rf_reason = reason, rf_operation = operation, rf_stage = stage\<rparr> in
     try_then (refused_validate m binding, r) (\<lambda>_ r. (Inr m, r))))))"

definition decode_refused :: "byte list \<Rightarrow> u32 \<Rightarrow> nat \<Rightarrow> InputDelivery \<Rightarrow> WireError + Refused" where
  "decode_refused bytes binding limit delivery =
     try_res (refusal_maximum limit delivery) (\<lambda>maximum.
     try_res (decode_bounded bytes maximum binding None) (\<lambda>record.
     try_res (record_reader record KRefused) (\<lambda>r. fst (read_refused binding r))))"

section \<open>Layout\<close>

interpretation refusal_reason: enum16 refusal_code refusal_arms
proof (standard, rule arms_iffI)
  show "map_of refusal_arms (refusal_code v) = Some v" for v
    by (cases v) (simp_all add: refusal_arms_def)
qed (simp add: refusal_arms_def)

fun stage_layout :: "Stage option \<Rightarrow> byte list" where
  "stage_layout None = [0]"
| "stage_layout (Some stage) = [1, stage_code stage]"

definition refused_layout :: "Refused \<Rightarrow> byte list" where
  "refused_layout m =
     to_be_bytes (refusal_code (rf_reason m)) @ optional_layout (rf_operation m) @ stage_layout (rf_stage m)"

lemma length_refused_layout: "length (refused_layout m) = refused_payload m"
  by (cases "rf_operation m"; cases "rf_stage m")
    (simp_all add: refused_layout_def refused_payload_def optional_layout_def)

lemma put_refused_writes: "writes (put_refused m) (refused_layout m)"
proof -
  have stage: "writes (\<lambda>w. case rf_stage m of Some stage \<Rightarrow> writer_u8 (stage_code stage) w | None \<Rightarrow> (Inr (), w))
      (drop 1 (stage_layout (rf_stage m)))"
    by (cases "rf_stage m") (simp_all add: u8.put_writes writes_none)
  have "writes (put_refused m)
    (to_be_bytes (refusal_code (rf_reason m)) @ optional_layout (rf_operation m)
      @ [of_bool (is_some (rf_stage m))] @ drop 1 (stage_layout (rf_stage m)))"
    unfolding put_refused_def [abs_def] by (intro wire_writes stage) simp_all
  then show ?thesis by (cases "rf_stage m") (simp_all add: refused_layout_def)
qed

lemma read_stage_iff: "read_stage r = (Inr stage, rest) \<longleftrightarrow> r = stage_layout stage @ rest"
  by (cases stage) (auto simp: read_stage_def wire_reads result_stage.field.get_iff intro: exI [of _ 0] exI [of _ 1] split: if_splits)

lemma read_refused_iff:
  "read_refused binding p = (Inr m, rest) \<longleftrightarrow> refused_validate m binding = Inr () \<and> p = refused_layout m \<and> rest = []"
  by (cases m) (auto simp: read_refused_def wire_reads refusal_reason.field.get_iff read_stage_iff reader_finish_iff
      Let_def refused_layout_def)

lemma refused_kind [simp]: "kind_channel KRefused = None" "kind_initial KRefused"
  by (simp_all add: kind_channel_def kind_initial_def)

abbreviation refusal_limit :: "nat \<Rightarrow> nat" where
  "refusal_limit limit \<equiv> min limit (unat (pl_max_control_message_bytes ABSOLUTE))"

interpretation refusal_codec: message_codec
  "\<lambda>m out. encode_refused m binding limit out delivery"
  "\<lambda>bytes. decode_refused bytes binding limit delivery"
  refused_layout "\<lambda>_. KRefused" binding "refusal_limit limit"
  "\<lambda>_. True" "\<lambda>m. delivery = Reliable \<and> refused_validate m binding = Inr ()" for binding limit delivery
proof (rule codec_laws [where body = put_refused])
  show "length (refused_layout m) < 2 ^ 32" for m
    by (simp add: length_refused_layout refused_payload_def)
  show "refusal_limit limit < 2 ^ 32" by (simp add: min_less_iff_disj)
  show "\<exists>e. encode_refused m binding limit out delivery = (Inl e, out)"
    if "\<not> (delivery = Reliable \<and> refused_validate m binding = Inr ())" for m out
    using that by (cases "refused_validate m binding") (auto simp: encode_refused_def refusal_maximum_def)
  show "decode_refused bytes binding limit delivery = Inr m \<longleftrightarrow>
      True \<and> (delivery = Reliable \<and> refused_validate m binding = Inr ())
      \<and> length bytes \<le> refusal_limit limit \<and> framed bytes KRefused binding (refused_layout m)" for bytes m
    by (cases "delivery = Reliable")
      (auto simp: decode_refused_def refusal_maximum_def decode_record_iff read_refused_iff)
qed (simp_all add: encode_refused_def refusal_maximum_def length_refused_layout put_refused_writes)

end
