(* ===== verification/Negotiation.thy ===== *)
theory Negotiation
  imports Wire_Refusal "HOL-Library.List_Lexorder"
begin

text \<open>
  Session startup without its bytes: the offers, selections and checks of
  \<open>fr-wire/src/negotiation.rs\<close>. A name is the bytes of the Rust \<open>String\<close>, ordered byte by
  byte. Whether an allocation succeeds is a parameter of the operations that allocate.
\<close>

section \<open>Offers and selections\<close>

definition MAX_RECORD :: nat where
  "MAX_RECORD = 4096"

definition MAX_CAPABILITIES :: nat where
  "MAX_CAPABILITIES = 24"

definition MAX_VERSIONS :: nat where
  "MAX_VERSIONS = 8"

definition MAX_NAME :: nat where
  "MAX_NAME = 64"

definition NATIVE_PROFILE :: u8 where
  "NATIVE_PROFILE = 1"

definition PROFILE_VERSION :: u16 where
  "PROFILE_VERSION = 0"

datatype Role = Observe | RequestControl

datatype NegotiationError =
    NWire WireError
  | NRefused Refused
  | NInvalid
  | NLimits
  | NVersion
  | NProfile
  | NRequiredCapability
  | NSelection
  | NAllocation

text \<open>
  The calls of \<open>try_reserve_exact\<close> during startup: the versions and the capabilities of a received
  offer, the common capabilities of two offers, and the slot of a mark (\<open>inspection.rs\<close>). A memory
  answers whether the call succeeds.
\<close>

datatype reservation = ReserveVersions nat | ReserveCapabilities nat | ReserveCommon nat | ReserveMark

type_synonym memory = "reservation \<Rightarrow> bool"

record NamedCapability =
  cap_name :: "byte list"
  cap_version :: u16
  cap_required :: bool

record Offer =
  of_versions :: "u16 list"
  of_profile :: u8
  of_profile_version :: u16
  of_role :: Role
  of_limits :: ProtocolLimits
  of_capabilities :: "NamedCapability list"

record Selection =
  sl_version :: u16
  sl_profile :: u8
  sl_profile_version :: u16
  sl_role :: Role
  sl_limits :: ProtocolLimits
  sl_capabilities :: "NamedCapability list"

definition name_byte :: "byte \<Rightarrow> bool" where
  "name_byte b \<longleftrightarrow> (0x61 \<le> b \<and> b \<le> 0x7A) \<or> (0x30 \<le> b \<and> b \<le> 0x39) \<or> b \<in> {0x2E, 0x2D, 0x5F}"

fun valid_caps_from :: "byte list option \<Rightarrow> NamedCapability list \<Rightarrow> NegotiationError + unit" where
  "valid_caps_from previous [] = Inr ()"
| "valid_caps_from previous (c # caps) =
     (if cap_name c = [] \<or> length (cap_name c) > MAX_NAME \<or> cap_version c = 0
         \<or> \<not> list_all name_byte (cap_name c) \<or> is_some_and (\<lambda>p. p \<ge> cap_name c) previous
      then Inl NInvalid
      else valid_caps_from (Some (cap_name c)) caps)"

definition valid_caps :: "NamedCapability list \<Rightarrow> NegotiationError + unit" where
  "valid_caps caps = (if length caps > MAX_CAPABILITIES then Inl NInvalid else valid_caps_from None caps)"

definition valid_limits :: "ProtocolLimits \<Rightarrow> NegotiationError + unit" where
  "valid_limits limits = (if pl_max_control_message_bytes limits < 128 then Inl NLimits else Inr ())"

definition offer_validate :: "Offer \<Rightarrow> NegotiationError + unit" where
  "offer_validate offer =
     (if of_versions offer = [] \<or> length (of_versions offer) > MAX_VERSIONS
         \<or> list_ex (\<lambda>(a, b). a \<ge> b) (zip (of_versions offer) (tl (of_versions offer)))
      then Inl NVersion
      else if of_profile offer \<noteq> NATIVE_PROFILE \<or> of_profile_version offer \<noteq> PROFILE_VERSION then Inl NProfile
      else try_res (valid_limits (of_limits offer)) (\<lambda>_. valid_caps (of_capabilities offer)))"

definition same_capability :: "NamedCapability \<Rightarrow> NamedCapability \<Rightarrow> bool" where
  "same_capability c p \<longleftrightarrow> cap_name p = cap_name c \<and> cap_version p = cap_version c"

definition lacks_required :: "NamedCapability list \<Rightarrow> NamedCapability list \<Rightarrow> bool" where
  "lacks_required a b = list_ex (\<lambda>c. cap_required c \<and> \<not> list_ex (same_capability c) b) a"

definition common_capabilities :: "NamedCapability list \<Rightarrow> NamedCapability list \<Rightarrow> NamedCapability list" where
  "common_capabilities mine theirs =
     flatten (map (\<lambda>c. map_option (\<lambda>p. c\<lparr>cap_required := cap_required c \<or> cap_required p\<rparr>)
       (find (same_capability c) theirs)) mine)"

definition intersect :: "memory \<Rightarrow> Offer \<Rightarrow> Offer \<Rightarrow> NegotiationError + Offer" where
  "intersect mem offer peer =
     try_res (offer_validate offer) (\<lambda>_.
     try_res (offer_validate peer) (\<lambda>_.
     if 0 \<notin> set (of_versions offer) \<or> 0 \<notin> set (of_versions peer) then Inl NVersion
     else if lacks_required (of_capabilities offer) (of_capabilities peer)
        \<or> lacks_required (of_capabilities peer) (of_capabilities offer)
     then Inl NRequiredCapability
     else if \<not> mem (ReserveCommon MAX_CAPABILITIES) then Inl NAllocation
     else Inr (offer\<lparr>of_versions := [0], of_role := of_role peer,
         of_limits := negotiated (of_limits offer) (of_limits peer),
         of_capabilities := common_capabilities (of_capabilities offer) (of_capabilities peer)\<rparr>)))"

definition select :: "Offer \<Rightarrow> NegotiationError + Selection" where
  "select offer =
     try_res (offer_validate offer) (\<lambda>_.
     if 0 \<notin> set (of_versions offer) then Inl NVersion
     else Inr \<lparr>sl_version = 0, sl_profile = of_profile offer, sl_profile_version = of_profile_version offer,
       sl_role = of_role offer, sl_limits = of_limits offer, sl_capabilities = of_capabilities offer\<rparr>)"

definition check_host :: "Offer \<Rightarrow> Offer \<Rightarrow> NegotiationError + unit" where
  "check_host offer host =
     try_res (offer_validate offer) (\<lambda>_.
     try_res (offer_validate host) (\<lambda>_.
     if of_versions host \<noteq> [0] \<or> 0 \<notin> set (of_versions offer) \<or> of_role host \<noteq> of_role offer
        \<or> negotiated (of_limits host) (of_limits offer) \<noteq> of_limits host
     then Inl NSelection
     else if list_ex (\<lambda>c. \<not> list_ex (same_capability c) (of_capabilities offer)) (of_capabilities host)
        \<or> list_ex (\<lambda>c. cap_required c
             \<and> \<not> list_ex (\<lambda>p. same_capability c p \<and> cap_required p) (of_capabilities host)) (of_capabilities offer)
     then Inl NRequiredCapability
     else Inr ()))"

definition selection_validate :: "Selection \<Rightarrow> NegotiationError + unit" where
  "selection_validate s =
     (if sl_version s \<noteq> 0 then Inl NVersion
      else if sl_profile s \<noteq> NATIVE_PROFILE \<or> sl_profile_version s \<noteq> PROFILE_VERSION then Inl NProfile
      else try_res (valid_limits (sl_limits s)) (\<lambda>_. valid_caps (sl_capabilities s)))"

definition check_against :: "Selection \<Rightarrow> Offer \<Rightarrow> NegotiationError + unit" where
  "check_against s offer =
     try_res (selection_validate s) (\<lambda>_.
     try_res (offer_validate offer) (\<lambda>_.
     if sl_version s \<notin> set (of_versions offer) \<or> sl_role s \<noteq> of_role offer
        \<or> negotiated (sl_limits s) (of_limits offer) \<noteq> sl_limits s
     then Inl NSelection
     else if list_ex (\<lambda>c. \<not> list_ex (\<lambda>p. p = c) (of_capabilities offer)) (sl_capabilities s)
        \<or> list_ex (\<lambda>c. cap_required c \<and> c \<notin> set (sl_capabilities s)) (of_capabilities offer)
     then Inl NRequiredCapability
     else Inr ()))"

section \<open>Valid lists of capabilities\<close>

definition capability_valid :: "NamedCapability \<Rightarrow> bool" where
  "capability_valid c \<longleftrightarrow> cap_name c \<noteq> [] \<and> length (cap_name c) \<le> 64 \<and> cap_version c \<noteq> 0
     \<and> list_all name_byte (cap_name c)"

definition capabilities_valid :: "NamedCapability list \<Rightarrow> bool" where
  "capabilities_valid caps \<longleftrightarrow>
     length caps \<le> 24 \<and> list_all capability_valid caps \<and> sorted_wrt (<) (map cap_name caps)"

lemma valid_caps_from_iff:
  "valid_caps_from previous caps = Inr () \<longleftrightarrow>
     list_all capability_valid caps
     \<and> sorted_wrt (<) (case previous of None \<Rightarrow> map cap_name caps | Some p \<Rightarrow> p # map cap_name caps)"
proof (induction caps arbitrary: previous)
  case (Cons c caps)
  have "sorted_wrt (<) (p # cap_name c # map cap_name caps) \<longleftrightarrow>
      p < cap_name c \<and> sorted_wrt (<) (cap_name c # map cap_name caps)" for p
    by (auto intro: less_trans)
  then show ?case
    by (cases previous) (auto simp: Cons.IH capability_valid_def MAX_NAME_def not_le is_some_and_def)
qed (simp split: option.split)

lemma valid_caps_iff: "valid_caps caps = Inr () \<longleftrightarrow> capabilities_valid caps"
  by (auto simp: valid_caps_def valid_caps_from_iff capabilities_valid_def MAX_CAPABILITIES_def)

lemma windows_sorted:
  "list_ex (\<lambda>(a, b). a \<ge> b) (zip vs (tl vs)) \<longleftrightarrow> \<not> sorted_wrt (<) (vs :: 'a::linorder list)"
proof (induction vs)
  case (Cons v vs)
  then show ?case by (cases vs) (auto simp: not_le intro: less_trans)
qed simp

lemma offer_validate_iff:
  "offer_validate offer = Inr () \<longleftrightarrow>
     of_versions offer \<noteq> [] \<and> length (of_versions offer) \<le> 8 \<and> sorted_wrt (<) (of_versions offer)
     \<and> of_profile offer = 1 \<and> of_profile_version offer = 0
     \<and> 128 \<le> unat (pl_max_control_message_bytes (of_limits offer)) \<and> capabilities_valid (of_capabilities offer)"
  by (auto simp: offer_validate_def windows_sorted valid_caps_iff valid_limits_def try_res_Inr_iff MAX_VERSIONS_def
      NATIVE_PROFILE_def PROFILE_VERSION_def word_less_nat_alt split: if_splits)

lemma selection_validate_iff:
  "selection_validate s = Inr () \<longleftrightarrow>
     sl_version s = 0 \<and> sl_profile s = 1 \<and> sl_profile_version s = 0
     \<and> 128 \<le> unat (pl_max_control_message_bytes (sl_limits s)) \<and> capabilities_valid (sl_capabilities s)"
  by (auto simp: selection_validate_def valid_caps_iff valid_limits_def try_res_Inr_iff
      NATIVE_PROFILE_def PROFILE_VERSION_def word_less_nat_alt split: if_splits)

lemma same_name:
  assumes "capabilities_valid caps" "c \<in> set caps" "p \<in> set caps" "cap_name c = cap_name p"
  shows "c = p"
proof -
  have "distinct (map cap_name caps)"
    using assms(1) by (simp add: capabilities_valid_def strict_sorted_iff)
  then show ?thesis using assms(2-4) by (auto simp: distinct_map inj_on_def)
qed

section \<open>Intersections\<close>

lemma same_capability_simps [simp]:
  "same_capability c c" "same_capability (c\<lparr>cap_required := b\<rparr>) p = same_capability c p"
  "same_capability c (p\<lparr>cap_required := b\<rparr>) = same_capability c p"
  by (simp_all add: same_capability_def)

lemma find_same_capability:
  assumes "capabilities_valid caps"
  shows "find (same_capability c) caps = Some p \<longleftrightarrow> p \<in> set caps \<and> same_capability c p"
proof
  assume "find (same_capability c) caps = Some p"
  then show "p \<in> set caps \<and> same_capability c p" by (auto simp: find_Some_iff)
next
  assume p: "p \<in> set caps \<and> same_capability c p"
  then obtain q where q: "find (same_capability c) caps = Some q"
    by (cases "find (same_capability c) caps") (auto simp: find_None_iff)
  then have "q \<in> set caps \<and> same_capability c q" by (auto simp: find_Some_iff)
  with p have "q = p" by (intro same_name [OF assms]) (auto simp: same_capability_def)
  with q show "find (same_capability c) caps = Some p" by simp
qed

lemma in_common_capabilities:
  assumes "capabilities_valid theirs"
  shows "c' \<in> set (common_capabilities mine theirs) \<longleftrightarrow>
    (\<exists>c \<in> set mine. \<exists>p \<in> set theirs. same_capability c p \<and> c' = c\<lparr>cap_required := cap_required c \<or> cap_required p\<rparr>)"
  by (auto simp: common_capabilities_def image_iff find_same_capability [OF assms] eq_commute [of "Some c'"])

lemma common_capabilitiesI:
  assumes "capabilities_valid theirs" "c \<in> set mine" "p \<in> set theirs" "same_capability c p"
  shows "c\<lparr>cap_required := cap_required c \<or> cap_required p\<rparr> \<in> set (common_capabilities mine theirs)"
  unfolding in_common_capabilities [OF assms(1)] using assms(2-4) by blast

lemma names_common_capabilities:
  "map cap_name (common_capabilities mine theirs) =
     map cap_name (filter (\<lambda>c. is_some (find (same_capability c) theirs)) mine)"
proof (induction mine)
  case (Cons c mine)
  then show ?case by (cases "find (same_capability c) theirs") (simp_all add: common_capabilities_def)
qed (simp add: common_capabilities_def)

lemma capabilities_valid_common:
  assumes "capabilities_valid mine" "capabilities_valid theirs"
  shows "capabilities_valid (common_capabilities mine theirs)"
proof -
  have "length (common_capabilities mine theirs) \<le> length mine"
    using names_common_capabilities [of mine theirs, THEN arg_cong [where f = length]]
    by (simp add: length_filter_le)
  then have "length (common_capabilities mine theirs) \<le> 24"
    using assms(1) by (simp add: capabilities_valid_def)
  moreover have "list_all capability_valid (common_capabilities mine theirs)"
    using assms(1) by (auto simp: list_all_iff in_common_capabilities [OF assms(2)] capabilities_valid_def
        capability_valid_def)
  moreover have "sorted_wrt (<) (map cap_name (common_capabilities mine theirs))"
    using assms(1) by (simp only: names_common_capabilities)
      (auto simp: capabilities_valid_def sorted_wrt_map intro: sorted_wrt_filter)
  ultimately show ?thesis by (simp add: capabilities_valid_def)
qed

lemma intersect_iff:
  "intersect mem host client = Inr offer \<longleftrightarrow>
     offer_validate host = Inr () \<and> offer_validate client = Inr ()
     \<and> 0 \<in> set (of_versions host) \<and> 0 \<in> set (of_versions client)
     \<and> \<not> lacks_required (of_capabilities host) (of_capabilities client)
     \<and> \<not> lacks_required (of_capabilities client) (of_capabilities host) \<and> mem (ReserveCommon MAX_CAPABILITIES)
     \<and> offer = host\<lparr>of_versions := [0], of_role := of_role client,
         of_limits := negotiated (of_limits host) (of_limits client),
         of_capabilities := common_capabilities (of_capabilities host) (of_capabilities client)\<rparr>"
  by (auto simp: intersect_def try_res_Inr_iff)

lemma offer_validate_allocates_nothing: "offer_validate offer \<noteq> Inl NAllocation"
proof -
  have "valid_caps_from previous caps \<noteq> Inl NAllocation" for previous caps
    by (induction previous caps rule: valid_caps_from.induct) simp_all
  then show ?thesis
    by (cases "valid_limits (of_limits offer)") (auto simp: offer_validate_def valid_limits_def valid_caps_def split: if_splits)
qed

lemma intersect_allocation:
  "intersect mem host client = Inl NAllocation \<longleftrightarrow>
     is_ok (intersect (\<lambda>_. True) host client) \<and> \<not> mem (ReserveCommon MAX_CAPABILITIES)"
  using offer_validate_allocates_nothing [of host] offer_validate_allocates_nothing [of client]
  by (cases "offer_validate host"; cases "offer_validate client") (auto simp: intersect_def)

lemma negotiated_again:
  "negotiated (negotiated a b) b = negotiated a b" "negotiated a a = a"
  by (simp_all add: negotiated_def)

lemma intersect_valid:
  assumes "intersect mem host client = Inr offer"
  shows "offer_validate offer = Inr ()"
  using assms
  by (auto simp: intersect_iff offer_validate_iff capabilities_valid_common negotiated_def unat_min)

lemma lacks_required_iff:
  "lacks_required a b \<longleftrightarrow> (\<exists>c \<in> set a. cap_required c \<and> (\<forall>p \<in> set b. \<not> same_capability c p))"
  by (auto simp: lacks_required_def list_ex_iff)

lemma same_capability_sym: "same_capability c p \<longleftrightarrow> same_capability p c"
  by (auto simp: same_capability_def)

lemma same_capability_trans: "same_capability c p \<Longrightarrow> same_capability p q \<Longrightarrow> same_capability c q"
  by (simp add: same_capability_def)

lemma intersect_keeps_required:
  assumes "intersect mem host client = Inr offer" "cap_required c"
    and "c \<in> set (of_capabilities host) \<or> c \<in> set (of_capabilities client)"
  shows "\<exists>p \<in> set (of_capabilities offer). same_capability c p \<and> cap_required p"
proof -
  have valid: "capabilities_valid (of_capabilities client)"
    using assms(1) by (simp add: intersect_iff offer_validate_iff)
  have caps: "of_capabilities offer = common_capabilities (of_capabilities host) (of_capabilities client)"
    using assms(1) by (simp add: intersect_iff)
  from assms(3) show ?thesis
  proof
    assume c: "c \<in> set (of_capabilities host)"
    then obtain p where p: "p \<in> set (of_capabilities client)" "same_capability c p"
      using assms(1,2) by (auto simp: intersect_iff lacks_required_iff)
    show ?thesis
      using common_capabilitiesI [OF valid c p] p(2) assms(2) by (intro bexI) (auto simp: caps)
  next
    assume c: "c \<in> set (of_capabilities client)"
    then obtain p where p: "p \<in> set (of_capabilities host)" "same_capability c p"
      using assms(1,2) by (auto simp: intersect_iff lacks_required_iff)
    have "same_capability p c" using p(2) by (simp add: same_capability_def)
    then show ?thesis
      using common_capabilitiesI [OF valid p(1) c] p(2) assms(2) by (intro bexI) (auto simp: caps)
  qed
qed

lemma intersect_checked:
  assumes "intersect mem host client = Inr offer"
  shows "check_host client offer = Inr ()"
proof -
  have client: "offer_validate client = Inr ()" "capabilities_valid (of_capabilities client)"
    using assms by (auto simp: intersect_iff offer_validate_iff)
  have "\<not> list_ex (\<lambda>c. \<not> list_ex (same_capability c) (of_capabilities client)) (of_capabilities offer)"
    using assms by (fastforce simp: intersect_iff list_ex_iff in_common_capabilities [OF client(2)])
  moreover have "\<not> list_ex (\<lambda>c. cap_required c
      \<and> \<not> list_ex (\<lambda>p. same_capability c p \<and> cap_required p) (of_capabilities offer)) (of_capabilities client)"
    using intersect_keeps_required [OF assms] by (auto simp: list_ex_iff)
  ultimately show ?thesis
    using assms intersect_valid [OF assms] client
    by (simp add: check_host_def) (auto simp: intersect_iff negotiated_again)
qed

lemma select_checked:
  assumes "offer_validate offer = Inr ()" "0 \<in> set (of_versions offer)"
  shows "\<exists>s. select offer = Inr s \<and> check_against s offer = Inr ()"
proof -
  let ?s = "\<lparr>sl_version = 0, sl_profile = of_profile offer, sl_profile_version = of_profile_version offer,
       sl_role = of_role offer, sl_limits = of_limits offer, sl_capabilities = of_capabilities offer\<rparr>"
  have "selection_validate ?s = Inr ()"
    using assms(1) by (simp add: selection_validate_iff offer_validate_iff)
  then have "check_against ?s offer = Inr ()"
    using assms by (auto simp: check_against_def negotiated_again list_ex_iff)
  moreover have "select offer = Inr ?s" using assms by (simp add: select_def)
  ultimately show ?thesis by blast
qed

lemma intersect_capabilities:
  assumes "intersect mem host client = Inr offer"
  shows "(\<exists>a \<in> set (of_capabilities offer). same_capability c a) \<longleftrightarrow>
      (\<exists>h \<in> set (of_capabilities host). same_capability c h) \<and> (\<exists>p \<in> set (of_capabilities client). same_capability c p)"
    (is "?L \<longleftrightarrow> ?R")
proof -
  have valid: "capabilities_valid (of_capabilities client)"
    and caps: "of_capabilities offer = common_capabilities (of_capabilities host) (of_capabilities client)"
    using assms by (simp_all add: intersect_iff offer_validate_iff)
  show ?thesis
  proof
    assume ?L
    then obtain h p where "h \<in> set (of_capabilities host)" "p \<in> set (of_capabilities client)"
      "same_capability h p" "same_capability c h"
      by (auto simp: caps in_common_capabilities [OF valid])
    then show ?R using same_capability_trans by blast
  next
    assume ?R
    then obtain h p where h: "h \<in> set (of_capabilities host)" "p \<in> set (of_capabilities client)"
      "same_capability c h" "same_capability h p"
      by (auto simp: same_capability_def)
    then show ?L using common_capabilitiesI [OF valid h(1,2,4)] by (intro bexI) (auto simp: caps)
  qed
qed

lemma intersect_required:
  assumes "intersect mem host client = Inr offer" "a \<in> set (of_capabilities offer)"
  shows "cap_required a \<longleftrightarrow>
    (\<exists>c \<in> set (of_capabilities host) \<union> set (of_capabilities client). same_capability a c \<and> cap_required c)"
    (is "?L \<longleftrightarrow> ?R")
proof -
  have valid: "capabilities_valid (of_capabilities client)" "capabilities_valid (of_capabilities offer)"
    and caps: "of_capabilities offer = common_capabilities (of_capabilities host) (of_capabilities client)"
    using assms(1) intersect_valid [OF assms(1)] by (simp_all add: intersect_iff offer_validate_iff)
  show ?thesis
  proof
    assume ?L
    obtain h p where h: "h \<in> set (of_capabilities host)" "p \<in> set (of_capabilities client)" "same_capability h p"
      "a = h\<lparr>cap_required := cap_required h \<or> cap_required p\<rparr>"
      using assms(2) by (auto simp: caps in_common_capabilities [OF valid(1)])
    with \<open>?L\<close> consider "cap_required h" | "cap_required p" by auto
    then show ?R
      by cases (use h in \<open>auto intro: bexI [of _ h] bexI [of _ p]\<close>)
  next
    assume ?R
    then obtain c p where c: "same_capability a c" "p \<in> set (of_capabilities offer)" "same_capability c p" "cap_required p"
      using intersect_keeps_required [OF assms(1)] by blast
    then have "p = a" using assms(2) by (intro same_name [OF valid(2)]) (simp_all add: same_capability_def)
    then show ?L using c(4) by simp
  qed
qed

text \<open>
  The lists of capabilities that are accepted are longer than the 16 entries that
  \<open>PROTOCOL_NEGOTIATION.md\<close> allows.
\<close>

lemma more_than_sixteen_capabilities:
  "valid_caps (map (\<lambda>i. \<lparr>cap_name = [0x61 + of_nat i], cap_version = 1, cap_required = False\<rparr>) [0..<24]) = Inr ()"
  by code_simp

section \<open>Properties\<close>

text \<open>
  C33. Negotiation agrees on the common ground, and every check of it passes. A host
  intersects its offer with a client's exactly when both are valid, both speak version 0 and
  neither lacks a capability the other requires and the list for the result can be allocated; when
  only that fails, the error says so. The result has exactly the capabilities both
  name at the same version, required where either side requires it; so no side's requirement
  is erased. Its limits are the negotiated ones and its role the client's. The client's own
  check of the result succeeds, and so do selecting from it and checking that selection
  against it.
\<close>

theorem negotiation_agrees_on_the_common_ground:
  "(is_ok (intersect mem host client) \<longleftrightarrow>
      offer_validate host = Inr () \<and> offer_validate client = Inr ()
      \<and> 0 \<in> set (of_versions host) \<and> 0 \<in> set (of_versions client)
      \<and> \<not> lacks_required (of_capabilities host) (of_capabilities client)
      \<and> \<not> lacks_required (of_capabilities client) (of_capabilities host) \<and> mem (ReserveCommon MAX_CAPABILITIES))
   \<and> (intersect mem host client = Inl NAllocation \<longleftrightarrow>
      is_ok (intersect (\<lambda>_. True) host client) \<and> \<not> mem (ReserveCommon MAX_CAPABILITIES))
   \<and> (intersect mem host client = Inr offer \<longrightarrow>
      of_role offer = of_role client \<and> of_limits offer = negotiated (of_limits host) (of_limits client)
      \<and> (\<forall>c. (\<exists>a \<in> set (of_capabilities offer). same_capability c a) \<longleftrightarrow>
            (\<exists>h \<in> set (of_capabilities host). same_capability c h)
            \<and> (\<exists>p \<in> set (of_capabilities client). same_capability c p))
      \<and> (\<forall>a \<in> set (of_capabilities offer). cap_required a \<longleftrightarrow>
            (\<exists>c \<in> set (of_capabilities host) \<union> set (of_capabilities client). same_capability a c \<and> cap_required c))
      \<and> (\<forall>c \<in> set (of_capabilities host) \<union> set (of_capabilities client). cap_required c \<longrightarrow>
            (\<exists>a \<in> set (of_capabilities offer). same_capability c a \<and> cap_required a))
      \<and> check_host client offer = Inr ()
      \<and> (\<exists>s. select offer = Inr s \<and> check_against s offer = Inr ()))"
proof (intro conjI impI)
  show "is_ok (intersect mem host client) \<longleftrightarrow>
      offer_validate host = Inr () \<and> offer_validate client = Inr ()
      \<and> 0 \<in> set (of_versions host) \<and> 0 \<in> set (of_versions client)
      \<and> \<not> lacks_required (of_capabilities host) (of_capabilities client)
      \<and> \<not> lacks_required (of_capabilities client) (of_capabilities host) \<and> mem (ReserveCommon MAX_CAPABILITIES)"
    by (simp add: is_ok_iff intersect_iff)
  show "intersect mem host client = Inl NAllocation \<longleftrightarrow>
      is_ok (intersect (\<lambda>_. True) host client) \<and> \<not> mem (ReserveCommon MAX_CAPABILITIES)"
    by (rule intersect_allocation)
next
  assume i: "intersect mem host client = Inr offer"
  then show "of_role offer = of_role client" "of_limits offer = negotiated (of_limits host) (of_limits client)"
    by (simp_all add: intersect_iff)
  show "\<exists>s. select offer = Inr s \<and> check_against s offer = Inr ()"
    using i intersect_valid [OF i] by (intro select_checked) (simp_all add: intersect_iff)
  show "\<forall>c \<in> set (of_capabilities host) \<union> set (of_capabilities client). cap_required c \<longrightarrow>
      (\<exists>a \<in> set (of_capabilities offer). same_capability c a \<and> cap_required a)"
    using intersect_keeps_required [OF i] by blast
qed (simp_all add: intersect_capabilities intersect_required intersect_checked)

definition example_offer :: "NamedCapability list \<Rightarrow> Offer" where
  "example_offer caps = \<lparr>of_versions = [0, 1], of_profile = 1, of_profile_version = 0, of_role = RequestControl,
     of_limits = ABSOLUTE, of_capabilities = caps\<rparr>"

theorem negotiation_agrees_on_the_common_ground_witness:
  "\<exists>offer. intersect (\<lambda>_. True)
      (example_offer [\<lparr>cap_name = [0x61], cap_version = 1, cap_required = False\<rparr>,
                      \<lparr>cap_name = [0x62], cap_version = 2, cap_required = False\<rparr>])
      (example_offer [\<lparr>cap_name = [0x61], cap_version = 1, cap_required = True\<rparr>]) = Inr offer
    \<and> check_host (example_offer [\<lparr>cap_name = [0x61], cap_version = 1, cap_required = True\<rparr>]) offer = Inr ()
    \<and> of_role offer = RequestControl"
proof -
  let ?host = "example_offer [\<lparr>cap_name = [0x61], cap_version = 1, cap_required = False\<rparr>,
                      \<lparr>cap_name = [0x62], cap_version = 2, cap_required = False\<rparr>]"
  let ?client = "example_offer [\<lparr>cap_name = [0x61], cap_version = 1, cap_required = True\<rparr>]"
  have "offer_validate ?host = Inr ()" "offer_validate ?client = Inr ()"
    by (simp_all add: offer_validate_iff example_offer_def capabilities_valid_def capability_valid_def name_byte_def
        absolute_simps)
  moreover have "\<not> lacks_required (of_capabilities ?host) (of_capabilities ?client)"
    "\<not> lacks_required (of_capabilities ?client) (of_capabilities ?host)"
    by (simp_all add: lacks_required_def example_offer_def same_capability_def)
  ultimately have "is_ok (intersect (\<lambda>_. True) ?host ?client)"
    using negotiation_agrees_on_the_common_ground [of "\<lambda>_. True" ?host ?client] by (simp add: example_offer_def)
  then obtain offer where "intersect (\<lambda>_. True) ?host ?client = Inr offer" by (auto simp: is_ok_iff)
  then show ?thesis
    using negotiation_agrees_on_the_common_ground [of "\<lambda>_. True" ?host ?client offer] by (auto simp: example_offer_def)
qed

end
