(* ===== verification/Wire_Negotiation.thy ===== *)
theory Wire_Negotiation
  imports Negotiation
begin

text \<open>
  The bytes of session startup: encoder and decoder of \<open>fr-wire/src/negotiation.rs\<close>. Seven of
  the limits travel; a received offer has its other limits at their ceilings.
\<close>

section \<open>Messages\<close>

record ControlBinding =
  bn_id :: u32
  bn_host_boot :: HostBootId
  bn_os_session :: OsSessionId
  bn_remote_session :: RemoteSessionId

datatype Message =
    ClientHello Offer
  | HostCapabilities Offer
  | SelectedConfiguration Selection
  | ApprovalRequired RemoteSessionId u64 Role
  | SessionOpened ControlBinding Selection u64
  | BindingAccepted u32

fun negotiation_kind :: "Message \<Rightarrow> Kind" where
  "negotiation_kind (ClientHello _) = KClientHello"
| "negotiation_kind (HostCapabilities _) = KHostCapabilities"
| "negotiation_kind (SelectedConfiguration _) = KSelectedConfiguration"
| "negotiation_kind (ApprovalRequired _ _ _) = KApprovalRequired"
| "negotiation_kind (SessionOpened _ _ _) = KSessionOpened"
| "negotiation_kind (BindingAccepted _) = KBindingAccepted"

fun message_binding :: "Message \<Rightarrow> u32" where
  "message_binding (BindingAccepted binding) = binding"
| "message_binding _ = 0"

definition LIMIT_BYTES :: nat where
  "LIMIT_BYTES = 33"

text \<open>\<open>?\<close> on a call of the byte layer: \<open>From<WireError> for Error\<close>.\<close>

definition wire :: "(WireError + 'a) \<times> 's \<Rightarrow> (NegotiationError + 'a) \<times> 's" where
  "wire m = map_prod (map_sum NWire id) id m"

section \<open>Fields\<close>

definition role_byte :: "Role \<Rightarrow> u8" where
  "role_byte role = (case role of Observe \<Rightarrow> 0 | RequestControl \<Rightarrow> 1)"

definition read_role :: "byte list \<Rightarrow> (byte list, NegotiationError, Role) outcome" where
  "read_role r =
     try_then (wire (reader_u8 r)) (\<lambda>b r.
     (if b = 0 then Inr Observe else if b = 1 then Inr RequestControl else Inl NInvalid, r))"

definition read_cap :: "byte list \<Rightarrow> (byte list, NegotiationError, NamedCapability) outcome" where
  "read_cap r =
     try_then (wire (reader_data r)) (\<lambda>name r.
     if name = [] \<or> length name > MAX_NAME then (Inl NInvalid, r)
     else if from_utf8 name = None then (Inl NInvalid, r) else
     try_then (wire (reader_u16 r)) (\<lambda>version r.
     try_then (wire (reader_u8 r)) (\<lambda>b r.
     if b = 0 then (Inr \<lparr>cap_name = name, cap_version = version, cap_required = False\<rparr>, r)
     else if b = 1 then (Inr \<lparr>cap_name = name, cap_version = version, cap_required = True\<rparr>, r)
     else (Inl NInvalid, r))))"

fun read_times :: "(byte list \<Rightarrow> (byte list, 'e, 'a) outcome) \<Rightarrow> nat \<Rightarrow> byte list \<Rightarrow> (byte list, 'e, 'a list) outcome" where
  "read_times f 0 r = (Inr [], r)"
| "read_times f (Suc n) r = try_then (f r) (\<lambda>x r. try_then (read_times f n r) (\<lambda>xs r. (Inr (x # xs), r)))"

definition read_caps :: "memory \<Rightarrow> byte list \<Rightarrow> (byte list, NegotiationError, NamedCapability list) outcome" where
  "read_caps mem r =
     try_then (wire (reader_u32 r)) (\<lambda>count r.
     let n = unat count in
     if n > MAX_CAPABILITIES \<or> n > length r div 8 then (Inl NInvalid, r)
     else if \<not> mem (ReserveCapabilities n) then (Inl NAllocation, r) else
     try_then (read_times read_cap n r) (\<lambda>result r.
     try_then (valid_caps result, r) (\<lambda>_ r. (Inr result, r))))"

definition caps_bytes :: "NamedCapability list \<Rightarrow> nat" where
  "caps_bytes caps = 4 + sum_list (map (\<lambda>c. 7 + length (cap_name c)) caps)"

definition put_cap :: "NamedCapability \<Rightarrow> Writer \<Rightarrow> (Writer, NegotiationError, unit) outcome" where
  "put_cap c w =
     try_then (wire (writer_data (cap_name c) w)) (\<lambda>_ w.
     try_then (wire (writer_u16 (cap_version c) w)) (\<lambda>_ w.
     wire (writer_u8 (bool_code (cap_required c)) w)))"

fun put_each :: "('a \<Rightarrow> Writer \<Rightarrow> (Writer, 'e, unit) outcome) \<Rightarrow> 'a list \<Rightarrow> Writer \<Rightarrow> (Writer, 'e, unit) outcome" where
  "put_each f [] w = (Inr (), w)"
| "put_each f (x # xs) w = try_then (f x w) (\<lambda>_. put_each f xs)"

definition write_caps :: "NamedCapability list \<Rightarrow> Writer \<Rightarrow> (Writer, NegotiationError, unit) outcome" where
  "write_caps caps w =
     (if length caps \<ge> 2 ^ 32 then (Inl NInvalid, w) else
      try_then (wire (writer_u32 (of_nat (length caps)) w)) (\<lambda>_. put_each put_cap caps))"

definition overrides_default :: LimitOverrides where
  "overrides_default =
     \<lparr>lo_max_control_message_bytes = None, lo_max_clipboard_item_bytes = None, lo_max_encoded_access_unit_bytes = None,
      lo_max_dimension_pixels = None, lo_max_coded_pixels = None, lo_reassembly_window_pictures = None,
      lo_per_viewer_compressed_bytes = None, lo_max_concurrent_handshakes = None, lo_max_handshake_duration_ms = None,
      lo_max_preadmission_rate_per_sec = None, lo_max_half_attached_channels = None, lo_max_pending_approvals = None,
      lo_idle_session_timeout_seconds = None, lo_max_control_requests_per_sec = None, lo_max_codec_probes_per_min = None,
      lo_max_recovery_requests_per_sec = None, lo_max_cursor_uploads_per_sec = None, lo_max_diagnostic_exports_per_min = None,
      lo_max_decoder_reconfigurations_per_min = None, lo_max_worker_restarts_per_min = None, lo_max_cursor_dimension_pixels = None,
      lo_max_cursor_shape_bytes = None, lo_max_name_bytes = None, lo_max_parameter_set_bytes = None,
      lo_max_fragments_per_access_unit = None, lo_max_retained_receipts = None, lo_max_encoder_sessions = None,
      lo_max_gpu_surfaces = None, lo_max_bandwidth_bps = None, lo_max_viewers = None\<rparr>"

definition read_limits :: "byte list \<Rightarrow> (byte list, NegotiationError, ProtocolLimits) outcome" where
  "read_limits r =
     try_then (wire (reader_u32 r)) (\<lambda>control r.
     try_then (wire (reader_u32 r)) (\<lambda>clipboard r.
     try_then (wire (reader_u32 r)) (\<lambda>access_unit r.
     try_then (wire (reader_u32 r)) (\<lambda>dimension r.
     try_then (wire (reader_u64 r)) (\<lambda>coded r.
     try_then (wire (reader_u8 r)) (\<lambda>reassembly r.
     try_then (wire (reader_u64 r)) (\<lambda>compressed r.
     (map_sum (\<lambda>_. NLimits) id (with_overrides (overrides_default
        \<lparr>lo_max_control_message_bytes := Some control, lo_max_clipboard_item_bytes := Some clipboard,
         lo_max_encoded_access_unit_bytes := Some access_unit, lo_max_dimension_pixels := Some dimension,
         lo_max_coded_pixels := Some coded, lo_reassembly_window_pictures := Some reassembly,
         lo_per_viewer_compressed_bytes := Some compressed\<rparr>)), r))))))))"

definition write_limits :: "ProtocolLimits \<Rightarrow> Writer \<Rightarrow> (Writer, NegotiationError, unit) outcome" where
  "write_limits l w =
     try_then (wire (writer_u32 (pl_max_control_message_bytes l) w)) (\<lambda>_ w.
     try_then (wire (writer_u32 (pl_max_clipboard_item_bytes l) w)) (\<lambda>_ w.
     try_then (wire (writer_u32 (pl_max_encoded_access_unit_bytes l) w)) (\<lambda>_ w.
     try_then (wire (writer_u32 (pl_max_dimension_pixels l) w)) (\<lambda>_ w.
     try_then (wire (writer_u64 (pl_max_coded_pixels l) w)) (\<lambda>_ w.
     try_then (wire (writer_u8 (pl_reassembly_window_pictures l) w)) (\<lambda>_ w.
     wire (writer_u64 (pl_per_viewer_compressed_bytes l) w)))))))"

section \<open>Offers and selections\<close>

definition offer_bytes :: "Offer \<Rightarrow> nat" where
  "offer_bytes o_f = 4 + length (of_versions o_f) * 2 + 4 + LIMIT_BYTES + caps_bytes (of_capabilities o_f) + 1"

definition selection_bytes :: "Selection \<Rightarrow> nat" where
  "selection_bytes s = 6 + LIMIT_BYTES + caps_bytes (sl_capabilities s)"

definition write_offer :: "Offer \<Rightarrow> Writer \<Rightarrow> (Writer, NegotiationError, unit) outcome" where
  "write_offer o_f w =
     (if length (of_versions o_f) \<ge> 2 ^ 32 then (Inl NVersion, w) else
      try_then (wire (writer_u32 (of_nat (length (of_versions o_f))) w)) (\<lambda>_ w.
      try_then (put_each (\<lambda>v w. wire (writer_u16 v w)) (of_versions o_f) w) (\<lambda>_ w.
      try_then (wire (writer_u8 (of_profile o_f) w)) (\<lambda>_ w.
      try_then (wire (writer_u16 (of_profile_version o_f) w)) (\<lambda>_ w.
      try_then (wire (writer_u8 (role_byte (of_role o_f)) w)) (\<lambda>_ w.
      try_then (write_limits (of_limits o_f) w) (\<lambda>_ w.
      try_then (write_caps (of_capabilities o_f) w) (\<lambda>_ w.
      wire (writer_u8 0 w)))))))))"

definition read_offer :: "memory \<Rightarrow> byte list \<Rightarrow> (byte list, NegotiationError, Offer) outcome" where
  "read_offer mem r =
     try_then (wire (reader_u32 r)) (\<lambda>count r.
     let n = unat count in
     if n = 0 \<or> n > MAX_VERSIONS \<or> n > length r div 2 then (Inl NVersion, r)
     else if \<not> mem (ReserveVersions n) then (Inl NAllocation, r) else
     try_then (read_times (\<lambda>r. wire (reader_u16 r)) n r) (\<lambda>versions r.
     try_then (wire (reader_u8 r)) (\<lambda>profile r.
     try_then (wire (reader_u16 r)) (\<lambda>profile_version r.
     try_then (read_role r) (\<lambda>role r.
     try_then (read_limits r) (\<lambda>limits r.
     try_then (read_caps mem r) (\<lambda>capabilities r.
     try_then (wire (reader_u8 r)) (\<lambda>nonce r.
     if nonce \<noteq> 0 then (Inl NProfile, r) else
     let offer = \<lparr>of_versions = versions, of_profile = profile, of_profile_version = profile_version,
           of_role = role, of_limits = limits, of_capabilities = capabilities\<rparr> in
     try_then (offer_validate offer, r) (\<lambda>_ r. (Inr offer, r))))))))))"

definition write_selection :: "Selection \<Rightarrow> Writer \<Rightarrow> (Writer, NegotiationError, unit) outcome" where
  "write_selection s w =
     try_then (wire (writer_u16 (sl_version s) w)) (\<lambda>_ w.
     try_then (wire (writer_u8 (sl_profile s) w)) (\<lambda>_ w.
     try_then (wire (writer_u16 (sl_profile_version s) w)) (\<lambda>_ w.
     try_then (wire (writer_u8 (role_byte (sl_role s)) w)) (\<lambda>_ w.
     try_then (write_limits (sl_limits s) w) (\<lambda>_.
     write_caps (sl_capabilities s))))))"

definition read_selection :: "memory \<Rightarrow> byte list \<Rightarrow> (byte list, NegotiationError, Selection) outcome" where
  "read_selection mem r =
     try_then (wire (reader_u16 r)) (\<lambda>version r.
     try_then (wire (reader_u8 r)) (\<lambda>profile r.
     try_then (wire (reader_u16 r)) (\<lambda>profile_version r.
     try_then (read_role r) (\<lambda>role r.
     try_then (read_limits r) (\<lambda>limits r.
     try_then (read_caps mem r) (\<lambda>capabilities r.
     let s = \<lparr>sl_version = version, sl_profile = profile, sl_profile_version = profile_version,
           sl_role = role, sl_limits = limits, sl_capabilities = capabilities\<rparr> in
     try_then (selection_validate s, r) (\<lambda>_ r. (Inr s, r))))))))"

section \<open>Encoding and decoding\<close>

fun message_size :: "Message \<Rightarrow> NegotiationError + nat" where
  "message_size (ClientHello o_f) = try_res (offer_validate o_f) (\<lambda>_. Inr (offer_bytes o_f))"
| "message_size (HostCapabilities o_f) = try_res (offer_validate o_f) (\<lambda>_. Inr (offer_bytes o_f))"
| "message_size (SelectedConfiguration s) = try_res (selection_validate s) (\<lambda>_. Inr (selection_bytes s))"
| "message_size (ApprovalRequired _ deadline_us _) = (if deadline_us = 0 then Inl NInvalid else Inr 25)"
| "message_size (SessionOpened binding selection observation_until_us) =
     (if bn_id binding = 0 \<or> observation_until_us = 0 then Inl NInvalid
      else try_res (selection_validate selection) (\<lambda>_. Inr (68 + selection_bytes selection)))"
| "message_size (BindingAccepted binding) = (if binding = 0 then Inl NInvalid else Inr 4)"

fun put_message :: "Message \<Rightarrow> Writer \<Rightarrow> (Writer, NegotiationError, unit) outcome" where
  "put_message (ClientHello o_f) w = write_offer o_f w"
| "put_message (HostCapabilities o_f) w = write_offer o_f w"
| "put_message (SelectedConfiguration s) w = write_selection s w"
| "put_message (ApprovalRequired request deadline_us role) w =
     try_then (wire (writer_u128 (id_raw request) w)) (\<lambda>_ w.
     try_then (wire (writer_u64 deadline_us w)) (\<lambda>_ w.
     wire (writer_u8 (role_byte role) w)))"
| "put_message (SessionOpened binding selection observation_until_us) w =
     try_then (wire (writer_u128 (id_raw (bn_host_boot binding)) w)) (\<lambda>_ w.
     try_then (wire (writer_u128 (id_raw (bn_os_session binding)) w)) (\<lambda>_ w.
     try_then (wire (writer_u128 (id_raw (bn_remote_session binding)) w)) (\<lambda>_ w.
     try_then (wire (writer_u32 (bn_id binding) w)) (\<lambda>_ w.
     try_then (wire (writer_put (replicate 6 0) w)) (\<lambda>_ w.
     try_then (wire (writer_u8 1 w)) (\<lambda>_ w.
     try_then (wire (writer_u8 0 w)) (\<lambda>_ w.
     try_then (write_selection selection w) (\<lambda>_ w.
     wire (writer_u64 observation_until_us w)))))))))"
| "put_message (BindingAccepted binding) w = wire (writer_u32 binding w)"

definition encode_message :: "Message \<Rightarrow> nat \<Rightarrow> byte list \<Rightarrow> (byte list, NegotiationError, nat) outcome" where
  "encode_message message maximum out =
     try_then (message_size message, out) (\<lambda>size out.
     map_prod id wr_out
       (try_then (wire (record_bounded out (min maximum MAX_RECORD) (message_binding message) (negotiation_kind message) size))
        (\<lambda>_ w. try_then (put_message message w) (\<lambda>_ w. wire (writer_finish w, w)))))"

definition read_message :: "memory \<Rightarrow> Kind \<Rightarrow> u32 \<Rightarrow> byte list \<Rightarrow> (byte list, NegotiationError, Message) outcome" where
  "read_message mem kind expected_binding r =
     (if kind = KClientHello then try_then (read_offer mem r) (\<lambda>o_f r. (Inr (ClientHello o_f), r))
      else if kind = KHostCapabilities then try_then (read_offer mem r) (\<lambda>o_f r. (Inr (HostCapabilities o_f), r))
      else if kind = KSelectedConfiguration then
        try_then (read_selection mem r) (\<lambda>s r. (Inr (SelectedConfiguration s), r))
      else if kind = KApprovalRequired then
        try_then (wire (reader_u128 r)) (\<lambda>request r.
        try_then (wire (reader_u64 r)) (\<lambda>deadline_us r.
        if deadline_us = 0 then (Inl NInvalid, r) else
        try_then (read_role r) (\<lambda>role r. (Inr (ApprovalRequired (Opaque request) deadline_us role), r))))
      else if kind = KSessionOpened then
        try_then (wire (reader_u128 r)) (\<lambda>host_boot r.
        try_then (wire (reader_u128 r)) (\<lambda>os_session r.
        try_then (wire (reader_u128 r)) (\<lambda>remote_session r.
        try_then (wire (reader_u32 r)) (\<lambda>binding_id r.
        if binding_id = 0 then (Inl NInvalid, r) else
        try_then (wire (reader_take 8 r)) (\<lambda>absent r.
        if absent \<noteq> [0, 0, 0, 0, 0, 0, 1, 0] then (Inl NInvalid, r) else
        try_then (read_selection mem r) (\<lambda>selection r.
        try_then (wire (reader_u64 r)) (\<lambda>observation_until_us r.
        if observation_until_us = 0 then (Inl NInvalid, r) else
        (Inr (SessionOpened \<lparr>bn_id = binding_id, bn_host_boot = Opaque host_boot, bn_os_session = Opaque os_session,
            bn_remote_session = Opaque remote_session\<rparr> selection observation_until_us), r))))))))
      else if kind = KBindingAccepted then
        try_then (wire (reader_u32 r)) (\<lambda>binding r.
        if binding \<noteq> expected_binding then (Inl NInvalid, r) else (Inr (BindingAccepted binding), r))
      else (Inl (NWire UnsupportedKind), r))"

definition decode_message :: "memory \<Rightarrow> byte list \<Rightarrow> nat \<Rightarrow> u32 \<Rightarrow> NegotiationError + Message" where
  "decode_message mem bytes maximum expected_binding =
     try_res (map_sum NWire id (decode_bounded bytes (min maximum MAX_RECORD) expected_binding None)) (\<lambda>record.
     let kind = rc_kind record in
     if kind = KRefused then
       try_res (map_sum NWire id (decode_refused bytes expected_binding (min maximum MAX_RECORD) Reliable))
         (\<lambda>refused. Inl (NRefused refused))
     else if kind_initial kind \<and> expected_binding \<noteq> 0 then Inl NInvalid
     else
     try_res (map_sum NWire id (record_reader record kind)) (\<lambda>r.
     fst (try_then (read_message mem kind expected_binding r) (\<lambda>message r.
          try_then (wire (reader_finish r, r)) (\<lambda>_ r. (Inr message, r))))))"

section \<open>Layouts\<close>

lemma wire_Inr_iff [simp]: "wire m = (Inr v, s) \<longleftrightarrow> m = (Inr v, s)"
  by (cases m; cases "fst m") (auto simp: wire_def)

lemma wire_Inr [simp]: "wire (Inr v, s) = (Inr v, s)"
  by (simp add: wire_def)

lemma writes_wire: "writes f bs \<Longrightarrow> writes (\<lambda>w. wire (f w)) bs"
  by (simp add: writes_def wire_def)

lemma writes_each:
  "(\<And>x. x \<in> set xs \<Longrightarrow> writes (f x) (g x)) \<Longrightarrow> writes (put_each f xs) (concat (map g xs))"
proof (induction xs)
  case Nil
  show ?case using writes_none by (simp add: writes_def)
next
  case (Cons x xs)
  have "writes (\<lambda>w. try_then (f x w) (\<lambda>_. put_each f xs)) (g x @ concat (map g xs))"
    using Cons by (intro writes_then) simp_all
  then show ?case by (simp add: writes_def)
qed

lemma read_times_iff:
  assumes "\<And>r x rest. f r = (Inr x, rest) \<longleftrightarrow> ok x \<and> r = g x @ rest"
  shows "read_times f n r = (Inr xs, rest) \<longleftrightarrow>
    length xs = n \<and> list_all ok xs \<and> r = concat (map g xs) @ rest"
proof (induction n arbitrary: r xs)
  case (Suc n)
  show ?case by (cases xs) (auto simp: try_then_Inr_iff assms Suc.IH)
qed auto

lemma role_byte_iff: "read_role r = (Inr role, rest) \<longleftrightarrow> r = [role_byte role] @ rest"
  by (cases role) (auto simp: read_role_def wire_reads role_byte_def intro: exI [of _ 0] exI [of _ 1] split: if_splits)

definition cap_layout :: "NamedCapability \<Rightarrow> byte list" where
  "cap_layout c = data_layout (cap_name c) @ to_be_bytes (cap_version c) @ [bool_code (cap_required c)]"

definition cap_readable :: "NamedCapability \<Rightarrow> bool" where
  "cap_readable c \<longleftrightarrow> cap_name c \<noteq> [] \<and> length (cap_name c) \<le> 64 \<and> from_utf8 (cap_name c) \<noteq> None"

lemma read_cap_iff: "read_cap r = (Inr c, rest) \<longleftrightarrow> cap_readable c \<and> r = cap_layout c @ rest" (is "?L \<longleftrightarrow> ?R")
proof
  assume ?L
  then show ?R
    by (auto simp: read_cap_def wire_reads cap_readable_def cap_layout_def MAX_NAME_def bool_code_def split: if_splits)
next
  assume R: ?R
  then have "reader_data (data_layout (cap_name c) @ t) = (Inr (cap_name c), t)" for t
    by (intro data.get_layout) (auto simp: cap_readable_def)
  with R show ?L
    by (cases c) (auto simp: read_cap_def cap_layout_def u16.get_layout u8.get_layout [simplified] cap_readable_def
        MAX_NAME_def bool_code_def)
qed

lemma length_cap_layout: "length (cap_layout c) = 7 + length (cap_name c)"
  by (simp add: cap_layout_def data_layout_def)

lemma ascii_utf8: "list_all name_byte bs \<Longrightarrow> from_utf8 bs \<noteq> None"
proof -
  assume ascii: "list_all name_byte bs"
  have "as_bytes (map ucast bs) = bs \<and> list_all is_scalar (map ucast bs)"
    using ascii
  proof (induction bs)
    case (Cons b bs)
    have "unat b < 128" using Cons.prems by (auto simp: name_byte_def word_le_nat_alt)
    then have "utf8_bytes (ucast b) = [b]" "is_scalar (ucast b)"
      by (simp_all add: utf8_bytes_def Let_def is_scalar_def unat_ucast_up)
    with Cons show ?case by (simp add: as_bytes_def)
  qed (simp add: as_bytes_def)
  then show ?thesis using from_utf8_iff by (metis option.distinct(1))
qed

lemma valid_readable: "capability_valid c \<Longrightarrow> cap_readable c"
  using ascii_utf8 by (auto simp: capability_valid_def cap_readable_def)

definition caps_layout :: "NamedCapability list \<Rightarrow> byte list" where
  "caps_layout caps = to_be_bytes (of_nat (length caps) :: u32) @ concat (map cap_layout caps)"

lemma length_caps_layout: "length (caps_layout caps) = caps_bytes caps"
  by (simp add: caps_layout_def caps_bytes_def length_concat o_def length_cap_layout)

lemma caps_room: "list_all cap_readable caps \<Longrightarrow> 8 * length caps \<le> length (concat (map cap_layout caps))"
proof (induction caps)
  case (Cons c caps)
  then have "1 \<le> length (cap_name c)" by (cases "cap_name c") (simp_all add: cap_readable_def)
  then show ?case using Cons by (simp add: length_cap_layout)
qed simp

lemma write_caps_writes:
  assumes "capabilities_valid caps"
  shows "writes (write_caps caps) (caps_layout caps)"
proof -
  have "writes (put_cap c) (cap_layout c)" if "c \<in> set caps" for c
    using assms that unfolding put_cap_def [abs_def] cap_layout_def
    by (intro wire_writes writes_wire) (auto simp: capabilities_valid_def list_all_iff capability_valid_def)
  then have "writes (\<lambda>w. try_then (wire (writer_u32 (of_nat (length caps)) w)) (\<lambda>_. put_each put_cap caps)) (caps_layout caps)"
    unfolding caps_layout_def by (intro writes_then writes_wire writes_each u32.put_writes) simp_all
  then show ?thesis using assms by (simp add: write_caps_def [abs_def] capabilities_valid_def)
qed

lemma read_caps_iff:
  "read_caps mem r = (Inr caps, rest) \<longleftrightarrow>
     mem (ReserveCapabilities (length caps)) \<and> capabilities_valid caps \<and> r = caps_layout caps @ rest"
  (is "?L \<longleftrightarrow> ?R")
proof
  assume ?L
  then show ?R
    by (auto simp: read_caps_def wire_reads Let_def read_times_iff [OF read_cap_iff] valid_caps_iff caps_layout_def
        split: if_splits)
next
  assume R: ?R
  then have ok: "list_all cap_readable caps" "length caps \<le> 24"
    by (auto simp: capabilities_valid_def list_all_iff valid_readable)
  have "unat (of_nat (length caps) :: u32) = length caps" using ok(2) by (intro unat_of_nat_less) simp
  moreover have "\<not> length caps > length (concat (map cap_layout caps) @ rest) div 8" using caps_room [OF ok(1)] by simp
  moreover have "read_times read_cap (length caps) (concat (map cap_layout caps) @ rest) = (Inr caps, rest)"
    by (simp add: read_times_iff [OF read_cap_iff] ok(1))
  moreover have "valid_caps caps = Inr ()" using R by (simp add: valid_caps_iff)
  ultimately show ?L
    using R ok(2) by (simp add: read_caps_def caps_layout_def u32.get_layout Let_def MAX_CAPABILITIES_def)
qed

text \<open>The limits that survive the wire: the seven that travel, and ceilings elsewhere.\<close>

definition wire_limits :: "ProtocolLimits \<Rightarrow> bool" where
  "wire_limits l \<longleftrightarrow> limits_valid l \<and> drop 7 (limit_values l) = drop 7 (limit_values ABSOLUTE)"

definition limits_layout :: "ProtocolLimits \<Rightarrow> byte list" where
  "limits_layout l =
     to_be_bytes (pl_max_control_message_bytes l) @ to_be_bytes (pl_max_clipboard_item_bytes l)
     @ to_be_bytes (pl_max_encoded_access_unit_bytes l) @ to_be_bytes (pl_max_dimension_pixels l)
     @ to_be_bytes (pl_max_coded_pixels l) @ [pl_reassembly_window_pictures l]
     @ to_be_bytes (pl_per_viewer_compressed_bytes l)"

lemma write_limits_writes: "writes (write_limits l) (limits_layout l)"
  unfolding write_limits_def [abs_def] limits_layout_def by (intro wire_writes writes_wire) simp_all

lemma map_sum_Inr_iff: "map_sum f id r = Inr v \<longleftrightarrow> r = Inr v"
  by (cases r) auto

lemma wire_overrides_iff:
  "with_overrides (overrides_default
        \<lparr>lo_max_control_message_bytes := Some control, lo_max_clipboard_item_bytes := Some clipboard,
         lo_max_encoded_access_unit_bytes := Some access_unit, lo_max_dimension_pixels := Some dimension,
         lo_max_coded_pixels := Some coded, lo_reassembly_window_pictures := Some reassembly,
         lo_per_viewer_compressed_bytes := Some compressed\<rparr>) = Inr l \<longleftrightarrow>
     wire_limits l \<and> control = pl_max_control_message_bytes l \<and> clipboard = pl_max_clipboard_item_bytes l
     \<and> access_unit = pl_max_encoded_access_unit_bytes l \<and> dimension = pl_max_dimension_pixels l
     \<and> coded = pl_max_coded_pixels l \<and> reassembly = pl_reassembly_window_pictures l
     \<and> compressed = pl_per_viewer_compressed_bytes l"
  by (simp add: with_overrides_iff wire_limits_def agrees_def override_values_def overrides_default_def limit_values_def
      word_unat_eq_iff) (simp only: eq_commute conj_ac)

lemma read_limits_iff: "read_limits r = (Inr l, rest) \<longleftrightarrow> wire_limits l \<and> r = limits_layout l @ rest"
  by (auto simp: read_limits_def wire_reads map_sum_Inr_iff wire_overrides_iff limits_layout_def)

definition offer_layout :: "Offer \<Rightarrow> byte list" where
  "offer_layout o_f =
     to_be_bytes (of_nat (length (of_versions o_f)) :: u32) @ concat (map to_be_bytes (of_versions o_f))
     @ [of_profile o_f] @ to_be_bytes (of_profile_version o_f) @ [role_byte (of_role o_f)]
     @ limits_layout (of_limits o_f) @ caps_layout (of_capabilities o_f) @ [0]"

definition selection_layout :: "Selection \<Rightarrow> byte list" where
  "selection_layout s =
     to_be_bytes (sl_version s) @ [sl_profile s] @ to_be_bytes (sl_profile_version s) @ [role_byte (sl_role s)]
     @ limits_layout (sl_limits s) @ caps_layout (sl_capabilities s)"

lemma length_limits_layout [simp]: "length (limits_layout l) = LIMIT_BYTES"
  by (simp add: limits_layout_def LIMIT_BYTES_def)

lemma length_offer_layout: "length (offer_layout o_f) = offer_bytes o_f"
  by (simp add: offer_layout_def offer_bytes_def length_concat o_def sum_list_triv length_caps_layout)

lemma length_selection_layout: "length (selection_layout s) = selection_bytes s"
  by (simp add: selection_layout_def selection_bytes_def length_caps_layout)

lemma write_offer_writes:
  assumes "offer_validate o_f = Inr ()"
  shows "writes (write_offer o_f) (offer_layout o_f)"
proof -
  have valid: "capabilities_valid (of_capabilities o_f)" "length (of_versions o_f) \<le> 8"
    using assms by (simp_all add: offer_validate_iff)
  have "writes (\<lambda>w. try_then (wire (writer_u32 (of_nat (length (of_versions o_f))) w)) (\<lambda>_ w.
      try_then (put_each (\<lambda>v w. wire (writer_u16 v w)) (of_versions o_f) w) (\<lambda>_ w.
      try_then (wire (writer_u8 (of_profile o_f) w)) (\<lambda>_ w.
      try_then (wire (writer_u16 (of_profile_version o_f) w)) (\<lambda>_ w.
      try_then (wire (writer_u8 (role_byte (of_role o_f)) w)) (\<lambda>_ w.
      try_then (write_limits (of_limits o_f) w) (\<lambda>_ w.
      try_then (write_caps (of_capabilities o_f) w) (\<lambda>_ w.
      wire (writer_u8 0 w))))))))) (offer_layout o_f)"
    unfolding offer_layout_def
    by (intro wire_writes writes_wire writes_each write_limits_writes write_caps_writes valid(1)) simp_all
  then show ?thesis using valid(2) by (simp add: write_offer_def [abs_def])
qed

lemma write_selection_writes: "selection_validate s = Inr () \<Longrightarrow> writes (write_selection s) (selection_layout s)"
  unfolding write_selection_def [abs_def] selection_layout_def
  by (intro wire_writes writes_wire write_limits_writes write_caps_writes) (simp_all add: selection_validate_iff)

lemma read_version_iff: "wire (reader_u16 r) = (Inr v, rest) \<longleftrightarrow> True \<and> r = to_be_bytes v @ rest"
  by (simp add: u16.get_iff)

definition offer_reserved :: "memory \<Rightarrow> Offer \<Rightarrow> bool" where
  "offer_reserved mem o_f \<longleftrightarrow>
     mem (ReserveVersions (length (of_versions o_f))) \<and> mem (ReserveCapabilities (length (of_capabilities o_f)))"

lemma read_offer_iff:
  "read_offer mem r = (Inr o_f, rest) \<longleftrightarrow>
     offer_reserved mem o_f \<and> wire_limits (of_limits o_f) \<and> offer_validate o_f = Inr () \<and> r = offer_layout o_f @ rest" (is "?L \<longleftrightarrow> ?R")
proof
  assume ?L
  then show ?R
    by (auto simp: read_offer_def wire_reads Let_def read_times_iff [OF read_version_iff] role_byte_iff read_limits_iff
        read_caps_iff offer_layout_def offer_reserved_def split: if_splits)
next
  let ?t = "[of_profile o_f] @ to_be_bytes (of_profile_version o_f) @ [role_byte (of_role o_f)]
     @ limits_layout (of_limits o_f) @ caps_layout (of_capabilities o_f) @ [0] @ rest"
  assume R: ?R
  then have n: "of_versions o_f \<noteq> []" "length (of_versions o_f) \<le> 8" "capabilities_valid (of_capabilities o_f)"
    by (simp_all add: offer_validate_iff)
  have "unat (of_nat (length (of_versions o_f)) :: u32) = length (of_versions o_f)"
    using n(2) by (intro unat_of_nat_less) simp
  moreover have "\<not> length (of_versions o_f) > length (concat (map to_be_bytes (of_versions o_f)) @ ?t) div 2"
    by (simp add: length_concat o_def sum_list_triv del: length_Cons)
  moreover have "read_times (\<lambda>r. wire (reader_u16 r)) (length (of_versions o_f))
      (concat (map to_be_bytes (of_versions o_f)) @ t) = (Inr (of_versions o_f), t)" for t
    by (simp add: read_times_iff [OF read_version_iff] list_all_iff)
  moreover have "read_role (role_byte (of_role o_f) # t) = (Inr (of_role o_f), t)" for t
    by (simp add: role_byte_iff)
  moreover have "read_limits (limits_layout (of_limits o_f) @ t) = (Inr (of_limits o_f), t)" for t
    using R by (simp add: read_limits_iff)
  moreover have "read_caps mem (caps_layout (of_capabilities o_f) @ t) = (Inr (of_capabilities o_f), t)" for t
    using n(3) R by (simp add: read_caps_iff offer_reserved_def)
  ultimately show ?L
    using R n by (cases o_f) (simp add: read_offer_def offer_layout_def u32.get_layout u16.get_layout
        u8.get_layout [simplified] Let_def MAX_VERSIONS_def offer_reserved_def)
qed

lemma read_selection_iff:
  "read_selection mem r = (Inr s, rest) \<longleftrightarrow>
     mem (ReserveCapabilities (length (sl_capabilities s))) \<and> wire_limits (sl_limits s) \<and> selection_validate s = Inr () \<and> r = selection_layout s @ rest"
  by (cases s) (auto simp: read_selection_def wire_reads Let_def role_byte_iff read_limits_iff read_caps_iff
      selection_layout_def selection_validate_iff)

fun message_layout :: "Message \<Rightarrow> byte list" where
  "message_layout (ClientHello o_f) = offer_layout o_f"
| "message_layout (HostCapabilities o_f) = offer_layout o_f"
| "message_layout (SelectedConfiguration s) = selection_layout s"
| "message_layout (ApprovalRequired request deadline_us role) =
     to_be_bytes (id_raw request) @ to_be_bytes deadline_us @ [role_byte role]"
| "message_layout (SessionOpened binding selection observation_until_us) =
     to_be_bytes (id_raw (bn_host_boot binding)) @ to_be_bytes (id_raw (bn_os_session binding))
     @ to_be_bytes (id_raw (bn_remote_session binding)) @ to_be_bytes (bn_id binding) @ replicate 6 0 @ [1] @ [0]
     @ selection_layout selection @ to_be_bytes observation_until_us"
| "message_layout (BindingAccepted binding) = to_be_bytes binding"

fun message_limits :: "Message \<Rightarrow> ProtocolLimits list" where
  "message_limits (ClientHello o_f) = [of_limits o_f]"
| "message_limits (HostCapabilities o_f) = [of_limits o_f]"
| "message_limits (SelectedConfiguration s) = [sl_limits s]"
| "message_limits (SessionOpened _ s _) = [sl_limits s]"
| "message_limits _ = []"

lemma replicate_6: "replicate 6 (0 :: byte) = [0, 0, 0, 0, 0, 0]"
  by (simp add: numeral_eq_Suc)

lemma message_size_layout: "message_size m = Inr n \<Longrightarrow> length (message_layout m) = n"
  by (cases m) (auto simp: try_res_Inr_iff length_offer_layout length_selection_layout split: if_splits)

lemma put_message_writes: "message_size m = Inr n \<Longrightarrow> writes (put_message m) (message_layout m)"
  by (cases m; simp only: put_message.simps [abs_def] message_layout.simps;
      (intro wire_writes writes_wire write_offer_writes write_selection_writes)?)
    (auto simp: try_res_Inr_iff split: if_splits)

text \<open>The allocations of decoding a message.\<close>

fun message_reserved :: "memory \<Rightarrow> Message \<Rightarrow> bool" where
  "message_reserved mem (ClientHello o_f) = offer_reserved mem o_f"
| "message_reserved mem (HostCapabilities o_f) = offer_reserved mem o_f"
| "message_reserved mem (SelectedConfiguration s) = mem (ReserveCapabilities (length (sl_capabilities s)))"
| "message_reserved mem (SessionOpened _ s _) = mem (ReserveCapabilities (length (sl_capabilities s)))"
| "message_reserved mem _ = True"

definition message_typed :: "memory \<Rightarrow> u32 \<Rightarrow> Message \<Rightarrow> bool" where
  "message_typed mem expected_binding m \<longleftrightarrow>
     message_binding m = expected_binding \<and> message_reserved mem m \<and> list_all wire_limits (message_limits m)"

lemma is_ok_try_res: "is_ok (try_res r k) \<longleftrightarrow> (\<exists>x. r = Inr x \<and> is_ok (k x))"
  by (cases r) auto

lemma role_layout [simp]: "read_role (role_byte role # rest) = (Inr role, rest)"
  by (simp add: role_byte_iff)

lemma read_message_layout:
  assumes "message_typed mem expected_binding m" "is_ok (message_size m)"
  shows "read_message mem (negotiation_kind m) expected_binding (message_layout m @ rest) = (Inr m, rest)"
proof -
  have offer: "read_offer mem (offer_layout o_f @ t) = (Inr o_f, t)"
    if "offer_reserved mem o_f" "wire_limits (of_limits o_f)" "offer_validate o_f = Inr ()" for o_f t
    using that by (simp add: read_offer_iff)
  have selection: "read_selection mem (selection_layout s @ t) = (Inr s, t)"
    if "mem (ReserveCapabilities (length (sl_capabilities s)))" "wire_limits (sl_limits s)" "selection_validate s = Inr ()" for s t
    using that by (simp add: read_selection_iff)
  show ?thesis
  proof (cases m)
    case (SessionOpened binding s until)
    then show ?thesis
      using assms by (cases binding) (simp add: read_message_def message_typed_def is_ok_try_res selection u128.get_layout
          u32.get_layout u64.get_layout reader_take_def replicate_6 split: if_splits)
  qed (use assms in \<open>auto simp: read_message_def message_typed_def is_ok_try_res offer selection u128.get_layout
      u32.get_layout [where rest = rest] u64.get_layout split: if_splits\<close>)
qed

lemma read_message_Inr:
  assumes "kind_initial kind \<longrightarrow> expected_binding = 0" "\<not> kind_initial kind \<longrightarrow> expected_binding \<noteq> 0"
    and "read_message mem kind expected_binding r = (Inr m, rest)"
  shows "negotiation_kind m = kind \<and> message_typed mem expected_binding m \<and> is_ok (message_size m) \<and> r = message_layout m @ rest"
  using assms
  by (auto simp: read_message_def wire_reads read_offer_iff read_selection_iff role_byte_iff message_typed_def
      kind_initial_def is_ok_try_res replicate_6 split: if_splits)

lemma negotiation_kind_plain: "kind_channel (negotiation_kind m) = None" "negotiation_kind m \<noteq> KRefused"
  "kind_initial (negotiation_kind m) \<longleftrightarrow> (\<forall>b. m \<noteq> BindingAccepted b)"
  by (cases m; simp add: kind_channel_def kind_initial_def)+

lemma decode_message_iff:
  "decode_message mem bytes maximum expected_binding = Inr m \<longleftrightarrow>
     message_typed mem expected_binding m \<and> is_ok (message_size m) \<and> length bytes \<le> min maximum MAX_RECORD
     \<and> framed bytes (negotiation_kind m) expected_binding (message_layout m)" (is "?L \<longleftrightarrow> ?R")
proof
  assume ?L
  then obtain rc where rc: "decode_bounded bytes (min maximum MAX_RECORD) expected_binding None = Inr rc"
    and kind: "kind_initial (rc_kind rc) \<longrightarrow> expected_binding = 0"
    and read: "read_message mem (rc_kind rc) expected_binding (rc_payload rc) = (Inr m, [])"
    by (auto simp: decode_message_def try_res_Inr_iff map_sum_Inr_iff Let_def record_reader_def fst_Inr_iff
        wire_reads reader_finish_iff split: if_splits)
  have "\<not> kind_initial (rc_kind rc) \<longrightarrow> expected_binding \<noteq> 0"
    using rc by (auto simp: decode_bounded_iff framed_def)
  from read_message_Inr [OF kind this read] rc show ?R by (simp add: decode_bounded_iff)
next
  assume R: ?R
  let ?rc = "\<lparr>rc_kind = negotiation_kind m, rc_binding = expected_binding, rc_payload = message_layout m\<rparr>"
  have "decode_bounded bytes (min maximum MAX_RECORD) expected_binding None = Inr ?rc"
    using R by (simp add: decode_bounded_iff negotiation_kind_plain)
  moreover have "read_message mem (negotiation_kind m) expected_binding (message_layout m) = (Inr m, [])"
    using read_message_layout [of mem expected_binding m "[]"] R by simp
  moreover have "\<not> (kind_initial (negotiation_kind m) \<and> expected_binding \<noteq> 0)"
    using R by (cases m) (simp_all add: message_typed_def kind_initial_def)
  ultimately show ?L
    by (simp add: decode_message_def record_reader_def negotiation_kind_plain(2) reader_finish_def Let_def)
qed

lemma encode_message_record:
  assumes "message_size m = Inr n"
  shows "encode_message m maximum out = wire (write_record out (min maximum MAX_RECORD) (message_binding m)
    (negotiation_kind m) n (writer_put (message_layout m)))"
proof -
  have n: "length (message_layout m) = n" by (rule message_size_layout [OF assms])
  let ?rb = "record_bounded out (min maximum MAX_RECORD) (message_binding m) (negotiation_kind m) n"
  show ?thesis
  proof (cases "is_ok (fst ?rb)")
    case True
    then have "HEADER_BYTES + n \<le> length out" "HEADER_BYTES + n \<le> min maximum MAX_RECORD"
      "message_binding m \<noteq> 0 \<or> kind_initial (negotiation_kind m)" "n < 2 ^ 32"
      by (auto simp: record_bounded_def Let_def HEADER_BYTES_def MAX_RECORD_def split: if_splits)
    then obtain w where w: "?rb = (Inr (), w)" "room n w"
      using record_bounded_writes [of n out "min maximum MAX_RECORD" "message_binding m" "negotiation_kind m"]
      by (simp add: room_def appended_def HEADER_BYTES_def MAGIC_def MAX_RECORD_def)
    then have "put_message m w = (Inr (), appended (message_layout m) w)"
      "writer_put (message_layout m) w = (Inr (), appended (message_layout m) w)"
      using put_message_writes [OF assms] writes_put [of "message_layout m"] n by (simp_all add: writes_def)
    with w(1) assms show ?thesis by (simp add: encode_message_def write_record_def wire_def)
  next
    case False
    then obtain e w where "?rb = (Inl e, w)" by (cases ?rb; cases "fst ?rb") auto
    with assms show ?thesis by (simp add: encode_message_def write_record_def wire_def)
  qed
qed

lemma message_layout_less:
  assumes "message_typed mem expected_binding m" "is_ok (message_size m)"
  shows "length (message_layout m) < 2 ^ 32"
proof -
  have caps: "caps_bytes caps \<le> 4 + 24 * 71" if "capabilities_valid caps" for caps
  proof -
    have "sum_list (map (\<lambda>c. 7 + length (cap_name c)) caps) \<le> sum_list (map (\<lambda>c. 71) caps)"
      using that by (intro sum_list_mono) (auto simp: capabilities_valid_def capability_valid_def list_all_iff)
    also have "\<dots> \<le> 24 * 71" using that by (simp add: sum_list_triv capabilities_valid_def)
    finally show ?thesis by (simp add: caps_bytes_def)
  qed
  then have "capabilities_valid caps \<Longrightarrow> caps_bytes caps < 4000" for caps by fastforce
  then have offers: "offer_validate o_f = Inr () \<Longrightarrow> offer_bytes o_f < 5000"
    "selection_validate s = Inr () \<Longrightarrow> selection_bytes s < 5000" for o_f s
    by (fastforce simp: offer_validate_iff selection_validate_iff offer_bytes_def selection_bytes_def LIMIT_BYTES_def)+
  obtain n where n: "message_size m = Inr n" using assms(2) by (auto simp: is_ok_iff)
  then have "n < 2 ^ 32"
    using offers by (cases m) (fastforce simp: try_res_Inr_iff split: if_splits)+
  then show ?thesis by (simp add: message_size_layout [OF n])
qed

lemma refusal_reported:
  assumes "encode_refused refused binding (min maximum MAX_RECORD) out Reliable = (Inr n, out')"
  shows "decode_message mem (take n out') maximum binding = Inl (NRefused refused)"
proof -
  let ?m = "min maximum MAX_RECORD" and ?bytes = "take n out'"
  have dec: "decode_refused ?bytes binding ?m Reliable = Inr refused"
    using refusal_codec.round_trip [OF TrueI assms] by simp
  then have "length ?bytes \<le> ?m" "framed ?bytes KRefused binding (refused_layout refused)"
    using refusal_codec.decode_framed [OF dec] by simp_all
  then have "decode_bounded ?bytes ?m binding None
      = Inr \<lparr>rc_kind = KRefused, rc_binding = binding, rc_payload = refused_layout refused\<rparr>"
    by (simp add: decode_bounded_iff)
  with dec show ?thesis by (simp add: decode_message_def)
qed

interpretation negotiation_codec: message_codec
  "\<lambda>m out. encode_message m maximum out" "\<lambda>bytes. decode_message mem bytes maximum expected_binding"
  message_layout negotiation_kind expected_binding "min maximum MAX_RECORD"
  "message_typed mem expected_binding" "\<lambda>m. is_ok (message_size m)" for mem maximum expected_binding
proof (rule wrapped_codec_laws)
  let ?encode = "\<lambda>m out. if is_ok (message_size m)
      then write_record out (min maximum MAX_RECORD) expected_binding (negotiation_kind m) (length (message_layout m))
        (writer_put (message_layout m))
      else (Inl InvalidValue, out)"
  show "message_codec ?encode (\<lambda>bytes. decode_message mem bytes maximum expected_binding) message_layout negotiation_kind
      expected_binding (min maximum MAX_RECORD) (message_typed mem expected_binding) (\<lambda>m. is_ok (message_size m))"
  proof (rule codec_laws [where body = "\<lambda>m. writer_put (message_layout m)"])
    fix m
    assume m: "message_typed mem expected_binding m" "is_ok (message_size m)"
    show "length (message_layout m) < 2 ^ 32" using m by (rule message_layout_less)
    show "expected_binding \<noteq> 0 \<or> kind_initial (negotiation_kind m)"
      using m by (cases m) (simp_all add: message_typed_def kind_initial_def split: if_splits)
  qed (simp_all add: writes_put decode_message_iff MAX_RECORD_def)
  fix m out
  assume typed: "message_typed mem expected_binding m"
  show "\<exists>e. fst (?encode m out) = Inl e \<and> (\<exists>e'. encode_message m maximum out = (Inl e', out))
      \<or> is_ok (fst (?encode m out))
        \<and> encode_message m maximum out = (map_sum NWire id (fst (?encode m out)), snd (?encode m out))"
  proof (cases "message_size m")
    case (Inl e)
    then show ?thesis by (simp add: encode_message_def)
  next
    case (Inr n)
    then have m: "is_ok (message_size m)" "length (message_layout m) = n" "message_binding m = expected_binding"
      using typed by (simp_all add: message_size_layout message_typed_def)
    note less = message_layout_less [OF typed m(1)]
    show ?thesis
    proof (cases "?encode m out")
      case (Pair r out')
      have "r = Inl e \<Longrightarrow> out' = out" for e
        using Pair m write_record_refused [OF writes_put less, of "min maximum MAX_RECORD"] by (simp add: MAX_RECORD_def)
      then show ?thesis
        using Pair m encode_message_record [OF Inr, of maximum out] by (cases r) (auto simp: wire_def)
    qed
  qed
qed simp

text \<open>
  The other limits do not travel: what is written for a message is what is written for the message with its
  other limits at their ceilings.
\<close>

definition on_wire :: "ProtocolLimits \<Rightarrow> ProtocolLimits" where
  "on_wire l = ABSOLUTE\<lparr>pl_max_control_message_bytes := pl_max_control_message_bytes l,
     pl_max_clipboard_item_bytes := pl_max_clipboard_item_bytes l,
     pl_max_encoded_access_unit_bytes := pl_max_encoded_access_unit_bytes l,
     pl_max_dimension_pixels := pl_max_dimension_pixels l, pl_max_coded_pixels := pl_max_coded_pixels l,
     pl_reassembly_window_pictures := pl_reassembly_window_pictures l,
     pl_per_viewer_compressed_bytes := pl_per_viewer_compressed_bytes l\<rparr>"

definition selection_on_wire :: "Selection \<Rightarrow> Selection" where
  "selection_on_wire s = s\<lparr>sl_limits := on_wire (sl_limits s)\<rparr>"

fun received :: "Message \<Rightarrow> Message" where
  "received (ClientHello o_f) = ClientHello (o_f\<lparr>of_limits := on_wire (of_limits o_f)\<rparr>)"
| "received (HostCapabilities o_f) = HostCapabilities (o_f\<lparr>of_limits := on_wire (of_limits o_f)\<rparr>)"
| "received (SelectedConfiguration s) = SelectedConfiguration (selection_on_wire s)"
| "received (SessionOpened binding s until) = SessionOpened binding (selection_on_wire s) until"
| "received m = m"

lemma on_wire_valid: "limits_valid l \<Longrightarrow> wire_limits (on_wire l)"
  by (simp add: wire_limits_def limits_valid_simps limit_floors_def limit_values_def on_wire_def absolute_simps)

lemma on_wire_id: "wire_limits l \<Longrightarrow> on_wire l = l"
  by (cases l) (simp add: wire_limits_def limit_values_def on_wire_def ABSOLUTE_def word_unat_eq_iff)

lemma on_wire_layout [simp]: "limits_layout (on_wire l) = limits_layout l"
  by (simp add: limits_layout_def on_wire_def)

lemma on_wire_write [simp]: "write_limits (on_wire l) = write_limits l"
  by (simp add: write_limits_def [abs_def] on_wire_def)

lemma valid_limits_on_wire [simp]: "valid_limits (on_wire l) = valid_limits l"
  by (simp add: valid_limits_def on_wire_def)

lemma received_same:
  "message_size (received m) = message_size m" "put_message (received m) = put_message m"
  "message_binding (received m) = message_binding m" "negotiation_kind (received m) = negotiation_kind m"
  "message_layout (received m) = message_layout m" "message_reserved mem (received m) = message_reserved mem m"
  by (cases m; simp add: fun_eq_iff offer_validate_def selection_validate_def offer_bytes_def selection_bytes_def
      selection_on_wire_def write_offer_def write_selection_def offer_layout_def selection_layout_def offer_reserved_def)+

lemma encode_received: "encode_message (received m) maximum out = encode_message m maximum out"
  by (simp add: encode_message_def received_same)

lemma received_limits: "list_all limits_valid (message_limits m) \<Longrightarrow> list_all wire_limits (message_limits (received m))"
  by (cases m) (simp_all add: on_wire_valid selection_on_wire_def)

lemma everything_reserved: "message_reserved (\<lambda>_. True) m"
  by (cases m) (simp_all add: offer_reserved_def)

lemma received_id: "list_all wire_limits (message_limits m) \<Longrightarrow> received m = m"
  by (cases m) (simp_all add: on_wire_id selection_on_wire_def)

text \<open>Without the memory that decoding a message needs, the answer is the allocation error.\<close>

definition short_of :: "(NegotiationError + 'a) \<times> 's \<Rightarrow> (NegotiationError + 'a) \<times> 's \<Rightarrow> bool" where
  "short_of m m' \<longleftrightarrow> m = m' \<or> fst m = Inl NAllocation"

lemma short_of_refl: "short_of m m"
  by (simp add: short_of_def)

lemma short_of_then:
  assumes "short_of m m'" and "\<And>x s. short_of (k x s) (k' x s)"
  shows "short_of (try_then m k) (try_then m' k')"
  using assms by (cases m; cases "fst m"; cases m'; cases "fst m'") (auto simp: short_of_def)

lemma short_of_if:
  "short_of m n \<Longrightarrow> short_of m' n' \<Longrightarrow> short_of (if b then m else m') (if b then n else n')"
  by simp

lemma short_of_reserve: "short_of m n \<Longrightarrow> short_of (if \<not> b then (Inl NAllocation, r) else m) (if \<not> True then e else n)"
  by (auto simp: short_of_def)

lemmas short_of_intros = short_of_reserve short_of_then short_of_if short_of_refl

lemma read_short_of:
  "short_of (read_caps mem r) (read_caps (\<lambda>_. True) r)"
  "short_of (read_offer mem r) (read_offer (\<lambda>_. True) r)"
  "short_of (read_selection mem r) (read_selection (\<lambda>_. True) r)"
  "short_of (read_message mem kind binding r) (read_message (\<lambda>_. True) kind binding r)"
proof -
  show caps: "short_of (read_caps mem r) (read_caps (\<lambda>_. True) r)" for r
    unfolding read_caps_def Let_def by (intro short_of_intros)
  show offer: "short_of (read_offer mem r) (read_offer (\<lambda>_. True) r)" for r
    unfolding read_offer_def Let_def by (intro short_of_intros caps)
  show selection: "short_of (read_selection mem r) (read_selection (\<lambda>_. True) r)" for r
    unfolding read_selection_def Let_def by (intro short_of_intros caps)
  show "short_of (read_message mem kind binding r) (read_message (\<lambda>_. True) kind binding r)"
    unfolding read_message_def by (intro short_of_intros offer selection)
qed

lemma decode_message_memory:
  "decode_message mem bytes maximum binding \<in> {decode_message (\<lambda>_. True) bytes maximum binding, Inl NAllocation}"
proof -
  have "fst (try_then (read_message mem kind binding r) k) \<in> {fst (try_then (read_message (\<lambda>_. True) kind binding r) k), Inl NAllocation}"
    for kind r and k :: "Message \<Rightarrow> byte list \<Rightarrow> (byte list, NegotiationError, Message) outcome"
    using short_of_then [OF read_short_of(4) short_of_refl, of mem kind binding r k] by (auto simp: short_of_def)
  then show ?thesis
    unfolding decode_message_def Let_def try_res_def by (auto split: sum.split)
qed

section \<open>Properties\<close>

text \<open>
  C34. The startup codec is exact and reports refusals. A message with valid limits is written exactly
  when it is valid and its record fits 4096 bytes, the limit and the buffer; a refusal to write
  leaves the buffer alone. With memory for its lists, it decodes under its binding to itself with the limits
  that do not travel at their ceilings, so to itself when they were there already; without that
  memory, the only other answer of the decoder is the allocation error. A record that
  decodes is the encoding of its message up to skipped extensions. A refusal record on the same
  channel is never taken for a message: it is reported as exactly the refusal its sender encoded.
\<close>

theorem negotiation_codec_is_exact:
  assumes "list_all limits_valid (message_limits message)"
  shows "(is_ok (fst (encode_message message maximum out)) \<longleftrightarrow>
      is_ok (message_size message)
      \<and> HEADER_BYTES + length (message_layout message) \<le> min (min maximum MAX_RECORD) (length out))
   \<and> (encode_message message maximum out = (Inr n, out') \<longrightarrow>
      n \<le> length out \<and> drop n out' = drop n out
      \<and> decode_message mem (take n out') maximum (message_binding message) =
          (if message_reserved mem message then Inr (received message) else Inl NAllocation)
      \<and> (list_all wire_limits (message_limits message) \<longrightarrow> received message = message))
   \<and> (encode_message message maximum out = (Inl e, out') \<longrightarrow> out' = out)
   \<and> (decode_message mem bytes maximum (message_binding message) = Inr message \<and> length bytes \<le> length out \<longrightarrow>
      (\<exists>extensions. validate_extensions extensions = Inr ()
         \<and> bytes = frame (negotiation_kind message) (message_binding message) (message_layout message) extensions
         \<and> encode_message message maximum out = (Inr (length bytes - length extensions),
             frame (negotiation_kind message) (message_binding message) (message_layout message) [] @ drop (length bytes - length extensions) out)))
   \<and> (encode_refused refused binding (min maximum MAX_RECORD) out Reliable = (Inr n, out') \<longrightarrow>
      decode_message mem (take n out') maximum binding = Inl (NRefused refused))"
proof (intro conjI impI)
  let ?m = "received message" and ?b = "message_binding message"
  have typed: "message_typed (\<lambda>_. True) ?b ?m"
    using received_limits [OF assms] by (simp add: message_typed_def received_same everything_reserved)
  note exact = negotiation_codec.exact [OF typed, where maximum = maximum and out = out and n = n and out' = out' and e = e,
      unfolded encode_received received_same]
  show "is_ok (fst (encode_message message maximum out)) \<longleftrightarrow> is_ok (message_size message)
      \<and> HEADER_BYTES + length (message_layout message) \<le> min (min maximum MAX_RECORD) (length out)"
    using exact by blast
  show "out' = out" if "encode_message message maximum out = (Inl e, out')" using exact that by blast
  show "received message = message" if "list_all wire_limits (message_limits message)" using that by (rule received_id)
  show "decode_message mem (take n out') maximum binding = Inl (NRefused refused)"
    if "encode_refused refused binding (min maximum MAX_RECORD) out Reliable = (Inr n, out')"
    using that by (rule refusal_reported)
  assume enc: "encode_message message maximum out = (Inr n, out')"
  then show "n \<le> length out" "drop n out' = drop n out" using exact by blast+
  have all: "decode_message (\<lambda>_. True) (take n out') maximum ?b = Inr ?m" using exact enc by blast
  show "decode_message mem (take n out') maximum ?b = (if message_reserved mem message then Inr ?m else Inl NAllocation)"
    using decode_message_memory [of mem "take n out'" maximum ?b] all
    by (auto simp: decode_message_iff message_typed_def received_same)
next
  assume dec: "decode_message mem bytes maximum (message_binding message) = Inr message \<and> length bytes \<le> length out"
  then have "message_typed mem (message_binding message) message" by (simp add: decode_message_iff)
  from negotiation_codec.exact [OF this, where maximum = maximum and out = out and bytes = bytes] dec
  show "\<exists>extensions. validate_extensions extensions = Inr ()
         \<and> bytes = frame (negotiation_kind message) (message_binding message) (message_layout message) extensions
         \<and> encode_message message maximum out = (Inr (length bytes - length extensions),
             frame (negotiation_kind message) (message_binding message) (message_layout message) [] @ drop (length bytes - length extensions) out)"
    by blast
qed

definition example_hello :: Message where
  "example_hello = ClientHello (example_offer [\<lparr>cap_name = [0x61], cap_version = 1, cap_required = True\<rparr>])"

theorem negotiation_codec_is_exact_witness:
  "\<exists>n out'. encode_message example_hello 4096 (replicate 200 0) = (Inr n, out')
     \<and> decode_message (\<lambda>_. True) (take n out') 4096 0 = Inr example_hello
     \<and> decode_message (\<lambda>_. False) (take n out') 4096 0 = Inl NAllocation"
proof -
  let ?e = "encode_message example_hello 4096 (replicate 200 0)"
  have valid: "list_all limits_valid (message_limits example_hello)" and wire: "list_all wire_limits (message_limits example_hello)"
    by (simp_all add: example_hello_def example_offer_def wire_limits_def limits_valid_absolute)
  have "offer_validate (example_offer [\<lparr>cap_name = [0x61], cap_version = 1, cap_required = True\<rparr>]) = Inr ()"
    by (simp add: offer_validate_iff example_offer_def capabilities_valid_def capability_valid_def name_byte_def
        absolute_simps)
  then have size: "message_size example_hello = Inr 58"
    by (simp add: example_hello_def offer_bytes_def example_offer_def caps_bytes_def LIMIT_BYTES_def)
  then have "is_ok (message_size example_hello) \<and> HEADER_BYTES + length (message_layout example_hello)
      \<le> min (min 4096 MAX_RECORD) (length (replicate 200 (0 :: byte)))"
    using message_size_layout [OF size] by (simp add: HEADER_BYTES_def MAX_RECORD_def)
  then have "is_ok (fst ?e)"
    using negotiation_codec_is_exact [OF valid] by blast
  then obtain n out' where e: "?e = (Inr n, out')" by (cases ?e; cases "fst ?e") auto
  have "message_binding example_hello = 0" "message_reserved (\<lambda>_. True) example_hello" "\<not> message_reserved (\<lambda>_. False) example_hello"
    by (simp_all add: example_hello_def offer_reserved_def)
  then have "decode_message (\<lambda>_. True) (take n out') 4096 0 = Inr example_hello"
    "decode_message (\<lambda>_. False) (take n out') 4096 0 = Inl NAllocation"
    using negotiation_codec_is_exact [OF valid, where maximum = 4096 and out = "replicate 200 0" and n = n and out' = out'] e wire
    by auto
  with e show ?thesis by blast
qed

end
