(* ===== verification/Wire_Control.thy ===== *)
theory Wire_Control
  imports Wire_Negotiation
begin

text \<open>
  The control exchange: \<open>fr-wire/src/control.rs\<close>. A viewer asks for exactly one target, the
  host grants exactly that target with a fresh lease and its first ticket. \<open>Request\<close> and
  \<open>Granted\<close> are \<open>ControlRequest\<close> and \<open>Granted\<close> here.
\<close>

section \<open>Targets and grants\<close>

definition REQUEST_BYTES :: nat where
  "REQUEST_BYTES = HEADER_BYTES + 109"

definition GRANTED_BYTES :: nat where
  "GRANTED_BYTES = REQUEST_BYTES + 76"

definition CAPS :: "Capability list" where
  "CAPS = [CapKeys, CapRepeat, CapAbsolute, CapButtons, CapRelative, CapPixelScroll, CapLineScroll, CapText]"

definition LINE_SCROLL_CAPABILITY :: "byte list" where
  "LINE_SCROLL_CAPABILITY = map (of_nat \<circ> of_char) ''native-input-line-scroll''"

definition LINE_SCROLL_VERSION :: u16 where
  "LINE_SCROLL_VERSION = 1"

definition no_capabilities :: Capabilities where
  "no_capabilities = Capabilities 0"

definition requestable :: "NamedCapability list \<Rightarrow> Capabilities" where
  "requestable selection =
     (let line_scroll = list_ex (\<lambda>c. cap_name c = LINE_SCROLL_CAPABILITY \<and> cap_version c = LINE_SCROLL_VERSION) selection
      in foldl cap_with no_capabilities (filter (\<lambda>c. line_scroll \<or> c \<noteq> CapLineScroll) CAPS))"

record Target =
  tg_display_binding :: u32
  tg_view :: InputView
  tg_bounds :: InputBounds
  tg_capabilities :: Capabilities

record ControlRequest =
  rq_parent :: ControlBinding
  rq_sequence :: u64
  rq_target :: Target

record Granted =
  gr_request :: ControlRequest
  gr_input_channel :: u32
  gr_lease :: InputLeaseId
  gr_ticket :: InputTicketId
  gr_issued_at_us :: u64
  gr_lease_until_us :: u64
  gr_ticket_until_us :: u64
  gr_first_action :: u64
  gr_first_pointer :: u64

definition granted_credentials :: "Granted \<Rightarrow> InputCredentials" where
  "granted_credentials g =
     \<lparr>ic_session = bn_remote_session (rq_parent (gr_request g)), ic_lease = gr_lease g, ic_ticket = gr_ticket g,
      ic_view = tg_view (rq_target (gr_request g))\<rparr>"

definition initial_ticket :: "Granted \<Rightarrow> WireTicket" where
  "initial_ticket g =
     \<lparr>wt_credentials = granted_credentials g, wt_sequence = 0, wt_issued_at_us = gr_issued_at_us g,
      wt_expires_at_us = gr_ticket_until_us g\<rparr>"

definition valid_request :: "ControlRequest \<Rightarrow> ProtocolLimits \<Rightarrow> WireError + unit" where
  "valid_request request limits =
     (let p = rq_parent request; t = rq_target request; c = tg_capabilities t in
      if bn_id p = 0 \<or> id_raw (bn_host_boot p) = 0 \<or> id_raw (bn_os_session p) = 0 \<or> id_raw (bn_remote_session p) = 0
         \<or> tg_display_binding t = 0 \<or> tg_display_binding t = bn_id p
      then Inl InvalidBinding
      else
      try_res (map_sum (\<lambda>_. ResourceLimit) id
        (validate_coded_dimensions limits (ib_width (tg_bounds t)) (ib_height (tg_bounds t)))) (\<lambda>_.
      if c = no_capabilities \<or> cap_contains c CapRepeat \<and> \<not> cap_contains c CapKeys
         \<or> list_ex (cap_contains c) [CapButtons, CapPixelScroll, CapLineScroll] \<and> \<not> cap_contains c CapAbsolute
      then Inl InvalidValue
      else Inr ()))"

definition valid_grant :: "Granted \<Rightarrow> ProtocolLimits \<Rightarrow> WireError + unit" where
  "valid_grant g limits =
     try_res (valid_request (gr_request g) limits) (\<lambda>_.
     if gr_input_channel g = 0 \<or> gr_input_channel g = bn_id (rq_parent (gr_request g))
        \<or> gr_input_channel g = tg_display_binding (rq_target (gr_request g))
        \<or> id_raw (gr_lease g) = 0 \<or> id_raw (gr_ticket g) = 0
     then Inl InvalidBinding
     else if gr_first_action g \<noteq> 0 \<or> gr_first_pointer g \<noteq> 0
        \<or> \<not> lifetime_within MAX_LEASE_LIFETIME_US (gr_lease_until_us g) (gr_issued_at_us g)
        \<or> \<not> lifetime_within MAX_TICKET_LIFETIME_US (gr_ticket_until_us g) (gr_issued_at_us g)
        \<or> gr_ticket_until_us g > gr_lease_until_us g
     then Inl InvalidValue
     else Inr ())"

definition control_role :: "InputDirection \<Rightarrow> InputDirection \<Rightarrow> InputDelivery \<Rightarrow> WireError + unit" where
  "control_role direction wanted delivery =
     (if direction \<noteq> wanted then Inl WrongRole
      else if delivery \<noteq> Reliable then Inl WrongChannel
      else Inr ())"

section \<open>Bodies\<close>

definition request_bits :: "Capabilities \<Rightarrow> u8" where
  "request_bits c =
     foldl (\<lambda>bits cap. bits OR push_bit (capability_code cap) (of_bool (cap_contains c cap))) 0 CAPS"

definition bits_capabilities :: "u8 \<Rightarrow> Capabilities" where
  "bits_capabilities bits =
     foldl cap_with no_capabilities (filter (\<lambda>c. bits AND push_bit (capability_code c) 1 \<noteq> 0) CAPS)"

definition write_request :: "ControlRequest \<Rightarrow> Writer \<Rightarrow> (Writer, WireError, unit) outcome" where
  "write_request v w =
     (let p = rq_parent v; t = rq_target v; view = tg_view t; b = tg_bounds t in
      try_then (writer_u128s [id_raw (bn_host_boot p), id_raw (bn_os_session p), id_raw (bn_remote_session p)] w) (\<lambda>_ w.
      try_then (writer_u64 (rq_sequence v) w) (\<lambda>_ w.
      try_then (writer_u32 (tg_display_binding t) w) (\<lambda>_ w.
      try_then (writer_u64s [gen_raw (iv_geometry view), gen_raw (iv_viewport view),
          gen_raw (iv_configuration view), gen_raw (iv_recovery view)] w) (\<lambda>_ w.
      try_then (writer_put (to_be_bytes (dp_x (ib_origin b))) w) (\<lambda>_ w.
      try_then (writer_put (to_be_bytes (dp_y (ib_origin b))) w) (\<lambda>_ w.
      try_then (writer_u32 (ib_width b) w) (\<lambda>_ w.
      try_then (writer_u32 (ib_height b) w) (\<lambda>_.
      writer_u8 (request_bits (tg_capabilities t)))))))))))"

definition read_request :: "u32 \<Rightarrow> byte list \<Rightarrow> (byte list, WireError, ControlRequest) outcome" where
  "read_request channel r =
     try_then (reader_u128 r) (\<lambda>host_boot r.
     try_then (reader_u128 r) (\<lambda>os_session r.
     try_then (reader_u128 r) (\<lambda>remote_session r.
     try_then (reader_u64 r) (\<lambda>sequence r.
     try_then (reader_u32 r) (\<lambda>display_binding r.
     try_then (reader_u64 r) (\<lambda>geometry r.
     try_then (reader_u64 r) (\<lambda>viewport r.
     try_then (reader_u64 r) (\<lambda>configuration r.
     try_then (reader_u64 r) (\<lambda>recovery r.
     try_then (read_point r) (\<lambda>origin r.
     try_then (reader_u32 r) (\<lambda>width r.
     try_then (reader_u32 r) (\<lambda>height r.
     try_then (ok_or InvalidValue (bounds_new origin width height), r) (\<lambda>bounds r.
     try_then (reader_u8 r) (\<lambda>bits r.
     (Inr \<lparr>rq_parent = \<lparr>bn_id = channel, bn_host_boot = Opaque host_boot, bn_os_session = Opaque os_session,
             bn_remote_session = Opaque remote_session\<rparr>,
           rq_sequence = sequence,
           rq_target = \<lparr>tg_display_binding = display_binding,
             tg_view = \<lparr>iv_geometry = Generation geometry, iv_viewport = Generation viewport,
               iv_configuration = Generation configuration, iv_recovery = Generation recovery\<rparr>,
             tg_bounds = bounds, tg_capabilities = bits_capabilities bits\<rparr>\<rparr>, r)))))))))))))))"

definition write_granted :: "Granted \<Rightarrow> Writer \<Rightarrow> (Writer, WireError, unit) outcome" where
  "write_granted g w =
     try_then (write_request (gr_request g) w) (\<lambda>_ w.
     try_then (writer_u32 (gr_input_channel g) w) (\<lambda>_ w.
     try_then (writer_u128 (id_raw (gr_lease g)) w) (\<lambda>_ w.
     try_then (writer_u128 (id_raw (gr_ticket g)) w) (\<lambda>_.
     writer_u64s [gr_issued_at_us g, gr_lease_until_us g, gr_ticket_until_us g, gr_first_action g, gr_first_pointer g]))))"

definition read_granted :: "u32 \<Rightarrow> byte list \<Rightarrow> (byte list, WireError, Granted) outcome" where
  "read_granted channel r =
     try_then (read_request channel r) (\<lambda>request r.
     try_then (reader_u32 r) (\<lambda>input_channel r.
     try_then (reader_u128 r) (\<lambda>lease r.
     try_then (reader_u128 r) (\<lambda>ticket r.
     try_then (reader_u64 r) (\<lambda>issued_at_us r.
     try_then (reader_u64 r) (\<lambda>lease_until_us r.
     try_then (reader_u64 r) (\<lambda>ticket_until_us r.
     try_then (reader_u64 r) (\<lambda>first_action r.
     try_then (reader_u64 r) (\<lambda>first_pointer r.
     (Inr \<lparr>gr_request = request, gr_input_channel = input_channel, gr_lease = Opaque lease, gr_ticket = Opaque ticket,
           gr_issued_at_us = issued_at_us, gr_lease_until_us = lease_until_us, gr_ticket_until_us = ticket_until_us,
           gr_first_action = first_action, gr_first_pointer = first_pointer\<rparr>, r))))))))))"

section \<open>Codecs\<close>

definition encode_request ::
  "ControlRequest \<Rightarrow> byte list \<Rightarrow> ProtocolLimits \<Rightarrow> InputDirection \<Rightarrow> InputDelivery
   \<Rightarrow> (byte list, WireError, nat) outcome" where
  "encode_request request out limits direction delivery =
     try_then (control_role direction ViewerToHost delivery, out) (\<lambda>_ out.
     try_then (valid_request request limits, out) (\<lambda>_ out.
     write_record out (unat (pl_max_control_message_bytes limits)) (bn_id (rq_parent request)) KControlRequest
       (REQUEST_BYTES - HEADER_BYTES) (write_request request)))"

definition parse_request :: "ControlBinding \<Rightarrow> ProtocolLimits \<Rightarrow> byte list \<Rightarrow> (byte list, WireError, ControlRequest) outcome" where
  "parse_request expected limits r =
     try_then (read_request (bn_id expected) r) (\<lambda>request r.
     try_then (reader_finish r, r) (\<lambda>_ r.
     try_then (valid_request request limits, r) (\<lambda>_ r.
     if rq_parent request \<noteq> expected then (Inl InvalidBinding, r) else (Inr request, r))))"

definition decode_request ::
  "byte list \<Rightarrow> ControlBinding \<Rightarrow> ProtocolLimits \<Rightarrow> InputDirection \<Rightarrow> InputDelivery \<Rightarrow> WireError + ControlRequest" where
  "decode_request bytes expected limits direction delivery =
     try_res (control_role direction ViewerToHost delivery) (\<lambda>_.
     try_res (decode_bounded bytes (unat (pl_max_control_message_bytes limits)) (bn_id expected) None) (\<lambda>record.
     try_res (record_reader record KControlRequest) (\<lambda>r. fst (parse_request expected limits r))))"

definition encode_granted ::
  "Granted \<Rightarrow> byte list \<Rightarrow> ProtocolLimits \<Rightarrow> InputDirection \<Rightarrow> InputDelivery \<Rightarrow> (byte list, WireError, nat) outcome" where
  "encode_granted g out limits direction delivery =
     try_then (control_role direction HostToViewer delivery, out) (\<lambda>_ out.
     try_then (valid_grant g limits, out) (\<lambda>_ out.
     write_record out (unat (pl_max_control_message_bytes limits)) (bn_id (rq_parent (gr_request g))) KLeaseGranted
       (GRANTED_BYTES - HEADER_BYTES) (write_granted g)))"

definition parse_granted :: "ControlBinding \<Rightarrow> ProtocolLimits \<Rightarrow> byte list \<Rightarrow> (byte list, WireError, Granted) outcome" where
  "parse_granted expected limits r =
     try_then (read_granted (bn_id expected) r) (\<lambda>g r.
     try_then (reader_finish r, r) (\<lambda>_ r.
     try_then (valid_grant g limits, r) (\<lambda>_ r.
     if rq_parent (gr_request g) \<noteq> expected then (Inl InvalidBinding, r) else (Inr g, r))))"

definition decode_granted ::
  "byte list \<Rightarrow> ControlBinding \<Rightarrow> ProtocolLimits \<Rightarrow> InputDirection \<Rightarrow> InputDelivery \<Rightarrow> WireError + Granted" where
  "decode_granted bytes expected limits direction delivery =
     try_res (control_role direction HostToViewer delivery) (\<lambda>_.
     try_res (decode_bounded bytes (unat (pl_max_control_message_bytes limits)) (bn_id expected) None) (\<lambda>record.
     try_res (record_reader record KLeaseGranted) (\<lambda>r. fst (parse_granted expected limits r))))"

section \<open>Capability bits\<close>

definition caps_typed :: "Capabilities \<Rightarrow> bool" where
  "caps_typed c \<longleftrightarrow> cap_bits c < 256"

lemma cap_contains_bit: "cap_contains c cap \<longleftrightarrow> bit (cap_bits c) (capability_code cap)"
  by (simp add: cap_contains_def bit_iff_and_push_bit_not_eq_0)

lemma capability_code_less: "capability_code cap < 8"
  by (cases cap) simp_all

lemma capability_of_code: "n < 8 \<Longrightarrow> \<exists>cap \<in> set CAPS. capability_code cap = n"
  by (auto simp: CAPS_def numeral_eq_Suc less_Suc_eq)

lemma bit_fold_caps:
  "bit (foldl (\<lambda>bits cap. bits OR push_bit (capability_code cap) (of_bool (P cap))) (a :: u8) caps) n \<longleftrightarrow>
     bit a n \<or> (\<exists>cap \<in> set caps. capability_code cap = n \<and> P cap)"
  by (induction caps arbitrary: a) (use capability_code_less in \<open>auto simp: bit_simps\<close>)

lemma bit_fold_with:
  "bit (cap_bits (foldl cap_with a caps)) n \<longleftrightarrow> bit (cap_bits a) n \<or> (\<exists>cap \<in> set caps. capability_code cap = n)"
proof (induction caps arbitrary: a)
  case (Cons cap caps)
  have "capability_code cap < 16" using capability_code_less [of cap] by simp
  with Cons show ?case by (auto simp: cap_with_def bit_simps)
qed simp

lemma bit_request_bits: "bit (request_bits c) n \<longleftrightarrow> n < 8 \<and> bit (cap_bits c) n"
  using capability_of_code [of n] capability_code_less
  by (auto simp: request_bits_def bit_fold_caps cap_contains_bit)

lemma and_exp_bit: "b AND push_bit k 1 \<noteq> 0 \<longleftrightarrow> bit (b :: u8) k"
  by (simp add: bit_iff_and_push_bit_not_eq_0)

lemma bit_u8_less: "bit (b :: u8) n \<Longrightarrow> n < 8"
  using bit_imp_le_length [of b n] by simp

lemma bit_bits_capabilities: "bit (cap_bits (bits_capabilities b)) n \<longleftrightarrow> bit b n"
  using capability_of_code [of n] bit_u8_less [of b n]
  unfolding bits_capabilities_def and_exp_bit by (auto simp: bit_fold_with no_capabilities_def)

lemma caps_typed_bits: "caps_typed c \<longleftrightarrow> (\<forall>n. bit (cap_bits c) n \<longrightarrow> n < 8)"
proof -
  have "cap_bits c < 256 \<longleftrightarrow> take_bit 8 (cap_bits c) = cap_bits c"
    by (simp add: word_less_nat_alt word_unat_eq_iff unsigned_take_bit_eq take_bit_nat_eq_self_iff)
  also have "\<dots> \<longleftrightarrow> (\<forall>n. bit (cap_bits c) n \<longrightarrow> n < 8)"
    using bit_imp_le_length [of "cap_bits c"] by (force simp: bit_eq_iff bit_take_bit_iff)
  finally show ?thesis by (simp add: caps_typed_def)
qed

lemma caps_typed_bits_capabilities [simp]: "caps_typed (bits_capabilities b)"
  using bit_u8_less by (auto simp: caps_typed_bits bit_bits_capabilities)

lemma request_bits_inverse [simp]: "request_bits (bits_capabilities b) = b"
  by (rule bit_word_eqI) (simp add: bit_request_bits bit_bits_capabilities)

lemma bits_capabilities_inverse: "caps_typed c \<Longrightarrow> bits_capabilities (request_bits c) = c"
  by (rule Capabilities.expand, rule bit_word_eqI)
    (auto simp: caps_typed_bits bit_bits_capabilities bit_request_bits)

section \<open>Layouts\<close>

definition request_layout :: "ControlRequest \<Rightarrow> byte list" where
  "request_layout v =
     (let p = rq_parent v; t = rq_target v; view = tg_view t; b = tg_bounds t in
      to_be_bytes (id_raw (bn_host_boot p)) @ to_be_bytes (id_raw (bn_os_session p))
      @ to_be_bytes (id_raw (bn_remote_session p)) @ to_be_bytes (rq_sequence v) @ to_be_bytes (tg_display_binding t)
      @ to_be_bytes (gen_raw (iv_geometry view)) @ to_be_bytes (gen_raw (iv_viewport view))
      @ to_be_bytes (gen_raw (iv_configuration view)) @ to_be_bytes (gen_raw (iv_recovery view))
      @ point_layout (ib_origin b) @ to_be_bytes (ib_width b) @ to_be_bytes (ib_height b)
      @ [request_bits (tg_capabilities t)])"

definition granted_layout :: "Granted \<Rightarrow> byte list" where
  "granted_layout g =
     request_layout (gr_request g) @ to_be_bytes (gr_input_channel g) @ to_be_bytes (id_raw (gr_lease g))
     @ to_be_bytes (id_raw (gr_ticket g)) @ to_be_bytes (gr_issued_at_us g) @ to_be_bytes (gr_lease_until_us g)
     @ to_be_bytes (gr_ticket_until_us g) @ to_be_bytes (gr_first_action g) @ to_be_bytes (gr_first_pointer g)"

text \<open>Requests of Rust's types: bounds that \<open>InputBounds::new\<close> made, and only the eight capabilities.\<close>

definition target_typed :: "Target \<Rightarrow> bool" where
  "target_typed t \<longleftrightarrow>
     bounds_new (ib_origin (tg_bounds t)) (ib_width (tg_bounds t)) (ib_height (tg_bounds t)) = Some (tg_bounds t)
     \<and> caps_typed (tg_capabilities t)"

lemma control_layout_lengths [simp]: "length (request_layout v) = 109" "length (granted_layout g) = 185"
  by (simp_all add: request_layout_def granted_layout_def point_layout_def Let_def)

lemma write_request_writes: "writes (write_request v) (request_layout v)"
proof -
  let ?p = "rq_parent v" and ?t = "rq_target v"
  have "writes (write_request v)
    (concat (map to_be_bytes [id_raw (bn_host_boot ?p), id_raw (bn_os_session ?p), id_raw (bn_remote_session ?p)])
     @ to_be_bytes (rq_sequence v) @ to_be_bytes (tg_display_binding ?t)
     @ concat (map to_be_bytes [gen_raw (iv_geometry (tg_view ?t)), gen_raw (iv_viewport (tg_view ?t)),
         gen_raw (iv_configuration (tg_view ?t)), gen_raw (iv_recovery (tg_view ?t))])
     @ to_be_bytes (dp_x (ib_origin (tg_bounds ?t))) @ to_be_bytes (dp_y (ib_origin (tg_bounds ?t)))
     @ to_be_bytes (ib_width (tg_bounds ?t)) @ to_be_bytes (ib_height (tg_bounds ?t))
     @ [request_bits (tg_capabilities ?t)])"
    unfolding write_request_def [abs_def] Let_def by (intro wire_writes) simp_all
  then show ?thesis by (simp add: request_layout_def point_layout_def Let_def)
qed

lemma write_granted_writes: "writes (write_granted g) (granted_layout g)"
proof -
  have "writes (write_granted g)
    (request_layout (gr_request g) @ to_be_bytes (gr_input_channel g) @ to_be_bytes (id_raw (gr_lease g))
     @ to_be_bytes (id_raw (gr_ticket g)) @ concat (map to_be_bytes [gr_issued_at_us g, gr_lease_until_us g,
         gr_ticket_until_us g, gr_first_action g, gr_first_pointer g]))"
    unfolding write_granted_def [abs_def] by (intro wire_writes write_request_writes) simp_all
  then show ?thesis by (simp add: granted_layout_def)
qed

lemma bounds_new_fields:
  "bounds_new origin width height = Some b \<Longrightarrow> ib_origin b = origin \<and> ib_width b = width \<and> ib_height b = height"
  "bounds_new origin width height = Some b \<Longrightarrow> bounds_new (ib_origin b) (ib_width b) (ib_height b) = Some b"
  by (auto simp: bounds_new_def split: if_splits)

lemma read_request_iff:
  "read_request channel r = (Inr v, rest) \<longleftrightarrow>
     target_typed (rq_target v) \<and> bn_id (rq_parent v) = channel \<and> r = request_layout v @ rest" (is "?L \<longleftrightarrow> ?R")
proof
  assume ?L
  then show ?R
    unfolding read_request_def
    by (auto simp: wire_reads point.get_iff target_typed_def request_layout_def Let_def
        dest: bounds_new_fields)
next
  assume R: ?R
  let ?t = "rq_target v"
  have "bounds_new (ib_origin (tg_bounds ?t)) (ib_width (tg_bounds ?t)) (ib_height (tg_bounds ?t)) = Some (tg_bounds ?t)"
    "bits_capabilities (request_bits (tg_capabilities ?t)) = tg_capabilities ?t"
    using R by (simp_all add: target_typed_def bits_capabilities_inverse)
  with R show ?L
    by (simp add: read_request_def request_layout_def Let_def u128.get_layout u64.get_layout u32.get_layout
        point.get_layout u8.get_layout [simplified])
qed

lemma read_granted_iff:
  "read_granted channel r = (Inr g, rest) \<longleftrightarrow>
     target_typed (rq_target (gr_request g)) \<and> bn_id (rq_parent (gr_request g)) = channel \<and> r = granted_layout g @ rest"
  by (cases g) (auto simp: read_granted_def wire_reads read_request_iff granted_layout_def opaque_raw)

definition request_typed :: "ControlBinding \<Rightarrow> ControlRequest \<Rightarrow> bool" where
  "request_typed expected request \<longleftrightarrow> rq_parent request = expected \<and> target_typed (rq_target request)"

lemma parse_request_iff:
  "parse_request expected limits p = (Inr request, rest) \<longleftrightarrow>
     request_typed expected request \<and> valid_request request limits = Inr () \<and> p = request_layout request \<and> rest = []"
  by (auto simp: parse_request_def wire_reads read_request_iff reader_finish_iff request_typed_def split: if_splits)

lemma parse_granted_iff:
  "parse_granted expected limits p = (Inr g, rest) \<longleftrightarrow>
     request_typed expected (gr_request g) \<and> valid_grant g limits = Inr () \<and> p = granted_layout g \<and> rest = []"
  by (auto simp: parse_granted_def wire_reads read_granted_iff reader_finish_iff request_typed_def split: if_splits)

lemma valid_request_bound: "valid_request request limits = Inr () \<Longrightarrow> bn_id (rq_parent request) \<noteq> 0"
  by (auto simp: valid_request_def Let_def)

lemma valid_grant_request: "valid_grant g limits = Inr () \<Longrightarrow> valid_request (gr_request g) limits = Inr ()"
  by (auto simp: valid_grant_def try_res_Inr_iff)

interpretation request_codec: message_codec
  "\<lambda>request out. encode_request request out limits direction delivery"
  "\<lambda>bytes. decode_request bytes expected limits direction delivery"
  request_layout "\<lambda>_. KControlRequest" "bn_id expected" "unat (pl_max_control_message_bytes limits)"
  "request_typed expected"
  "\<lambda>request. control_role direction ViewerToHost delivery = Inr () \<and> valid_request request limits = Inr ()"
  for limits expected direction delivery
  by (rule checked_codec_laws [where body = write_request and parse = "parse_request expected limits"
        and n = "REQUEST_BYTES - HEADER_BYTES"])
    (auto simp: write_request_writes kind_channel_def kind_initial_def parse_request_iff encode_request_def
      decode_request_def request_typed_def REQUEST_BYTES_def HEADER_BYTES_def dest: valid_request_bound)

interpretation granted_codec: message_codec
  "\<lambda>g out. encode_granted g out limits direction delivery"
  "\<lambda>bytes. decode_granted bytes expected limits direction delivery"
  granted_layout "\<lambda>_. KLeaseGranted" "bn_id expected" "unat (pl_max_control_message_bytes limits)"
  "\<lambda>g. request_typed expected (gr_request g)"
  "\<lambda>g. control_role direction HostToViewer delivery = Inr () \<and> valid_grant g limits = Inr ()"
  for limits expected direction delivery
  by (rule checked_codec_laws [where body = write_granted and parse = "parse_granted expected limits"
        and n = "GRANTED_BYTES - HEADER_BYTES"])
    (auto simp: write_granted_writes kind_channel_def kind_initial_def parse_granted_iff encode_granted_def
      decode_granted_def request_typed_def REQUEST_BYTES_def GRANTED_BYTES_def HEADER_BYTES_def
      dest: valid_request_bound valid_grant_request)

section \<open>Properties\<close>

lemma grant_ticket_valid:
  assumes "valid_grant g limits = Inr ()"
  shows "valid_authority \<lparr>at_ticket = initial_ticket g, at_authority_until_us = gr_lease_until_us g\<rparr>
    (gr_input_channel g) = Inr ()"
  using assms
  by (auto simp: valid_grant_def valid_request_def valid_authority_def valid_ticket_def initial_ticket_def
      granted_credentials_def try_res_Inr_iff Let_def split: if_splits)

text \<open>
  C35. Control requests and grants round-trip, and what a viewer accepts as a grant is usable.
  A request or a grant of Rust's types that is written decodes to itself for its parent
  binding and leaves the rest of the buffer alone; a refusal writes nothing. A grant that
  decodes echoes the parent it was expected for; the ticket it starts with is valid on the
  granted channel, also as an authority ticket capped by the lease; the granted channel is
  neither the control nor the display channel; both sequences start at zero; and the requested
  capabilities are not empty and are closed under their dependencies.
\<close>

theorem grants_round_trip_and_are_usable:
  assumes "target_typed (rq_target request)" and "target_typed (rq_target (gr_request grant))"
  shows "(encode_request request out limits direction delivery = (Inr n, out') \<longrightarrow>
      n = 133 \<and> decode_request (take n out') (rq_parent request) limits direction delivery = Inr request
      \<and> drop n out' = drop n out)
   \<and> (encode_request request out limits direction delivery = (Inl e, out') \<longrightarrow> out' = out)
   \<and> (encode_granted grant out limits direction delivery = (Inr n, out') \<longrightarrow>
      n = 209 \<and> decode_granted (take n out') (rq_parent (gr_request grant)) limits direction delivery = Inr grant
      \<and> drop n out' = drop n out)
   \<and> (encode_granted grant out limits direction delivery = (Inl e, out') \<longrightarrow> out' = out)
   \<and> (decode_granted bytes expected limits direction delivery = Inr grant \<longrightarrow>
      rq_parent (gr_request grant) = expected
      \<and> valid_authority \<lparr>at_ticket = initial_ticket grant, at_authority_until_us = gr_lease_until_us grant\<rparr>
          (gr_input_channel grant) = Inr ()
      \<and> gr_input_channel grant \<notin> {0, bn_id expected, tg_display_binding (rq_target (gr_request grant))}
      \<and> gr_first_action grant = 0 \<and> gr_first_pointer grant = 0
      \<and> (let c = tg_capabilities (rq_target (gr_request grant)) in
         c \<noteq> no_capabilities \<and> (cap_contains c CapRepeat \<longrightarrow> cap_contains c CapKeys)
         \<and> (cap_contains c CapButtons \<or> cap_contains c CapPixelScroll \<or> cap_contains c CapLineScroll
             \<longrightarrow> cap_contains c CapAbsolute)))" (is "?A \<and> ?B \<and> ?C \<and> ?D \<and> ?E")
proof (intro conjI)
  have typed: "request_typed (rq_parent request) request"
    "request_typed (rq_parent (gr_request grant)) (gr_request grant)"
    using assms by (simp_all add: request_typed_def)
  show ?A using request_codec.round_trip [OF typed(1), of out limits direction delivery n out'] typed(1)
    by (auto simp: request_codec.encode_iff [OF typed(1)] HEADER_BYTES_def)
  show ?B using request_codec.encode_refused [OF typed(1)] by blast
  show ?C using granted_codec.round_trip [OF typed(2), of out limits direction delivery n out'] typed(2)
    by (auto simp: granted_codec.encode_iff [OF typed(2)] HEADER_BYTES_def)
  show ?D using granted_codec.encode_refused [OF typed(2)] by blast
  show ?E
  proof
    assume "decode_granted bytes expected limits direction delivery = Inr grant"
    then have ok: "valid_grant grant limits = Inr ()" "rq_parent (gr_request grant) = expected"
      using granted_codec.decode_framed by (auto simp: request_typed_def)
    show "rq_parent (gr_request grant) = expected
      \<and> valid_authority \<lparr>at_ticket = initial_ticket grant, at_authority_until_us = gr_lease_until_us grant\<rparr>
          (gr_input_channel grant) = Inr ()
      \<and> gr_input_channel grant \<notin> {0, bn_id expected, tg_display_binding (rq_target (gr_request grant))}
      \<and> gr_first_action grant = 0 \<and> gr_first_pointer grant = 0
      \<and> (let c = tg_capabilities (rq_target (gr_request grant)) in
         c \<noteq> no_capabilities \<and> (cap_contains c CapRepeat \<longrightarrow> cap_contains c CapKeys)
         \<and> (cap_contains c CapButtons \<or> cap_contains c CapPixelScroll \<or> cap_contains c CapLineScroll
             \<longrightarrow> cap_contains c CapAbsolute))"
      using ok(1) grant_ticket_valid [OF ok(1)] ok(2)
      by (auto simp: valid_grant_def valid_request_def try_res_Inr_iff Let_def split: if_splits)
  qed
qed

definition example_target_request :: ControlRequest where
  "example_target_request =
     \<lparr>rq_parent = \<lparr>bn_id = 1, bn_host_boot = Opaque 2, bn_os_session = Opaque 3, bn_remote_session = Opaque 4\<rparr>,
      rq_sequence = 5,
      rq_target = \<lparr>tg_display_binding = 6,
        tg_view = \<lparr>iv_geometry = Generation 7, iv_viewport = Generation 8, iv_configuration = Generation 9,
          iv_recovery = Generation 10\<rparr>,
        tg_bounds = \<lparr>ib_origin = \<lparr>dp_x = 0, dp_y = 0\<rparr>, ib_width = 1920, ib_height = 1080\<rparr>,
        tg_capabilities = Capabilities 5\<rparr>\<rparr>"

definition example_grant :: Granted where
  "example_grant =
     \<lparr>gr_request = example_target_request, gr_input_channel = 11, gr_lease = Opaque 12, gr_ticket = Opaque 13,
      gr_issued_at_us = 1000, gr_lease_until_us = 2000000, gr_ticket_until_us = 900000, gr_first_action = 0,
      gr_first_pointer = 0\<rparr>"

theorem grants_round_trip_and_are_usable_witness:
  "\<exists>out'. encode_granted example_grant (replicate 300 0) ABSOLUTE HostToViewer Reliable = (Inr 209, out')
     \<and> decode_granted (take 209 out') (rq_parent example_target_request) ABSOLUTE HostToViewer Reliable
        = Inr example_grant"
proof -
  let ?e = "encode_granted example_grant (replicate 300 0) ABSOLUTE HostToViewer Reliable"
  have typed: "target_typed (rq_target example_target_request)" "target_typed (rq_target (gr_request example_grant))"
    by (simp_all add: target_typed_def example_grant_def example_target_request_def bounds_new_def caps_typed_def)
  have "valid_request example_target_request ABSOLUTE = Inr ()"
    by (simp add: valid_request_def example_target_request_def validate_coded_dimensions_def absolute_simps
        no_capabilities_def cap_contains_def)
  then have "control_role HostToViewer HostToViewer Reliable = Inr () \<and> valid_grant example_grant ABSOLUTE = Inr ()"
    by (simp add: control_role_def valid_grant_def example_grant_def lifetime_within_def checked_sub_def
        is_some_and_def MAX_TICKET_LIFETIME_US_def MAX_LEASE_LIFETIME_US_def)
      (simp add: example_target_request_def)
  moreover have "HEADER_BYTES + length (granted_layout example_grant)
      \<le> min (unat (pl_max_control_message_bytes ABSOLUTE)) (length (replicate 300 (0 :: byte)))"
    by (simp add: HEADER_BYTES_def absolute_simps)
  ultimately have "is_ok (fst ?e)"
    using granted_codec.exact [of "rq_parent example_target_request" example_grant] typed(2)
    by (simp add: request_typed_def example_grant_def)
  then obtain n out' where "?e = (Inr n, out')" by (cases ?e; cases "fst ?e") auto
  moreover have "gr_request example_grant = example_target_request" by (simp add: example_grant_def)
  ultimately show ?thesis using grants_round_trip_and_are_usable [OF typed] by metis
qed

end
