(* ===== verification/Ticket_Profile.thy ===== *)
theory Ticket_Profile
  imports Wire_Control
begin

text \<open>
  The layout of input tickets that a negotiated selection chooses, after \<open>selected_profile\<close> of
  \<open>fr-wire/src/input_ticket.rs\<close>: the extended layouts need the control role, room in the
  negotiated limit and the capabilities they depend on.
\<close>

section \<open>Operations\<close>

definition name_of :: "string \<Rightarrow> byte list" where
  "name_of s = map (of_nat \<circ> of_char) s"

definition AUTHORITY_CAPABILITY :: "byte list" where
  "AUTHORITY_CAPABILITY = name_of ''input-ticket-authority''"

definition AUTHORITY_VERSION :: u16 where
  "AUTHORITY_VERSION = 1"

definition READINESS_CAPABILITY :: "byte list" where
  "READINESS_CAPABILITY = name_of ''input-ticket-readiness''"

definition READINESS_VERSION :: u16 where
  "READINESS_VERSION = 1"

definition GRANT_CAPABILITY :: "byte list" where
  "GRANT_CAPABILITY = name_of ''native-control-grant''"

definition INPUT_CAPABILITY :: "byte list" where
  "INPUT_CAPABILITY = name_of ''native-input-attachment''"

definition INPUT_VERSION :: u16 where
  "INPUT_VERSION = 1"

definition CLOCK_CAPABILITY :: "byte list" where
  "CLOCK_CAPABILITY = name_of ''clock-correlation''"

definition CLOCK_VERSION :: u16 where
  "CLOCK_VERSION = 1"

definition PRESENTED_CAPABILITY :: "byte list" where
  "PRESENTED_CAPABILITY = name_of ''presented-state''"

definition PRESENTED_VERSION :: u16 where
  "PRESENTED_VERSION = 1"

datatype Profile = Legacy | Authority | Readiness

fun selection_error :: "NegotiationError \<Rightarrow> WireError" where
  "selection_error NVersion = UnsupportedVersion"
| "selection_error NProfile = UnsupportedVersion"
| "selection_error NLimits = InvalidLimits"
| "selection_error (NWire e) = e"
| "selection_error _ = InvalidValue"

definition profile_bytes :: "Profile \<Rightarrow> nat" where
  "profile_bytes profile = (if profile = Readiness then READINESS_TICKET_BYTES else AUTHORITY_TICKET_BYTES)"

definition profile_dependencies :: "(byte list \<times> u16) list" where
  "profile_dependencies =
     [(INPUT_CAPABILITY, INPUT_VERSION), (GRANT_CAPABILITY, 1), (CLOCK_CAPABILITY, CLOCK_VERSION),
      (PRESENTED_CAPABILITY, PRESENTED_VERSION)]"

definition selects :: "Selection \<Rightarrow> byte list \<times> u16 \<Rightarrow> bool" where
  "selects s = (\<lambda>(name, version). list_ex (\<lambda>c. cap_name c = name \<and> cap_version c = version) (sl_capabilities s))"

definition selected_profile :: "Selection \<Rightarrow> WireError + Profile" where
  "selected_profile s =
     try_res (map_sum selection_error id (selection_validate s)) (\<lambda>_.
     let authority = find (\<lambda>c. cap_name c = AUTHORITY_CAPABILITY) (sl_capabilities s);
         readiness = find (\<lambda>c. cap_name c = READINESS_CAPABILITY) (sl_capabilities s)
     in if is_some_and (\<lambda>c. cap_version c \<noteq> AUTHORITY_VERSION) authority
           \<or> is_some_and (\<lambda>c. cap_version c \<noteq> READINESS_VERSION) readiness
        then Inl UnsupportedVersion
        else case (authority, readiness) of
            (None, None) \<Rightarrow> Inr Legacy
          | (None, Some _) \<Rightarrow> Inl InvalidDependency
          | (Some _, _) \<Rightarrow>
              let profile = (if readiness = None then Authority else Readiness)
              in if sl_role s \<noteq> RequestControl then Inl WrongRole
                 else if unat (pl_max_control_message_bytes (sl_limits s)) < profile_bytes profile then Inl InvalidLimits
                 else if \<not> list_all (selects s) profile_dependencies then Inl InvalidDependency
                 else Inr profile)"

definition authority_selected :: "Selection \<Rightarrow> WireError + bool" where
  "authority_selected s = map_sum id (\<lambda>profile. profile \<in> {Authority, Readiness}) (selected_profile s)"

definition readiness_selected :: "Selection \<Rightarrow> WireError + bool" where
  "readiness_selected s = map_sum id (\<lambda>profile. profile = Readiness) (selected_profile s)"

section \<open>What is selected\<close>

text \<open>In a valid selection a name occurs once, so the first match is the only one.\<close>

definition has_name :: "Selection \<Rightarrow> byte list \<Rightarrow> bool" where
  "has_name s name \<longleftrightarrow> name \<in> cap_name ` set (sl_capabilities s)"

lemma find_name:
  "find (\<lambda>c. cap_name c = name) (sl_capabilities s) = None \<longleftrightarrow> \<not> has_name s name"
  "find (\<lambda>c. cap_name c = name) (sl_capabilities s) = Some c \<Longrightarrow> has_name s name \<and> (selects s (name, cap_version c))"
  by (auto simp: find_None_iff has_name_def find_Some_iff selects_def list_ex_iff image_iff)

lemma map_error_Inr: "map_sum f id r = Inr () \<longleftrightarrow> r = Inr ()"
  by (cases r) simp_all

lemma selected_profile_sound:
  assumes "selected_profile s = Inr profile"
  shows "selection_validate s = Inr ()
    \<and> has_name s AUTHORITY_CAPABILITY = (profile \<noteq> Legacy) \<and> has_name s READINESS_CAPABILITY = (profile = Readiness)
    \<and> (profile \<noteq> Legacy \<longrightarrow> sl_role s = RequestControl
        \<and> profile_bytes profile \<le> unat (pl_max_control_message_bytes (sl_limits s))
        \<and> list_all (selects s) ((AUTHORITY_CAPABILITY, 1) # profile_dependencies)
        \<and> (profile = Readiness \<longrightarrow> selects s (READINESS_CAPABILITY, 1)))"
proof (cases "find (\<lambda>c. cap_name c = AUTHORITY_CAPABILITY) (sl_capabilities s)")
  case None
  then have "find (\<lambda>c. cap_name c = READINESS_CAPABILITY) (sl_capabilities s) = None" "profile = Legacy"
    "selection_validate s = Inr ()"
    using assms by (auto simp: selected_profile_def try_res_Inr_iff map_error_Inr is_some_and_def Let_def split: if_splits option.splits)
  then show ?thesis using None by (simp add: find_name)
next
  case (Some c)
  note a = Some find_name(2) [OF Some]
  show ?thesis
  proof (cases "find (\<lambda>c. cap_name c = READINESS_CAPABILITY) (sl_capabilities s)")
    case None
    then show ?thesis
      using a assms find_name(1) [of READINESS_CAPABILITY s]
      by (auto simp: selected_profile_def try_res_Inr_iff map_error_Inr is_some_and_def Let_def AUTHORITY_VERSION_def
          split: if_splits)
  next
    case (Some d)
    then show ?thesis
      using a assms find_name(2) [OF Some]
      by (auto simp: selected_profile_def try_res_Inr_iff map_error_Inr is_some_and_def Let_def AUTHORITY_VERSION_def
          READINESS_VERSION_def split: if_splits)
  qed
qed

text \<open>The record of the selected layout fits the negotiated control limit, the legacy layout included.\<close>

lemma selected_profile_fits:
  assumes "selected_profile s = Inr profile"
  shows "(case profile of Legacy \<Rightarrow> INPUT_TICKET_BYTES | Authority \<Rightarrow> AUTHORITY_TICKET_BYTES
      | Readiness \<Rightarrow> READINESS_TICKET_BYTES) \<le> unat (pl_max_control_message_bytes (sl_limits s))"
  using selected_profile_sound [OF assms]
  by (cases profile)
    (auto simp: profile_bytes_def selection_validate_def valid_limits_def try_res_Inr_iff ticket_sizes
      word_less_nat_alt not_less split: if_splits)

lemma selected_tickets_encode:
  assumes "selected_profile s = Inr profile"
  shows "profile = Legacy \<Longrightarrow> valid_ticket t channel = Inr () \<Longrightarrow> INPUT_TICKET_BYTES \<le> length out \<Longrightarrow>
      is_ok (fst (encode_ticket t out (sl_limits s) channel HostToViewer Reliable))"
    and "profile = Authority \<Longrightarrow> valid_authority a channel = Inr () \<Longrightarrow> AUTHORITY_TICKET_BYTES \<le> length out \<Longrightarrow>
      is_ok (fst (encode_authority a out (sl_limits s) channel HostToViewer Reliable))"
    and "profile = Readiness \<Longrightarrow> valid_readiness r channel = Inr () \<Longrightarrow> READINESS_TICKET_BYTES \<le> length out \<Longrightarrow>
      is_ok (fst (encode_readiness r out (sl_limits s) channel HostToViewer Reliable))"
  using selected_profile_fits [OF assms] ticket_codec.exact [of t] authority_codec.exact [of a] readiness_codec.exact [of r]
  by (simp_all add: feedback_role_def ticket_sizes HEADER_BYTES_def)

end
