(* ===== verification/Input_Reports.thy ===== *)
theory Input_Reports
  imports Input_Guarantees Wire_Control Wire_Challenge
begin

text \<open>
  The input owner meets the wire. What decodes as an input request or a held-state snapshot is
  a valid operation of the owner, and every receipt the owner returns for a request can be
  projected onto the wire: \<open>ResultContext\<close> of \<open>frd/src/input_agent/result.rs\<close> never meets a
  receipt that \<open>from_receipt\<close> refuses.
\<close>

section \<open>Projection\<close>

text \<open>The payloads of the agent's errors \<open>Clock\<close> and \<open>Admission\<close> belong to code that is not modelled;
  projecting a reply raises neither.\<close>

datatype AgentError =
    SeatBusy | SeatInhibited | ThreadSpawn | AgentStopped | Backpressure | NoPendingCommand | NotInputCommand
  | RecordTooLarge | AgentWire WireError

datatype Reply =
    ReplyInput "Refusal + Dispatch"
  | ReplyAuthority "Refusal + HostInstant"
  | ReplyTicket "Refusal + WireTicket"
  | ReplyAuthorityTicket "Refusal + AuthorityTicket"
  | ReplyReadinessTicket "Refusal + ReadinessTicket"
  | ReplyReconciliation "Refusal + Reconciliation"
  | ReconciliationPanic "Reconciliation option"
  | CancelledBeforeStart
  | NativePanic "Receipt option"
  | InitializationFailed PlatformError

datatype InputReply =
    InputRecord InputResult
  | InputConsumedWithoutReceipt
  | InputObsoletePointer
  | InputRefused Refusal
  | InputCancelledBeforeStart
  | InputNativePanicWithoutReceipt
  | InputInitializationFailed PlatformError

record ResultContext =
  rx_binding :: ResultBinding
  rx_space :: SequenceSpace

definition result_context :: "u32 \<Rightarrow> InputRequest \<Rightarrow> ResultContext" where
  "result_context channel request = \<lparr>
     rx_binding = \<lparr>rb_channel = channel, rb_session = ic_session (ir_credentials request),
       rb_lease = ic_lease (ir_credentials request)\<rparr>,
     rx_space = (if is_pointer (ir_event request) then PointerSpace else ActionSpace)\<rparr>"

fun project :: "ResultContext \<Rightarrow> Reply \<Rightarrow> AgentError + InputReply" where
  "project context (ReplyInput (Inr (DispatchCompleted receipt))) =
     map_sum AgentWire InputRecord (from_receipt (rx_binding context) (rx_space context) receipt)"
| "project context (NativePanic (Some receipt)) =
     map_sum AgentWire InputRecord (from_receipt (rx_binding context) (rx_space context) receipt)"
| "project context (ReplyInput (Inr DispatchConsumedWithoutReceipt)) = Inr InputConsumedWithoutReceipt"
| "project context (ReplyInput (Inr ObsoletePointer)) = Inr InputObsoletePointer"
| "project context (ReplyInput (Inl refusal)) = Inr (InputRefused refusal)"
| "project context CancelledBeforeStart = Inr InputCancelledBeforeStart"
| "project context (NativePanic None) = Inr InputNativePanicWithoutReceipt"
| "project context (InitializationFailed e) = Inr (InputInitializationFailed e)"
| "project context _ = Inl NotInputCommand"

abbreviation receipt_result :: "u32 \<Rightarrow> InputRequest \<Rightarrow> Receipt \<Rightarrow> WireError + InputResult" where
  "receipt_result channel request \<equiv>
     from_receipt (rx_binding (result_context channel request)) (rx_space (result_context channel request))"

section \<open>Reportable refusals\<close>

definition plain_refusal :: "Refusal \<Rightarrow> bool" where
  "plain_refusal e \<longleftrightarrow> is_ok (reason_try_from e) \<and> e \<noteq> UnknownEffect"

definition only_refuses :: "('e \<Rightarrow> bool) \<Rightarrow> ('e + 'a) \<times> 's \<Rightarrow> bool" where
  "only_refuses P m \<longleftrightarrow> (\<forall>e. fst m = Inl e \<longrightarrow> P e)"

lemma only_refuses_then:
  "only_refuses P m \<Longrightarrow> (\<And>x s. only_refuses P (k x s)) \<Longrightarrow> only_refuses P (try_then m k)"
  by (cases m; cases "fst m") (auto simp: only_refuses_def)

lemma only_refuses_simps [simp]: "only_refuses P (Inr x, s)" "only_refuses P (Inl e, s) \<longleftrightarrow> P e"
  by (simp_all add: only_refuses_def)

abbreviation reportable_error :: "AuthorityError \<Rightarrow> bool" where
  "reportable_error e \<equiv> is_ok (authority_reason e)"

lemma case_ok_or: "(case ok_or e v of Inl d \<Rightarrow> f d | Inr x \<Rightarrow> g x) = (case v of None \<Rightarrow> f e | Some x \<Rightarrow> g x)"
  by (cases v) simp_all

lemma authorize_submission_refuses: "only_refuses reportable_error (authorize_submission lease ticket now a)"
  by (auto simp: authorize_submission_def check_time_def check_observation_live_def case_ok_or split: option.split)

lemma submission_deadline_refuses: "only_refuses reportable_error (submission_deadline lease ticket now a)"
  unfolding submission_deadline_def
  by (rule only_refuses_then [OF authorize_submission_refuses]) (simp add: case_ok_or Let_def split: option.split)

lemma invalidate_refuses: "only_refuses reportable_error (invalidate_input_tickets lease a)"
  by (simp add: invalidate_input_tickets_def case_ok_or split: option.split)

lemma platform_reason [simp]: "is_ok (reason_try_from (RefPlatform p))"
  by (cases p) simp_all

lemma plain_simps [simp]:
  "plain_refusal (RefAuthority e) \<longleftrightarrow> reportable_error e"
  "plain_refusal Revoked" "plain_refusal AuthorityUnavailable" "plain_refusal StaleView" "plain_refusal RefUnsupported"
  "plain_refusal ModeMismatch" "plain_refusal OutOfBounds" "plain_refusal InvalidTransition"
  "plain_refusal RelativeOverflow" "plain_refusal ExpiredAtBoundary" "plain_refusal (RefPlatform p)"
  "\<not> plain_refusal UnknownEffect"
  by (simp_all add: plain_refusal_def)

lemma monitor_with_refuses:
  assumes "\<And>a. only_refuses reportable_error (f a)"
  shows "only_refuses plain_refusal (monitor_with b m f sh)"
  using assms
  by (auto simp: monitor_with_def Let_def map_refusal_def only_refuses_def split: prod.split sum.split)
    (metis fst_conv)

lemma check_at_boundary_refuses: "only_refuses plain_refusal (check_at_boundary b credentials now w)"
proof -
  have "only_refuses plain_refusal (owner_with_time b now (submission_deadline lease ticket) w)" for lease ticket w
    using monitor_with_refuses [where f = "\<lambda>a. submission_deadline lease ticket (serialized_time now a) a" and b = b
        and m = "se_monitor (w_owner w)" and sh = "w_shared w"] submission_deadline_refuses
    by (auto simp: owner_with_time_def monitor_with_time_def only_refuses_def Let_def split: prod.splits)
  then show ?thesis
    unfolding check_at_boundary_def by (intro only_refuses_then) (auto simp: check_active_def Let_def)
qed

section \<open>Attempts\<close>

text \<open>A stop is explained: its refusal has a wire code, and it is unknown exactly when the effect is.\<close>

definition explained_stop :: "(stop + 'a) \<times> 'x attempt \<Rightarrow> bool" where
  "explained_stop rs \<longleftrightarrow>
     (case fst rs of
        Inr _ \<Rightarrow> \<not> at_uncertain (snd rs)
      | Inl Unwind \<Rightarrow> True
      | Inl (Refuse e) \<Rightarrow> is_ok (reason_try_from e) \<and> (e = UnknownEffect \<longleftrightarrow> at_uncertain (snd rs)))"

lemma explained_stop_simps [simp]:
  "explained_stop (Inr x, s) \<longleftrightarrow> \<not> at_uncertain s" "explained_stop (Inl Unwind, s)"
  "plain_refusal e \<Longrightarrow> explained_stop (Inl (Refuse e), s) \<longleftrightarrow> \<not> at_uncertain s"
  by (auto simp: explained_stop_def plain_refusal_def)

lemma explained_then:
  "explained_stop m \<Longrightarrow> (\<And>x s. \<not> at_uncertain s \<Longrightarrow> explained_stop (k x s)) \<Longrightarrow> explained_stop (try_then m k)"
  by (cases m; cases "fst m") (auto simp: explained_stop_def split: stop.splits)

lemma explained_lift:
  "only_refuses plain_refusal r \<Longrightarrow> \<not> at_uncertain (snd r) \<Longrightarrow> explained_stop (lift_refusal r)"
  by (cases r; cases "fst r") (auto simp: lift_refusal_def only_refuses_def explained_stop_def plain_refusal_def)

lemma explained_needs:
  "(\<And>e. r = Inl e \<Longrightarrow> plain_refusal e) \<Longrightarrow> \<not> at_uncertain s \<Longrightarrow> explained_stop (needs r s)"
  unfolding needs_def by (rule explained_lift) (auto simp: only_refuses_def)

text \<open>
  What is relied on of a sink: \<open>submit_authorized\<close> documents that its error confirms that no
  native operation was submitted, and the sinks of the repository answer with a platform error.
\<close>

definition refuses_plainly :: "'x backend \<Rightarrow> bool" where
  "refuses_plainly b \<longleftrightarrow>
     (\<forall>op sh e sh'. be_revalidate b op sh = (Some (Inl e), sh') \<longrightarrow> plain_refusal e)"

lemma uncertain_quiet [simp]:
  "at_uncertain (cancel_prepared b s) = at_uncertain s"
  "at_uncertain (snd (sample_clock b s)) = at_uncertain s"
  "at_uncertain (snd (check_at_boundary b c now s)) = at_uncertain s" for s :: "'x attempt"
  using quiet_attempt(4) [OF cancel_prepared_quiet, of b s] quiet_attempt(4) [OF sample_clock_quiet, of b s]
    quiet_attempt(4) [OF check_at_boundary_quiet, of b c now s] by simp_all

lemma explained_one:
  assumes "refuses_plainly b" "\<not> at_uncertain s"
  shows "explained_stop (one b op s)"
proof -
  have revalidate: "plain_refusal e" if "be_revalidate b op' sh = (Some (Inl e), sh')" for op' sh e sh'
    using assms(1) that by (auto simp: refuses_plainly_def)
  have check: "plain_refusal e" if "check_at_boundary b c now t = (Inl e, t')" for c now e and t t' :: "'a attempt"
    using check_at_boundary_refuses [of b c now t] that by (simp add: only_refuses_def)
  show ?thesis
    using assms(2)
    by (auto simp: one_def submit_authorized_def Let_def absence_refusal_def explained_stop_def
        plain_refusal_def [symmetric] split: prod.split option.split sum.split Submission.split
        dest!: revalidate check)
qed

lemma explained_all_of:
  assumes "refuses_plainly b"
  shows "\<not> at_uncertain s \<Longrightarrow> explained_stop (all_of b ops s)"
  by (induction ops arbitrary: s) (auto intro!: explained_then explained_one [OF assms])

lemma require_plain: "require cap o_s = Inl e \<Longrightarrow> plain_refusal e"
  by (auto simp: require_def split: if_splits)

lemma position_plain: "position_allowed point o_s = Inl e \<Longrightarrow> plain_refusal e"
  by (auto simp: position_allowed_def require_def split: if_splits)

lemma relative_plain: "relative_delta new old = Inl e \<Longrightarrow> plain_refusal e"
  by (auto simp: relative_delta_def Let_def split: if_splits)

lemma line_scroll_plain: "ok_or RefUnsupported v = Inl e \<Longrightarrow> plain_refusal e"
  by (cases v) auto

lemmas plain_needs = require_plain position_plain relative_plain line_scroll_plain

lemma explained_mode:
  assumes "\<not> at_uncertain s"
  shows "explained_stop (execute_mode b mode epoch s)"
proof -
  have "only_refuses plain_refusal (monitor_with b m (invalidate_input_tickets lease) sh)" for m lease sh
    by (rule monitor_with_refuses) (rule invalidate_refuses)
  then have "plain_refusal e" if "monitor_with b m (invalidate_input_tickets lease) sh = (Inl e, sh')" for m lease sh e sh'
    using that by (metis fst_conv only_refuses_def)
  then show ?thesis
    unfolding execute_mode_def using assms
    by (intro explained_then explained_needs)
      (auto simp: Let_def dest: plain_needs split: prod.split intro!: explained_needs [unfolded needs_def])
qed

lemma explained_key:
  assumes "refuses_plainly b" "\<not> at_uncertain s"
  shows "explained_stop (key_transition b key transition s)"
  unfolding key_transition_def Let_def
  by (intro explained_then explained_needs assms(2))
    (auto simp: assms dest: plain_needs intro!: explained_then explained_needs explained_one [OF assms(1)]
      explained_all_of [OF assms(1)] simp del: all_of.simps try_needs split: KeyTransition.split)

lemma explained_button:
  assumes "refuses_plainly b" "\<not> at_uncertain s"
  shows "explained_stop (execute_button b button pressed point barrier s)"
  unfolding execute_button_def
  by (intro explained_then explained_needs assms(2))
    (auto dest: plain_needs intro!: explained_all_of [OF assms(1)] simp del: all_of.simps)

lemma explained_scroll:
  assumes "refuses_plainly b" "\<not> at_uncertain s"
  shows "explained_stop (execute_scroll b point barrier x y unit s)"
  unfolding execute_scroll_def Let_def
  by (intro explained_then explained_needs assms(2))
    (auto dest: plain_needs intro!: explained_then explained_needs explained_one [OF assms(1)]
      explained_all_of [OF assms(1)] simp del: all_of.simps try_needs split: option.split)

lemma explained_relative:
  assumes "refuses_plainly b" "\<not> at_uncertain s"
  shows "explained_stop (execute_relative b mode_epoch x y s)"
  unfolding execute_relative_def
  by (intro explained_then explained_needs assms(2))
    (auto dest: plain_needs intro!: explained_then explained_needs explained_one [OF assms(1)] simp del: try_needs)

lemma explained_execute:
  assumes "refuses_plainly b" "\<not> at_uncertain s"
  shows "explained_stop (execute b s)"
proof -
  obtain now s1 where s1: "sample_clock b s = (now, s1)" by fastforce
  then have u: "\<not> at_uncertain s1" using uncertain_quiet(2) [of b s] assms(2) by simp
  have "explained_stop (lift_refusal (check_at_boundary b (ir_credentials (at_request s1)) now s1))"
    using u by (intro explained_lift check_at_boundary_refuses) simp
  then show ?thesis
    unfolding execute_def s1 Let_def prod.case
  proof (rule explained_then)
    fix until and t :: "'a attempt"
    assume t: "\<not> at_uncertain t"
    note parts = explained_key [OF assms(1) t] explained_button [OF assms(1) t] explained_scroll [OF assms(1) t]
      explained_relative [OF assms(1) t] explained_mode [OF t]
    have pointer: "explained_stop (try_then (needs (position_allowed point (w_owner t)) t) (\<lambda>_ s. one b (OAbsolute point) s))" for point
      by (intro explained_then explained_needs explained_one [OF assms(1)] t) (auto dest: plain_needs)
    have committed: "explained_stop (try_then (needs (require CapText (w_owner t)) t) (\<lambda>_ s.
        if c = [] \<or> text_len c > MAX_COMMITTED_TEXT_BYTES then (Inl (Refuse RefUnsupported), s)
        else all_of b (map OText c) s))" for c
      by (intro explained_then explained_needs t) (auto dest: plain_needs intro!: explained_all_of [OF assms(1)] simp del: all_of.simps)
    show "explained_stop (case ir_event (at_request t) of
        EvKey key transition \<Rightarrow> key_transition b key transition t
      | EvPointer point \<Rightarrow>
          try_then (needs (position_allowed point (w_owner t)) t) (\<lambda>_ s. one b (OAbsolute point) s)
      | EvButton button pressed point barrier \<Rightarrow> execute_button b button pressed point barrier t
      | EvScroll point barrier x y unit \<Rightarrow> execute_scroll b point barrier x y unit t
      | EvText c \<Rightarrow>
          try_then (needs (require CapText (w_owner t)) t) (\<lambda>_ s.
          if c = [] \<or> text_len c > MAX_COMMITTED_TEXT_BYTES then (Inl (Refuse RefUnsupported), s)
          else all_of b (map OText c) s)
      | EvRelative mode_epoch cumulative_x cumulative_y \<Rightarrow>
          execute_relative b mode_epoch cumulative_x cumulative_y t
      | EvMode mode epoch \<Rightarrow> execute_mode b mode epoch t)"
      using parts pointer committed by (cases "ir_event (at_request t)") (simp_all del: try_needs)
  qed
qed

section \<open>Receipts on the wire\<close>

lemma completed_attempt:
  assumes "admitted request w \<or> newer_pointer request w"
    and "dispatch b request w = (Inr (DispatchCompleted receipt), w')"
  obtains pointer w0 r s where "execute b (start_attempt request pointer w0) = (r, s)" "r \<noteq> Inl Unwind"
    "receipt = attempt_receipt (case r of Inl (Refuse e) \<Rightarrow> Inl e | _ \<Rightarrow> Inr ()) s"
proof -
  obtain pointer w0 where w0: "dispatch b request w = dispatch_attempt b request pointer w0"
    using assms(1) dispatch_admitted [of request w b] dispatch_pointer [of request w b] by metis
  then have run: "run_attempt b request pointer w0 = (Inr receipt, w')"
    using assms(2) by (cases "run_attempt b request pointer w0"; cases "fst (run_attempt b request pointer w0)")
      (simp_all add: dispatch_attempt_def)
  obtain r s where rs: "execute b (start_attempt request pointer w0) = (r, s)" by fastforce
  show thesis
    using run rs by (intro that [OF rs])
      (auto simp: run_attempt_def start_attempt_def [symmetric] finish_def Let_def split: sum.splits stop.splits)
qed

lemma refused_reason:
  assumes "reason_try_from e = Inr reason" "e \<noteq> UnknownEffect"
  shows "reason \<noteq> RUnknownEffect
    \<and> (refused_outcome e = RejectedBeforeSubmission \<and> \<not> is_expiry reason \<and> reason \<noteq> RRevoked
       \<or> refused_outcome e = ExpiredBeforeSubmission \<and> is_expiry reason
       \<or> refused_outcome e = CancelledBeforeSubmission \<and> reason = RRevoked)"
proof (cases e)
  case (RefAuthority error)
  with assms show ?thesis by (cases error) (auto simp: refused_outcome_def is_expiry_def)
next
  case (RefSequence error)
  with assms show ?thesis by (cases error) (auto simp: refused_outcome_def is_expiry_def)
next
  case (RefPlatform error)
  with assms show ?thesis by (cases error) (auto simp: refused_outcome_def is_expiry_def)
qed (use assms in \<open>auto simp: refused_outcome_def is_expiry_def\<close>)

text \<open>What \<open>truthful\<close> says of the counts, in the terms of the wire.\<close>

lemma truthful_counts:
  assumes "truthful o_s request new receipt"
  shows "unat (rc_submitted_operations receipt) \<le> 4096
    \<and> (rc_outcome receipt \<in> {PartiallySubmittedToOs, EffectUnknown} \<longrightarrow> unat (rc_submitted_operations receipt) < 4096)
    \<and> (is_pointer (ir_event request) \<longrightarrow> unat (rc_submitted_operations receipt) \<le> 1
        \<and> rc_outcome receipt \<notin> {AppliedLocally, PartiallySubmittedToOs}
        \<and> (rc_outcome receipt = EffectUnknown \<longrightarrow> rc_submitted_operations receipt = 0))"
proof -
  obtain ops where ops: "ops \<in> plans (ir_event request)" "prefix (map nc_operation new) ops"
    "rc_outcome receipt = AppliedLocally \<longrightarrow> ops = []"
    "rc_outcome receipt \<in> {PartiallySubmittedToOs, EffectUnknown} \<longrightarrow> submitted_calls new < length ops"
    using assms unfolding truthful_def by blast
  have count: "unat (rc_submitted_operations receipt) = submitted_calls new"
    using assms by (simp add: truthful_def)
  have partial: "rc_outcome receipt = PartiallySubmittedToOs \<longrightarrow> 0 < submitted_calls new"
  proof
    assume "rc_outcome receipt = PartiallySubmittedToOs"
    then show "0 < submitted_calls new" using assms by (simp add: truthful_def)
  qed
  have le: "submitted_calls new \<le> length ops" "length ops \<le> 4096"
    using submitted_calls_bounds [of new] prefix_length_le [OF ops(2)] plans_bounded [OF ops(1)] by simp_all
  have pointer: "length ops = 1" if "is_pointer (ir_event request)"
    using that ops(1) by (cases "ir_event request") simp_all
  show ?thesis
    using le ops(3,4) partial pointer unfolding count unat_eq_0 [symmetric, of "rc_submitted_operations receipt"]
    by (auto simp: count)
qed

lemma truthful_words:
  assumes "truthful o_s request new receipt"
  shows "\<not> rc_submitted_operations receipt > 4096"
    "rc_outcome receipt = PartiallySubmittedToOs \<or> rc_outcome receipt = EffectUnknown \<Longrightarrow>
       rc_submitted_operations receipt \<noteq> 4096"
    "is_pointer (ir_event request) \<Longrightarrow> \<not> rc_submitted_operations receipt > 1
       \<and> rc_outcome receipt \<notin> {AppliedLocally, PartiallySubmittedToOs}
       \<and> (rc_outcome receipt = EffectUnknown \<longrightarrow> rc_submitted_operations receipt = 0)"
  using truthful_counts [OF assms] by (auto simp: word_less_nat_alt)

text \<open>The table of \<open>validate\<close>: which outcome goes with which count and which reason.\<close>

definition outcome_explained :: "InputOutcome \<Rightarrow> bool \<Rightarrow> Reason option \<Rightarrow> bool" where
  "outcome_explained outcome has_prefix reason =
     (case outcome of
           SubmittedToOs \<Rightarrow> has_prefix \<and> reason = None
         | AppliedLocally \<Rightarrow> \<not> has_prefix \<and> reason = None
         | RejectedBeforeSubmission \<Rightarrow>
             \<not> has_prefix \<and> is_some_and (\<lambda>r. \<not> is_expiry r \<and> r \<notin> {RRevoked, RUnknownEffect}) reason
         | ExpiredBeforeSubmission \<Rightarrow> \<not> has_prefix \<and> is_some_and is_expiry reason
         | CancelledBeforeSubmission \<Rightarrow> \<not> has_prefix \<and> reason = Some RRevoked
         | PartiallySubmittedToOs \<Rightarrow> has_prefix \<and> is_some_and (\<lambda>r. r \<noteq> RUnknownEffect) reason
         | EffectUnknown \<Rightarrow> reason = Some RUnknownEffect)"

lemma projection_ok:
  assumes "truthful o_s request new receipt" "channel \<noteq> 0"
    and "(case rc_refusal receipt of None \<Rightarrow> Inr None
       | Some refusal \<Rightarrow> try_res (reason_try_from refusal) (\<lambda>reason. Inr (Some reason))) = Inr reason"
    and "outcome_explained (rc_outcome receipt) (rc_submitted_operations receipt \<noteq> 0) reason"
  shows "\<exists>result. receipt_result channel request receipt = Inr result \<and> result_validate result = Inr ()
    \<and> rs_sequence result = rc_sequence receipt \<and> rs_outcome result = rc_outcome receipt
    \<and> rs_submitted_operations result = rc_submitted_operations receipt"
proof -
  let ?result = "\<lparr>rs_binding = rx_binding (result_context channel request), rs_sequence = rc_sequence receipt,
     rs_space = rx_space (result_context channel request),
     rs_stage = (if rc_submitted_operations receipt = 0 then StageAdmitted else StageSubmittedToOs),
     rs_outcome = rc_outcome receipt, rs_submitted_operations = rc_submitted_operations receipt,
     rs_unknown_next_operation = (rc_outcome receipt = EffectUnknown), rs_reason = reason\<rparr>"
  have four: "(of_nat MAX_COMMITTED_TEXT_BYTES :: u32) = 4096" by (simp add: MAX_COMMITTED_TEXT_BYTES_def)
  note words = truthful_words [OF assms(1)]
  have "rb_channel (rs_binding ?result) \<noteq> 0" using assms(2) by (simp add: result_context_def)
  moreover have "\<not> (rs_submitted_operations ?result > of_nat MAX_COMMITTED_TEXT_BYTES
      \<or> (rs_unknown_next_operation ?result \<or> rs_outcome ?result = PartiallySubmittedToOs)
        \<and> rs_submitted_operations ?result = of_nat MAX_COMMITTED_TEXT_BYTES)"
    unfolding four using words(1,2) by auto
  moreover have "\<not> (rs_space ?result = PointerSpace
      \<and> (rs_submitted_operations ?result > 1
         \<or> rs_outcome ?result = EffectUnknown \<and> rs_submitted_operations ?result \<noteq> 0
         \<or> rs_outcome ?result \<in> {AppliedLocally, PartiallySubmittedToOs}))"
    using words(3) by (auto simp: result_context_def)
  moreover have "\<not> (rs_unknown_next_operation ?result \<noteq> (rs_outcome ?result = EffectUnknown)
      \<or> (rs_stage ?result = StageAdmitted) = (rs_submitted_operations ?result \<noteq> 0)
      \<or> rs_stage ?result = StageObserved \<and> rs_outcome ?result \<noteq> SubmittedToOs)"
    by simp
  moreover have "outcome_explained (rs_outcome ?result) (rs_submitted_operations ?result \<noteq> 0) (rs_reason ?result)"
    using assms(4) by simp
  ultimately have "result_validate ?result = Inr ()"
    unfolding result_validate_def Let_def outcome_explained_def by (simp only: if_False if_True simp_thms)
  then show ?thesis
    using assms(3) by (simp add: from_receipt_def Let_def)
qed

lemma receipt_reported:
  assumes "truthful o_s request new receipt" "channel \<noteq> 0"
    and "explained_stop (r :: stop + unit, s)" "r \<noteq> Inl Unwind"
    and "receipt = attempt_receipt (case r of Inl (Refuse e) \<Rightarrow> Inl e | _ \<Rightarrow> Inr ()) s"
  shows "\<exists>result. receipt_result channel request receipt = Inr result \<and> result_validate result = Inr ()
    \<and> rs_sequence result = rc_sequence receipt \<and> rs_outcome result = rc_outcome receipt
    \<and> rs_submitted_operations result = rc_submitted_operations receipt"
proof -
  have pos: "0 < at_submitted s \<longleftrightarrow> at_submitted s \<noteq> 0" by (simp add: word_neq_0_conv)
  consider (completed) "r = Inr ()" "\<not> at_uncertain s"
    | (unknown) "r = Inl (Refuse UnknownEffect)" "at_uncertain s"
    | (refused) e reason where "r = Inl (Refuse e)" "reason_try_from e = Inr reason" "e \<noteq> UnknownEffect" "\<not> at_uncertain s"
    using assms(3,4) by (cases r) (auto simp: explained_stop_def is_ok_iff split: stop.splits)
  then show ?thesis
  proof cases
    case completed
    then show ?thesis
      by (intro projection_ok [OF assms(1,2), of None]) (simp_all add: assms(5) attempt_receipt_def outcome_explained_def)
  next
    case unknown
    then show ?thesis
      by (intro projection_ok [OF assms(1,2), of "Some RUnknownEffect"])
        (simp_all add: assms(5) attempt_receipt_def outcome_explained_def)
  next
    case refused
    then show ?thesis
      using refused_reason [OF refused(2,3)]
      by (intro projection_ok [OF assms(1,2), of "Some reason"])
        (auto simp: assms(5) attempt_receipt_def outcome_explained_def pos)
  qed
qed

section \<open>Properties\<close>

text \<open>
  C31. Every receipt can be reported. When the owner answers a request it attempted with a
  receipt, the projection onto the wire succeeds, whatever the backend did, if the sink's
  refusals before a call have a wire code: the result is valid, carries the request's
  sequence and the receipt's outcome and count, and is written into any buffer of 74 bytes
  where the limits admit a record of that size.
\<close>

theorem receipts_are_reportable:
  assumes "open_session b address credentials bounds capabilities now sh = Some w"
    and "list_all session_op_valid ops" and "w1 = fold (session_step b) ops w"
    and "admitted request w1 \<or> newer_pointer request w1"
    and "dispatch b request w1 = (Inr (DispatchCompleted receipt), w2)"
    and "refuses_plainly b" and "channel \<noteq> 0"
    and "74 \<le> length out" and "74 \<le> unat (pl_max_control_message_bytes limits)"
  shows "\<exists>result. project (result_context channel request) (ReplyInput (Inr (DispatchCompleted receipt))) = Inr (InputRecord result)
    \<and> rs_sequence result = ir_sequence request \<and> rs_outcome result = rc_outcome receipt
    \<and> rs_submitted_operations result = rc_submitted_operations receipt
    \<and> is_ok (fst (encode_input_result result out limits HostToViewer Reliable))"
proof -
  have "owner_ok w1"
    using proceeds_ok [OF session_run_proceeds [OF open_session_ok(1) [OF assms(1)] assms(2), of b]] assms(3) by simp
  then obtain new where truth: "truthful (w_owner w1) request new receipt"
    using attempt_reports [OF _ assms(4,5)] by blast
  obtain pointer w0 r s where run: "execute b (start_attempt request pointer w0) = (r, s)" "r \<noteq> Inl Unwind"
    "receipt = attempt_receipt (case r of Inl (Refuse e) \<Rightarrow> Inl e | _ \<Rightarrow> Inr ()) s"
    using completed_attempt [OF assms(4,5)] by blast
  have "explained_stop (r, s)"
    using explained_execute [OF assms(6), of "start_attempt request pointer w0"] run(1) by simp
  then obtain result where result: "receipt_result channel request receipt = Inr result" "result_validate result = Inr ()"
    "rs_sequence result = rc_sequence receipt" "rs_outcome result = rc_outcome receipt"
    "rs_submitted_operations result = rc_submitted_operations receipt"
    using receipt_reported [OF truth assms(7) _ run(2,3)] by blast
  have "is_ok (fst (encode_input_result result out limits HostToViewer Reliable))"
    using result_codec.exact [of "rs_binding result" result out limits HostToViewer Reliable] result(2) assms(8,9)
    by (simp add: result_typed_def result_route_def HEADER_BYTES_def)
  moreover have "rc_sequence receipt = ir_sequence request" using truth by (simp add: truthful_def)
  ultimately show ?thesis using result by auto
qed

lemma example_refuses_plainly: "refuses_plainly example_backend"
  by (simp add: refuses_plainly_def example_backend_def)

theorem receipts_are_reportable_witness:
  "\<exists>result. project (result_context 7 example_press) (ReplyInput (Inr (DispatchCompleted example_receipt)))
       = Inr (InputRecord result) \<and> rs_outcome result = SubmittedToOs
     \<and> is_ok (fst (encode_input_result result (replicate 74 0) ABSOLUTE HostToViewer Reliable))"
  using receipts_are_reportable [OF example_open, of "[]" example_world example_press example_receipt example_pressed 7
      "replicate 74 0" ABSOLUTE] example_admitted(1) example_dispatch(1) example_refuses_plainly
  by (auto simp: example_receipt_def absolute_simps)

text \<open>
  C32. What decodes is a valid operation. A decoded input request travelled from the viewer to
  the host, is a pointer move if it came as a datagram, names a key of the accepted usages if
  it is a key event, and carries a non-empty text of at most 4096 bytes of scalar values if it
  is a text: it satisfies the precondition of every guarantee about the owner. A decoded
  held-state snapshot is a bitmap without bits beyond the known keys and buttons, for a
  session and a lease that are not zero.
\<close>

theorem decoded_input_is_valid:
  "(decode_input bytes limits binding direction delivery = Inr request \<longrightarrow>
      session_op_valid (SDispatch request) \<and> direction = ViewerToHost
      \<and> (delivery = Datagram \<longrightarrow> is_pointer (ir_event request))
      \<and> (\<forall>t. ir_event request = EvText t \<longrightarrow> t \<noteq> [] \<and> text_len t \<le> 4096 \<and> list_all is_scalar t))
   \<and> (decode_held_state bytes limits binding direction delivery = Inr snapshot \<longrightarrow>
      held_valid (hr_held snapshot) \<and> direction = ViewerToHost \<and> delivery = Reliable
      \<and> id_raw (hr_session snapshot) \<noteq> 0 \<and> id_raw (hr_lease snapshot) \<noteq> 0)"
proof (intro conjI impI)
  assume "decode_input bytes limits binding direction delivery = Inr request"
  then have ok: "event_typed (ir_event request)" "validate_route direction delivery (event_kind (ir_event request)) = Inr ()"
    "event_sized (ir_event request)"
    using input_codec.decode_framed by (auto simp: input_typed_def input_admissible_def)
  show "session_op_valid (SDispatch request)"
    using ok(1) by (cases "ir_event request") simp_all
  show "direction = ViewerToHost"
    using ok(2) by (auto simp: validate_route_def split: if_splits)
  show "is_pointer (ir_event request)" if "delivery = Datagram"
    using ok(2) that by (cases "ir_event request") (auto simp: validate_route_def split: if_splits)
  show "\<forall>t. ir_event request = EvText t \<longrightarrow> t \<noteq> [] \<and> text_len t \<le> 4096 \<and> list_all is_scalar t"
    using ok(1,3) by (auto simp: event_sized_def MAX_TEXT_BYTES_def MAX_COMMITTED_TEXT_BYTES_def split: if_splits)
next
  assume "decode_held_state bytes limits binding direction delivery = Inr snapshot"
  then have ok: "held_typed snapshot" "held_role direction delivery = Inr ()" "held_request_valid snapshot binding = Inr ()"
    using held_codec.decode_framed by auto
  then show "held_valid (hr_held snapshot)" "direction = ViewerToHost" "delivery = Reliable"
    "id_raw (hr_session snapshot) \<noteq> 0" "id_raw (hr_lease snapshot) \<noteq> 0"
    by (auto simp: held_typed_def held_role_def held_request_valid_def split: if_splits)
qed

theorem decoded_input_is_valid_witness:
  "(\<exists>bytes. decode_input bytes ABSOLUTE 7 ViewerToHost Reliable = Inr example_text_request
     \<and> session_op_valid (SDispatch example_text_request))
   \<and> (\<exists>bytes. decode_held_state bytes ABSOLUTE 7 ViewerToHost Reliable = Inr example_held_request
     \<and> held_valid (hr_held example_held_request))"
proof -
  have size: "event_size (ir_event example_text_request) = Inr 14"
    by (simp add: example_text_request_def text_len_def utf8_len_def MAX_TEXT_BYTES_def MAX_COMMITTED_TEXT_BYTES_def)
  have "decode_input (frame KText 7 (input_layout example_text_request) []) ABSOLUTE 7 ViewerToHost Reliable
      = Inr example_text_request"
    using input_codec.decode_frame [OF example_text_typed, of 7 ViewerToHost Reliable ABSOLUTE] size
      length_input_layout [OF size]
    by (simp add: input_admissible_def validate_route_def event_sized_def HEADER_BYTES_def INPUT_PREFIX_BYTES_def
        absolute_simps) (simp add: example_text_request_def)
  moreover have "decode_held_state (frame KHeldState 7 (held_layout example_held_request) []) ABSOLUTE 7 ViewerToHost Reliable
      = Inr example_held_request"
    using held_codec.decode_frame [OF example_held_typed, where direction = ViewerToHost and delivery = Reliable
        and limits = ABSOLUTE and binding = 7] held_codec_size [OF example_held_typed]
    by (simp add: held_role_def held_request_valid_def example_held_request_def HELD_STATE_BYTES_def HEADER_BYTES_def
        KEY_BITMAP_BYTES_def absolute_simps)
  ultimately show ?thesis using decoded_input_is_valid by blast
qed

end
