(* ===== verification/Record_Stream.thy ===== *)
theory Record_Stream
  imports Negotiation "HOL-Library.Sublist"
begin

text \<open>
  Incremental framing, after \<open>fr-wire/src/stream.rs\<close>: the owner of one reliable stream that
  cuts the bytes it is given, in chunks of any size, into records. It holds at most one record,
  refuses a bad header before it allocates, and drops a record that is not complete and
  consumed before the deadline its first byte started.
\<close>

section \<open>State\<close>

datatype StreamError =
    StreamWire WireError
  | InvalidPolicy
  | StreamAllocation
  | StreamExpired
  | StreamClockRegression
  | StreamClosed

text \<open>\<open>st_capacity\<close> is the capacity of the vector \<open>record\<close>, which the source bounds as well.\<close>

record RecordStream =
  st_maximum :: nat
  st_lifetime :: u64
  st_binding :: u32
  st_header :: "byte list"
  st_header_len :: nat
  st_record :: "byte list"
  st_capacity :: nat
  st_total :: "nat option"
  st_until :: "u64 option"
  st_last_now :: "u64 option"
  st_failure :: "StreamError option"
  st_closed :: bool

definition stream_new_inner :: "nat \<Rightarrow> u32 \<Rightarrow> u64 \<Rightarrow> StreamError + RecordStream" where
  "stream_new_inner maximum binding lifetime =
     (if \<not> (HEADER_BYTES \<le> maximum \<and> maximum \<le> unat (pl_max_control_message_bytes ABSOLUTE))
         \<or> \<not> (1 \<le> lifetime \<and> lifetime \<le> 5000000)
      then Inl InvalidPolicy
      else Inr \<lparr>st_maximum = maximum, st_lifetime = lifetime, st_binding = binding,
        st_header = replicate HEADER_BYTES 0, st_header_len = 0, st_record = [], st_capacity = 0, st_total = None,
        st_until = None, st_last_now = None, st_failure = None, st_closed = False\<rparr>)"

definition stream_new :: "nat \<Rightarrow> u32 \<Rightarrow> u64 \<Rightarrow> StreamError + RecordStream" where
  "stream_new maximum binding lifetime =
     (if binding = 0 then Inl InvalidPolicy else stream_new_inner maximum binding lifetime)"

definition stream_negotiation :: "nat \<Rightarrow> u64 \<Rightarrow> StreamError + RecordStream" where
  "stream_negotiation maximum lifetime = stream_new_inner (min maximum MAX_RECORD) 0 lifetime"

section \<open>Operations\<close>

definition stream_close :: "RecordStream \<Rightarrow> RecordStream" where
  "stream_close s = s\<lparr>st_closed := True, st_header := replicate HEADER_BYTES 0, st_header_len := 0, st_record := [],
     st_capacity := 0, st_total := None, st_until := None\<rparr>"

definition stream_fail :: "StreamError \<Rightarrow> RecordStream \<Rightarrow> (RecordStream, StreamError, 'a) outcome" where
  "stream_fail e s = (Inl e, (stream_close s)\<lparr>st_failure := Some e\<rparr>)"

definition stream_tick :: "u64 \<Rightarrow> RecordStream \<Rightarrow> (RecordStream, StreamError, unit) outcome" where
  "stream_tick now s =
     (case st_failure s of
        Some e \<Rightarrow> (Inl e, s)
      | None \<Rightarrow>
          if st_closed s then (Inl StreamClosed, s)
          else if is_some_and (\<lambda>old. now < old) (st_last_now s) then stream_fail StreamClockRegression s
          else let s = s\<lparr>st_last_now := Some now\<rparr> in
            if is_some_and (\<lambda>until. now \<ge> until) (st_until s) then stream_fail StreamExpired s
            else (Inr (), s))"

definition stream_ready :: "RecordStream \<Rightarrow> bool" where
  "stream_ready s = is_some_and (\<lambda>tot. length (st_record s) = tot) (st_total s)"

definition CLOSE_REQUEST_BYTES :: nat where
  "CLOSE_REQUEST_BYTES = HEADER_BYTES + 19"

definition CLOSED_BYTES :: nat where
  "CLOSED_BYTES = HEADER_BYTES + 28"

definition bootstrap_code :: "u16 \<Rightarrow> bool" where
  "bootstrap_code code \<longleftrightarrow> (1 \<le> code \<and> code \<le> 4) \<or> code \<in> {0x10, 0x11, 0x1d, 0x1e}"

definition fixed_payload :: "u16 \<Rightarrow> nat option" where
  "fixed_payload code =
     (if code = 0x1d then Some (CLOSE_REQUEST_BYTES - HEADER_BYTES)
      else if code = 0x1e then Some (CLOSED_BYTES - HEADER_BYTES)
      else None)"

definition header_word :: "byte list \<Rightarrow> nat \<Rightarrow> u32" where
  "header_word h i = from_be_bytes (take 4 (drop i h))"

definition header_total :: "nat \<Rightarrow> u32 \<Rightarrow> byte list \<Rightarrow> WireError + nat" where
  "header_total maximum binding h =
     (let code = from_be_bytes (take 2 (drop 6 h)) in
      if take 4 h \<noteq> MAGIC then Inl BadMagic
      else if take 2 (drop 4 h) \<noteq> [0, 0] then Inl UnsupportedVersion
      else if take 4 (drop 8 h) \<noteq> [0, 0, 0, 0] then Inl InvalidFlags
      else if binding = 0 \<and> \<not> bootstrap_code code then Inl UnsupportedKind
      else if header_word h 16 \<noteq> binding then Inl InvalidBinding
      else if binding = 0
        \<and> is_some_and (\<lambda>n. unat (header_word h 12) \<noteq> n \<or> header_word h 20 \<noteq> 0) (fixed_payload code)
      then Inl InvalidValue
      else if header_word h 20 > header_word h 12 then Inl InvalidExtension
      else if HEADER_BYTES + unat (header_word h 12) > usize_max then Inl ArithmeticOverflow
      else if HEADER_BYTES + unat (header_word h 12) > maximum then Inl ResourceLimit
      else Inr (HEADER_BYTES + unat (header_word h 12)))"

definition validate_header :: "RecordStream \<Rightarrow> WireError + nat" where
  "validate_header s = header_total (st_maximum s) (st_binding s) (st_header s)"

text \<open>
  An allocator answers a growth to so many bytes with the capacity it gives, or with \<open>None\<close> when it
  fails. The rest is \<open>try_reserve_exact\<close> of the standard library: it does nothing when the capacity is
  enough, and after a success there is room for at least what was wanted, so that appending to
  the record does not grow it again.
\<close>

type_synonym allocator = "nat \<Rightarrow> nat option"

definition try_reserve_exact :: "allocator \<Rightarrow> nat \<Rightarrow> nat \<Rightarrow> nat option" where
  "try_reserve_exact reserve capacity wanted =
     (if wanted \<le> capacity then Some capacity else map_option (max wanted) (reserve wanted))"

text \<open>A call ends with an error of the stream, or with a panic.\<close>

datatype stream_stop = Fails StreamError | Panics

definition fails :: "(StreamError + 'a) \<times> 's \<Rightarrow> (stream_stop + 'a) \<times> 's" where
  "fails m = map_prod (map_sum Fails id) id m"

definition start_deadline :: "u64 \<Rightarrow> RecordStream \<Rightarrow> (RecordStream, StreamError, unit) outcome" where
  "start_deadline now s =
     (if st_until s = None
      then case checked_add now (st_lifetime s) of
          None \<Rightarrow> stream_fail (StreamWire ArithmeticOverflow) s
        | Some until \<Rightarrow> (Inr (), s\<lparr>st_until := Some until\<rparr>)
      else (Inr (), s))"

definition fill_header :: "byte list \<Rightarrow> RecordStream \<Rightarrow> nat \<times> RecordStream" where
  "fill_header bytes s =
     (let n = min (HEADER_BYTES - st_header_len s) (length bytes) in
      (n, s\<lparr>st_header := take (st_header_len s) (st_header s) @ take n bytes @ drop (st_header_len s + n) (st_header s),
            st_header_len := st_header_len s + n\<rparr>))"

definition accept_header :: "allocator \<Rightarrow> RecordStream \<Rightarrow> (RecordStream, StreamError, unit) outcome" where
  "accept_header reserve s =
     (case validate_header s of
        Inl e \<Rightarrow> stream_fail (StreamWire e) s
      | Inr tot \<Rightarrow>
          (case try_reserve_exact reserve (st_capacity s) (length (st_record s) + tot) of
             None \<Rightarrow> stream_fail StreamAllocation s
           | Some capacity \<Rightarrow>
               let s = s\<lparr>st_capacity := capacity\<rparr> in
               if capacity > st_maximum s then stream_fail StreamAllocation s
               else (Inr (), s\<lparr>st_record := st_record s @ st_header s, st_total := Some tot\<rparr>)))"

definition extend_record :: "nat \<Rightarrow> byte list \<Rightarrow> RecordStream \<Rightarrow> (RecordStream, stream_stop, nat) outcome" where
  "extend_record consumed bytes s =
     (case st_total s of
        None \<Rightarrow> (Inl Panics, s)
      | Some tot \<Rightarrow>
          if tot < length (st_record s) \<or> length bytes < consumed then (Inl Panics, s)
          else let n = min (tot - length (st_record s)) (length bytes - consumed)
            in (Inr (consumed + n), s\<lparr>st_record := st_record s @ take n (drop consumed bytes)\<rparr>))"

definition stream_push :: "allocator \<Rightarrow> byte list \<Rightarrow> u64 \<Rightarrow> RecordStream \<Rightarrow> (RecordStream, stream_stop, nat) outcome" where
  "stream_push reserve bytes now s =
     try_then (fails (stream_tick now s)) (\<lambda>_ s.
     if bytes = [] \<or> stream_ready s then (Inr 0, s) else
     try_then (fails (start_deadline now s)) (\<lambda>_ s.
     if st_header_len s < HEADER_BYTES then
       let (consumed, s) = fill_header bytes s in
       if st_header_len s < HEADER_BYTES then (Inr consumed, s)
       else try_then (fails (accept_header reserve s)) (\<lambda>_ s. extend_record consumed bytes s)
     else extend_record 0 bytes s))"

definition stream_frame :: "u64 \<Rightarrow> RecordStream \<Rightarrow> (RecordStream, StreamError, byte list option) outcome" where
  "stream_frame now s =
     try_then (stream_tick now s) (\<lambda>_ s. (Inr (if stream_ready s then Some (st_record s) else None), s))"

definition stream_consume :: "u64 \<Rightarrow> RecordStream \<Rightarrow> (RecordStream, StreamError, unit) outcome" where
  "stream_consume now s =
     try_then (stream_tick now s) (\<lambda>_ s.
     if \<not> stream_ready s then (Inl (StreamWire Truncated), s)
     else (Inr (), s\<lparr>st_header := replicate HEADER_BYTES 0, st_header_len := 0, st_record := [], st_total := None,
       st_until := None\<rparr>))"

definition stream_finish :: "u64 \<Rightarrow> RecordStream \<Rightarrow> (RecordStream, StreamError, unit) outcome" where
  "stream_finish now s =
     try_then (stream_tick now s) (\<lambda>_ s.
     if st_header_len s \<noteq> 0 then stream_fail (StreamWire Truncated) s
     else (Inr (), stream_close s))"

definition buffered_bytes :: "RecordStream \<Rightarrow> nat" where
  "buffered_bytes s = (if is_some (st_total s) then length (st_record s) else st_header_len s)"

section \<open>Whole records\<close>

text \<open>The reference: cutting all the bytes at once.\<close>

definition whole_record :: "nat \<Rightarrow> u32 \<Rightarrow> byte list \<Rightarrow> bool" where
  "whole_record maximum binding f \<longleftrightarrow> HEADER_BYTES \<le> length f
     \<and> header_total maximum binding (take HEADER_BYTES f) = Inr (length f)"

lemma header_total_bounds:
  "header_total maximum binding h = Inr tot \<Longrightarrow> HEADER_BYTES \<le> tot \<and> tot \<le> maximum"
  by (auto simp: header_total_def Let_def split: if_splits)

function split_records :: "nat \<Rightarrow> u32 \<Rightarrow> byte list \<Rightarrow> byte list list" where
  "split_records maximum binding bytes =
     (if length bytes < HEADER_BYTES then []
      else case header_total maximum binding (take HEADER_BYTES bytes) of
          Inl e \<Rightarrow> []
        | Inr tot \<Rightarrow>
            if length bytes < tot then [] else take tot bytes # split_records maximum binding (drop tot bytes))"
  by pat_completeness auto

termination
  by (relation "measure (length \<circ> snd \<circ> snd)") (auto dest: header_total_bounds simp: HEADER_BYTES_def)

declare split_records.simps [simp del]

lemma split_records_Cons:
  assumes "whole_record maximum binding f"
  shows "split_records maximum binding (f @ rest) = f # split_records maximum binding rest"
  using assms by (subst split_records.simps) (simp add: whole_record_def)

lemma split_records_concat:
  "list_all (whole_record maximum binding) fs \<Longrightarrow>
     split_records maximum binding (concat fs @ rest) = fs @ split_records maximum binding rest"
  by (induction fs) (simp_all add: split_records_Cons)

text \<open>What the encoders write is a whole record for the stream's binding.\<close>

lemma kind_initial_code: "kind_initial k \<Longrightarrow> bootstrap_code (kind_code k) \<and> fixed_payload (kind_code k) = None"
  by (auto simp: kind_initial_def bootstrap_code_def fixed_payload_def)

lemma header_fields:
  fixes kind :: Kind and binding :: u32 and payload extensions :: "byte list"
  defines "h \<equiv> take HEADER_BYTES (frame kind binding payload extensions)"
  shows "take 4 h = MAGIC" "take 2 (drop 4 h) = [0, 0]" "take 4 (drop 8 h) = [0, 0, 0, 0]"
    "take 2 (drop 6 h) = to_be_bytes (kind_code kind)" "header_word h 16 = binding"
    "header_word h 12 = of_nat (length payload + length extensions)" "header_word h 20 = of_nat (length extensions)"
proof -
  have zero: "to_be_bytes (0 :: u16) = [0, 0]" by (simp add: to_be_bytes_def upt_conv_Cons)
  note layout = h_def frame_def HEADER_BYTES_def header_word_def zero
  show "take 4 h = MAGIC" "take 2 (drop 4 h) = [0, 0]" "take 4 (drop 8 h) = [0, 0, 0, 0]"
    "take 2 (drop 6 h) = to_be_bytes (kind_code kind)" "header_word h 16 = binding"
    "header_word h 12 = of_nat (length payload + length extensions)" "header_word h 20 = of_nat (length extensions)"
    by (simp_all add: layout take_Cons')
qed

lemma frame_whole:
  assumes "binding \<noteq> 0 \<or> kind_initial kind" "length payload + length extensions < 2 ^ 32"
    and "HEADER_BYTES + length payload + length extensions \<le> maximum"
  shows "whole_record maximum binding (frame kind binding payload extensions)"
proof -
  have "unat (of_nat (length payload + length extensions) :: u32) = length payload + length extensions"
    "unat (of_nat (length extensions) :: u32) = length extensions"
    using assms(2) by (simp_all add: unat_of_nat_less del: of_nat_add)
  then show ?thesis
    using assms kind_initial_code [of kind] header_fields [of kind binding payload extensions]
    by (auto simp: whole_record_def header_total_def length_frame Let_def HEADER_BYTES_def word_less_nat_alt)
qed

section \<open>Invariant\<close>

definition pending :: "RecordStream \<Rightarrow> byte list" where
  "pending s = (if is_some (st_total s) then st_record s else take (st_header_len s) (st_header s))"

definition stream_idle :: "RecordStream \<Rightarrow> bool" where
  "stream_idle s \<longleftrightarrow> st_header_len s = 0 \<and> st_record s = [] \<and> st_total s = None \<and> st_until s = None"

definition stream_sized :: "RecordStream \<Rightarrow> bool" where
  "stream_sized s \<longleftrightarrow> length (st_header s) = HEADER_BYTES \<and> HEADER_BYTES \<le> st_maximum s \<and> 0 < st_lifetime s"

definition stream_core :: "RecordStream \<Rightarrow> bool" where
  "stream_core s \<longleftrightarrow>
     stream_sized s \<and> st_capacity s \<le> st_maximum s
     \<and> (st_failure s \<noteq> None \<longrightarrow> st_closed s) \<and> (st_closed s \<longrightarrow> stream_idle s \<and> st_capacity s = 0)
     \<and> (case st_total s of
          None \<Rightarrow> st_record s = [] \<and> st_header_len s < HEADER_BYTES
        | Some tot \<Rightarrow> st_header_len s = HEADER_BYTES \<and> validate_header s = Inr tot
            \<and> take HEADER_BYTES (st_record s) = st_header s \<and> length (st_record s) \<le> tot)
     \<and> (case st_until s of
          None \<Rightarrow> True
        | Some until \<Rightarrow> is_some_and (\<lambda>now. now < until \<and> unat until \<le> unat now + unat (st_lifetime s)) (st_last_now s))"

definition stream_ok :: "RecordStream \<Rightarrow> bool" where
  "stream_ok s \<longleftrightarrow> stream_core s \<and> (st_header_len s = 0 \<longleftrightarrow> st_until s = None)"

lemma header_bytes_pos [simp]: "0 < HEADER_BYTES"
  by (simp add: HEADER_BYTES_def)

lemma close_simps [simp]:
  "st_maximum (stream_close s) = st_maximum s" "st_binding (stream_close s) = st_binding s"
  "st_lifetime (stream_close s) = st_lifetime s" "st_closed (stream_close s)" "stream_idle (stream_close s)"
  "st_capacity (stream_close s) = 0" "st_header (stream_close s) = replicate HEADER_BYTES 0"
  by (simp_all add: stream_close_def stream_idle_def)

lemma stream_ok_idle:
  "stream_idle s \<Longrightarrow> stream_sized s \<Longrightarrow> st_capacity s \<le> st_maximum s \<Longrightarrow> (st_failure s \<noteq> None \<longrightarrow> st_closed s) \<Longrightarrow>
     (st_closed s \<longrightarrow> st_capacity s = 0) \<Longrightarrow> stream_ok s"
  by (simp add: stream_ok_def stream_core_def stream_idle_def)

lemma stream_ok_close: "stream_ok s \<Longrightarrow> stream_ok (stream_close s)"
  by (rule stream_ok_idle) (simp_all add: stream_ok_def stream_core_def stream_sized_def)

text \<open>The parameters of a stream never change.\<close>

definition same_policy :: "RecordStream \<Rightarrow> RecordStream \<Rightarrow> bool" where
  "same_policy s t \<longleftrightarrow> st_maximum t = st_maximum s \<and> st_binding t = st_binding s \<and> st_lifetime t = st_lifetime s"

text \<open>A refusal closes the stream, and a closed stream stays as it is.\<close>

definition stream_over :: "RecordStream \<Rightarrow> RecordStream \<Rightarrow> bool" where
  "stream_over s t \<longleftrightarrow> stream_ok t \<and> st_closed t \<and> same_policy s t"

lemma same_policy_refl [simp]: "same_policy s s"
  by (simp add: same_policy_def)

lemma same_policy_trans: "same_policy s t \<Longrightarrow> same_policy t u \<Longrightarrow> same_policy s u"
  by (simp add: same_policy_def)

lemma stream_over_trans: "same_policy s t \<Longrightarrow> stream_over t u \<Longrightarrow> stream_over s u"
  by (auto simp: stream_over_def intro: same_policy_trans)

lemma stream_fail_over:
  assumes "stream_sized s"
  shows "\<exists>t. stream_fail e s = (Inl e, t) \<and> stream_over s t"
  using assms
  by (auto simp: stream_fail_def stream_over_def same_policy_def stream_close_def stream_idle_def stream_sized_def
      intro!: stream_ok_idle)

lemma stream_tick_cases:
  assumes "stream_ok s"
  obtains (tick) "stream_tick now s = (Inr (), s\<lparr>st_last_now := Some now\<rparr>)" "\<not> st_closed s"
      "stream_ok (s\<lparr>st_last_now := Some now\<rparr>)"
    | (over) e t where "stream_tick now s = (Inl e, t)" "stream_over s t"
proof (cases "st_failure s")
  case (Some e)
  then show ?thesis
    using assms by (intro over [of e s]) (simp_all add: stream_tick_def stream_over_def stream_ok_def stream_core_def)
next
  case None
  have fail: "\<exists>t. stream_fail e (s\<lparr>st_last_now := l\<rparr>) = (Inl e :: _ + unit, t) \<and> stream_over s t" for e l
  proof -
    obtain t where "stream_fail e (s\<lparr>st_last_now := l\<rparr>) = (Inl e :: _ + unit, t)" "stream_over (s\<lparr>st_last_now := l\<rparr>) t"
      using stream_fail_over [of "s\<lparr>st_last_now := l\<rparr>" e] assms by (auto simp: stream_ok_def stream_core_def stream_sized_def)
    then show ?thesis by (intro exI [of _ t]) (auto simp: stream_over_def same_policy_def)
  qed
  show ?thesis
  proof (cases "st_closed s")
    case True
    then show ?thesis
      using assms None by (intro over [of StreamClosed s]) (simp_all add: stream_tick_def stream_over_def)
  next
    case False
    consider "is_some_and (\<lambda>old. now < old) (st_last_now s)"
      | "\<not> is_some_and (\<lambda>old. now < old) (st_last_now s)" "is_some_and (\<lambda>until. now \<ge> until) (st_until s)"
      | "\<not> is_some_and (\<lambda>old. now < old) (st_last_now s)" "\<not> is_some_and (\<lambda>until. now \<ge> until) (st_until s)"
      by blast
    then show ?thesis
    proof cases
      case 1
      then show ?thesis
        using False None fail [of StreamClockRegression "st_last_now s"] over
        by (auto simp: stream_tick_def Let_def)
    next
      case 2
      then show ?thesis
        using False None fail [of StreamExpired "Some now"] over by (auto simp: stream_tick_def Let_def)
    next
      case 3
      have "stream_ok (s\<lparr>st_last_now := Some now\<rparr>)"
        using assms 3
        by (auto simp: stream_ok_def stream_core_def stream_sized_def validate_header_def stream_idle_def is_some_and_def not_less word_le_nat_alt
            word_less_nat_alt             split: option.splits)
      then show ?thesis using 3 False None by (intro tick) (simp_all add: stream_tick_def Let_def)
    qed
  qed
qed

text \<open>What is common to the states inside a push: a deadline is running, nothing else is new.\<close>

definition stream_open :: "RecordStream \<Rightarrow> bool" where
  "stream_open s \<longleftrightarrow> stream_core s \<and> \<not> st_closed s \<and> st_until s \<noteq> None"

lemma start_deadline_cases:
  assumes "stream_ok s" "\<not> st_closed s" "st_last_now s = Some now"
  obtains (started) t where "start_deadline now s = (Inr (), t)" "stream_open t" "same_policy s t"
      "st_header t = st_header s" "st_header_len t = st_header_len s" "st_record t = st_record s"
      "st_total t = st_total s"
    | (over) e t where "start_deadline now s = (Inl e, t)" "stream_over s t"
proof (cases "st_until s")
  case None
  show ?thesis
  proof (cases "checked_add now (st_lifetime s)")
    case None': None
    obtain t where "stream_fail (StreamWire ArithmeticOverflow) s = (Inl (StreamWire ArithmeticOverflow) :: _ + unit, t)"
      "stream_over s t"
      using stream_fail_over assms(1) by (fastforce simp: stream_ok_def stream_core_def)
    then show ?thesis using None None' by (intro over) (simp_all add: start_deadline_def)
  next
    case (Some until)
    then have until: "unat until = unat now + unat (st_lifetime s)" by (simp add: checked_add_Some_iff)
    have "stream_core (s\<lparr>st_until := Some until\<rparr>)"
      using assms until
      by (auto simp: stream_ok_def stream_core_def stream_sized_def validate_header_def stream_idle_def word_less_nat_alt
          split: option.splits)
    then show ?thesis
      using None Some assms
      by (intro started [of "s\<lparr>st_until := Some until\<rparr>"])
        (simp_all add: start_deadline_def stream_open_def same_policy_def)
  qed
next
  case (Some until)
  then show ?thesis
    using assms by (intro started [of s]) (simp_all add: start_deadline_def stream_open_def stream_ok_def)
qed

lemma stream_open_ok: "stream_open s \<Longrightarrow> 0 < st_header_len s \<Longrightarrow> stream_ok s"
  by (auto simp: stream_open_def stream_ok_def)

lemma extend_record_ok:
  assumes "stream_open s" "st_total s = Some tot" "consumed \<le> length bytes"
  obtains n t where "extend_record consumed bytes s = (Inr (consumed + n), t)" "stream_ok t" "\<not> st_closed t"
    "same_policy s t" "pending t = pending s @ take n (drop consumed bytes)" "consumed + n \<le> length bytes"
    "consumed + n = length bytes \<or> stream_ready t" "length (st_record s) < tot \<and> consumed < length bytes \<longrightarrow> 0 < n"
proof -
  define n where "n = min (tot - length (st_record s)) (length bytes - consumed)"
  let ?t = "s\<lparr>st_record := st_record s @ take n (drop consumed bytes)\<rparr>"
  have s: "length (st_record s) \<le> tot" "validate_header s = Inr tot" "take HEADER_BYTES (st_record s) = st_header s"
    "st_header_len s = HEADER_BYTES" "length (st_header s) = HEADER_BYTES"
    using assms(1,2) by (simp_all add: stream_open_def stream_core_def stream_sized_def)
  have "extend_record consumed bytes s = (Inr (consumed + n), ?t)"
    using s(1) assms(2,3) by (simp add: extend_record_def n_def Let_def)
  moreover have "HEADER_BYTES \<le> length (st_record s)" using s(3,5) by (metis length_take min_def nle_le)
  then have "stream_core ?t"
    using assms s n_def
    by (auto simp: stream_open_def stream_core_def stream_sized_def validate_header_def split: option.splits)
  then have "stream_ok ?t" "\<not> st_closed ?t"
    using assms(1) s(4) by (auto simp: stream_ok_def stream_open_def HEADER_BYTES_def)
  moreover have "consumed + n = length bytes \<or> stream_ready ?t"
    using s(1) assms(2,3) by (auto simp: stream_ready_def n_def min_def)
  ultimately show ?thesis
    using assms(2,3) by (intro that [of n ?t]) (auto simp: same_policy_def pending_def n_def)
qed

lemma fill_header_ok:
  assumes "stream_open s" "st_total s = None" "bytes \<noteq> []"
  obtains n t where "fill_header bytes s = (n, t)" "0 < n" "n \<le> length bytes" "same_policy s t" "stream_sized t"
    "take (st_header_len t) (st_header t) = take (st_header_len s) (st_header s) @ take n bytes"
    "st_header_len t = st_header_len s + n" "st_header_len t \<le> HEADER_BYTES" "st_total t = None" "st_record t = []"
    "st_header_len t < HEADER_BYTES \<longrightarrow> n = length bytes \<and> stream_ok t \<and> \<not> st_closed t"
    "st_capacity t = st_capacity s" "st_until t = st_until s" "st_last_now t = st_last_now s"
    "st_failure t = st_failure s" "st_closed t = st_closed s"
proof -
  have s: "st_header_len s < HEADER_BYTES" "st_record s = []" "length (st_header s) = HEADER_BYTES"
    using assms(1,2) by (simp_all add: stream_open_def stream_core_def stream_sized_def)
  define n where "n = min (HEADER_BYTES - st_header_len s) (length bytes)"
  let ?t = "s\<lparr>st_header := take (st_header_len s) (st_header s) @ take n bytes @ drop (st_header_len s + n) (st_header s),
            st_header_len := st_header_len s + n\<rparr>"
  have n: "0 < n" "n \<le> length bytes" "st_header_len s + n \<le> HEADER_BYTES"
    using s(1) assms(3) by (auto simp: n_def)
  have "stream_core ?t" if "st_header_len s + n < HEADER_BYTES"
    using assms(1,2) s n that
    by (auto simp: stream_open_def stream_core_def stream_sized_def split: option.splits)
  then have "stream_ok ?t" if "st_header_len s + n < HEADER_BYTES"
    using that assms(1) n(1) by (simp add: stream_ok_def stream_open_def)
  moreover have "n = length bytes" if "st_header_len s + n < HEADER_BYTES"
    using that by (auto simp: n_def min_def split: if_splits)
  ultimately show ?thesis
    using assms s n
    by (intro that [of n ?t])
      (auto simp: fill_header_def n_def [symmetric] Let_def same_policy_def stream_open_def stream_core_def stream_sized_def)
qed

lemma accept_header_cases:
  assumes "stream_sized s" "st_header_len s = HEADER_BYTES" "st_total s = None" "st_record s = []"
    "st_failure s = None" "\<not> st_closed s" "st_until s = Some until"
    "is_some_and (\<lambda>now. now < until \<and> unat until \<le> unat now + unat (st_lifetime s)) (st_last_now s)"
  obtains (accepted) t tot where "accept_header reserve s = (Inr (), t)" "stream_open t" "same_policy s t"
      "st_total t = Some tot" "st_record t = st_header s" "validate_header s = Inr tot"
    | (over) e t where "accept_header reserve s = (Inl e, t)" "stream_over s t"
proof -
  have fail: "\<exists>t. stream_fail e (s\<lparr>st_capacity := c\<rparr>) = (Inl e :: _ + unit, t) \<and> stream_over s t" for e c
  proof -
    obtain t where "stream_fail e (s\<lparr>st_capacity := c\<rparr>) = (Inl e :: _ + unit, t)" "stream_over (s\<lparr>st_capacity := c\<rparr>) t"
      using stream_fail_over [of "s\<lparr>st_capacity := c\<rparr>" e] assms(1) by (auto simp: stream_sized_def)
    then show ?thesis by (intro exI [of _ t]) (auto simp: stream_over_def same_policy_def)
  qed
  note fails_here = fail [where c = "st_capacity s", simplified]
  show ?thesis
  proof (cases "validate_header s")
    case (Inl e)
    then show ?thesis using fails_here [of "StreamWire e"] over by (auto simp: accept_header_def)
  next
    case (Inr tot)
    have tot: "HEADER_BYTES \<le> tot" using Inr header_total_bounds by (auto simp: validate_header_def)
    show ?thesis
    proof (cases "try_reserve_exact reserve (st_capacity s) tot")
      case None
      then show ?thesis using Inr assms(4) fails_here [of StreamAllocation] over by (auto simp: accept_header_def)
    next
      case (Some c)
      let ?t = "s\<lparr>st_capacity := c, st_record := st_header s, st_total := Some tot\<rparr>"
      show ?thesis
      proof (cases "c \<le> st_maximum s")
        case True
        have "stream_open ?t"
          using assms Inr True tot
          by (simp add: stream_open_def stream_core_def stream_sized_def validate_header_def)
        then show ?thesis
          using True Some Inr assms(4) by (intro accepted [of ?t]) (simp_all add: accept_header_def same_policy_def)
      next
        case False
        then show ?thesis using Some Inr assms(4) fail [of StreamAllocation c] over by (auto simp: accept_header_def Let_def)
      qed
    qed
  qed
qed

lemma fails_simps [simp]: "fails (Inr x, s) = (Inr x, s)" "fails (Inl e, s) = (Inl (Fails e), s)"
  by (simp_all add: fails_def)

text \<open>
  A push closes the stream or takes a prefix of the bytes. It takes all of them, or up to the
  end of a record; and it takes something unless there is nothing or a record is waiting.
\<close>

lemma stream_push_cases:
  assumes "stream_ok s"
  obtains (took) n t where "stream_push reserve bytes now s = (Inr n, t)" "stream_ok t" "\<not> st_closed s" "\<not> st_closed t"
      "same_policy s t" "n \<le> length bytes" "pending t = pending s @ take n bytes"
      "\<not> stream_ready s \<Longrightarrow> n = length bytes \<or> stream_ready t" "bytes \<noteq> [] \<Longrightarrow> \<not> stream_ready s \<Longrightarrow> 0 < n"
    | (over) e t where "stream_push reserve bytes now s = (Inl (Fails e), t)" "stream_over s t"
  using assms
proof (cases rule: stream_tick_cases [where now = now])
  case (over e t)
  then show ?thesis by (intro that(2)) (simp_all add: stream_push_def)
next
  case tick
  let ?s = "s\<lparr>st_last_now := Some now\<rparr>"
  have same: "same_policy s ?s" "pending ?s = pending s" "stream_ready ?s = stream_ready s"
    by (simp_all add: same_policy_def pending_def stream_ready_def)
  show ?thesis
  proof (cases "bytes = [] \<or> stream_ready s")
    case True
    then show ?thesis
      using tick same by (intro that(1) [of 0 ?s]) (auto simp: stream_push_def)
  next
    case False
    have "stream_ok ?s" "\<not> st_closed ?s" "st_last_now ?s = Some now" using tick by simp_all
    then show ?thesis
    proof (cases rule: start_deadline_cases [where now = now])
      case (over e t)
      then show ?thesis
        using tick False same stream_over_trans [OF same(1)]
        by (intro that(2) [of e t]) (auto simp: stream_push_def)
    next
      case (started t)
      have t: "pending t = pending s" "\<not> stream_ready t" "same_policy s t"
        using started same False by (simp_all add: pending_def stream_ready_def same_policy_def)
      have push: "stream_push reserve bytes now s =
          (if st_header_len t < HEADER_BYTES then
             let (consumed, s) = fill_header bytes t in
             if st_header_len s < HEADER_BYTES then (Inr consumed, s)
             else try_then (fails (accept_header reserve s)) (\<lambda>_ s. extend_record consumed bytes s)
           else extend_record 0 bytes t)"
        using tick False started(1) same(3) by (simp add: stream_push_def)
      show ?thesis
      proof (cases "st_total t")
        case None
        have nonempty: "bytes \<noteq> []" using False by simp
        obtain n u where fill: "fill_header bytes t = (n, u)" "0 < n" "n \<le> length bytes" "same_policy t u" "stream_sized u"
          "take (st_header_len u) (st_header u) = take (st_header_len t) (st_header t) @ take n bytes"
          "st_header_len u = st_header_len t + n" "st_header_len u \<le> HEADER_BYTES" "st_total u = None" "st_record u = []"
          "st_header_len u < HEADER_BYTES \<longrightarrow> n = length bytes \<and> stream_ok u \<and> \<not> st_closed u"
          "st_capacity u = st_capacity t" "st_until u = st_until t" "st_last_now u = st_last_now t"
          "st_failure u = st_failure t" "st_closed u = st_closed t"
          by (rule fill_header_ok [OF started(2) None nonempty])
        have len: "st_header_len t < HEADER_BYTES"
          using started(2) None by (simp add: stream_open_def stream_core_def)
        have pend: "take (st_header_len u) (st_header u) = pending s @ take n bytes"
          using fill(6) t(1) None by (simp add: pending_def)
        show ?thesis
        proof (cases "st_header_len u < HEADER_BYTES")
          case True
          then show ?thesis
            using fill(1-3,9-11) pend tick(2) len same_policy_trans [OF t(3) fill(4)]
            by (intro that(1) [of n u]) (simp_all add: push pending_def)
        next
          case full: False
          obtain until where until: "st_until t = Some until"
            "is_some_and (\<lambda>now. now < until \<and> unat until \<le> unat now + unat (st_lifetime t)) (st_last_now t)"
            "st_failure t = None" "\<not> st_closed t"
            using started(2) by (auto simp: stream_open_def stream_core_def split: option.splits)
          have header: "st_header_len u = HEADER_BYTES" using full fill(8) by simp
          have "st_failure u = None" "\<not> st_closed u" "st_until u = Some until"
            "is_some_and (\<lambda>now. now < until \<and> unat until \<le> unat now + unat (st_lifetime u)) (st_last_now u)"
            using until fill(4,13-16) by (simp_all add: same_policy_def)
          with fill(5) header fill(9,10) show ?thesis
          proof (cases rule: accept_header_cases [where until = until and reserve = reserve])
            case (over e v)
            then show ?thesis
              using fill(1) len full stream_over_trans [OF same_policy_trans [OF t(3) fill(4)]]
              by (intro that(2) [of e v]) (simp_all add: push)
          next
            case (accepted v tot)
            have v: "pending v = pending s @ take n bytes" "same_policy s v"
              using accepted(3-5) pend header fill(4,5) t(3) by (simp_all add: pending_def stream_sized_def same_policy_def)
            obtain m w where "extend_record n bytes v = (Inr (n + m), w)" "stream_ok w" "\<not> st_closed w"
              "same_policy v w" "pending w = pending v @ take m (drop n bytes)" "n + m \<le> length bytes"
              "n + m = length bytes \<or> stream_ready w" "length (st_record v) < tot \<and> n < length bytes \<longrightarrow> 0 < m"
              by (rule extend_record_ok [OF accepted(2,4) fill(3)])
            then show ?thesis
              using v fill(1,2) tick(2) len full accepted(1) same_policy_trans [OF v(2)]
              by (intro that(1) [of "n + m" w]) (simp_all add: push take_add)
          qed
        qed
      next
        case (Some tot)
        have tot: "st_header_len t = HEADER_BYTES" "length (st_record t) < tot"
          using started(2) Some t(2) by (auto simp: stream_open_def stream_core_def stream_ready_def)
        obtain n u where "extend_record 0 bytes t = (Inr (0 + n), u)" "stream_ok u" "\<not> st_closed u"
          "same_policy t u" "pending u = pending t @ take n (drop 0 bytes)" "0 + n \<le> length bytes"
          "0 + n = length bytes \<or> stream_ready u" "length (st_record t) < tot \<and> 0 < length bytes \<longrightarrow> 0 < n"
          by (rule extend_record_ok [OF started(2) Some, of 0 bytes]) simp
        then show ?thesis
          using tot tick(2) False t same_policy_trans [OF t(3)]
          by (intro that(1) [of n u]) (simp_all add: push)
      qed
    qed
  qed
qed

lemma pending_idle: "stream_idle s \<Longrightarrow> pending s = []"
  by (simp add: stream_idle_def pending_def)

lemma over_pending: "stream_over s t \<Longrightarrow> pending t = []"
  by (simp add: stream_over_def stream_ok_def stream_core_def pending_idle)

text \<open>A record that is ready is whole.\<close>

lemma ready_whole:
  assumes "stream_ok s" "stream_ready s"
  shows "whole_record (st_maximum s) (st_binding s) (st_record s)" "pending s = st_record s"
proof -
  obtain tot where tot: "st_total s = Some tot" "length (st_record s) = tot"
    using assms(2) by (auto simp: stream_ready_def is_some_and_def split: option.splits)
  then have s: "validate_header s = Inr tot" "take HEADER_BYTES (st_record s) = st_header s"
    using assms(1) by (simp_all add: stream_ok_def stream_core_def)
  then show "whole_record (st_maximum s) (st_binding s) (st_record s)"
    using tot header_total_bounds by (auto simp: whole_record_def validate_header_def)
  show "pending s = st_record s" using tot by (simp add: pending_def)
qed

lemma split_pending:
  assumes "stream_ok s"
  shows "split_records (st_maximum s) (st_binding s) (pending s) = (if stream_ready s then [st_record s] else [])"
proof (cases "stream_ready s")
  case True
  then show ?thesis
    using ready_whole [OF assms True] split_records_Cons [of "st_maximum s" "st_binding s" "st_record s" "[]"]
    by (simp add: split_records.simps [of _ _ "[]"])
next
  case False
  show ?thesis
  proof (cases "st_total s")
    case None
    then have "length (pending s) < HEADER_BYTES"
      using assms by (simp add: pending_def stream_ok_def stream_core_def min_less_iff_disj)
    then show ?thesis using False by (simp add: split_records.simps)
  next
    case (Some tot)
    then have "header_total (st_maximum s) (st_binding s) (take HEADER_BYTES (st_record s)) = Inr tot"
      "length (st_record s) < tot"
      using assms False by (auto simp: stream_ok_def stream_core_def validate_header_def stream_ready_def)
    then show ?thesis using False Some by (subst split_records.simps) (simp add: pending_def)
  qed
qed

lemma stream_frame_cases:
  assumes "stream_ok s"
  obtains (frame) "stream_frame now s = (Inr (if stream_ready s then Some (st_record s) else None), s\<lparr>st_last_now := Some now\<rparr>)"
      "\<not> st_closed s" "stream_ok (s\<lparr>st_last_now := Some now\<rparr>)"
    | (over) e t where "stream_frame now s = (Inl e, t)" "stream_over s t"
  using assms
proof (cases rule: stream_tick_cases [where now = now])
  case tick
  then show ?thesis by (intro that(1)) (simp_all add: stream_frame_def stream_ready_def)
next
  case (over e t)
  then show ?thesis by (intro that(2)) (simp_all add: stream_frame_def)
qed

lemma stream_consume_cases:
  assumes "stream_ok s"
  obtains (consumed) t where "stream_consume now s = (Inr (), t)" "\<not> st_closed s" "stream_ready s" "stream_ok t" "\<not> st_closed t"
      "same_policy s t" "pending t = []" "stream_idle t" "st_last_now t = Some now" "st_capacity t = st_capacity s"
    | (waiting) e where "stream_consume now s = (Inl e, s\<lparr>st_last_now := Some now\<rparr>)" "\<not> stream_ready s" "\<not> st_closed s"
      "stream_ok (s\<lparr>st_last_now := Some now\<rparr>)"
    | (over) e t where "stream_consume now s = (Inl e, t)" "stream_over s t"
  using assms
proof (cases rule: stream_tick_cases [where now = now])
  case (over e t)
  then show ?thesis by (intro that(3)) (simp_all add: stream_consume_def)
next
  case tick
  show ?thesis
  proof (cases "stream_ready s")
    case False
    then show ?thesis using tick by (intro that(2)) (simp_all add: stream_consume_def stream_ready_def)
  next
    case True
    let ?t = "s\<lparr>st_last_now := Some now, st_header := replicate HEADER_BYTES 0, st_header_len := 0, st_record := [],
      st_total := None, st_until := None\<rparr>"
    have idle: "stream_idle ?t" by (simp add: stream_idle_def)
    then have "stream_ok ?t"
      by (rule stream_ok_idle)
        (use tick assms in \<open>auto simp: stream_ok_def stream_core_def stream_sized_def\<close>)
    then show ?thesis
      using tick True idle
      by (intro that(1) [of ?t]) (simp_all add: stream_consume_def stream_ready_def same_policy_def pending_def)
  qed
qed

lemma stream_finish_over:
  assumes "stream_ok s"
  shows "stream_over s (snd (stream_finish now s))"
  using assms
proof (cases rule: stream_tick_cases [where now = now])
  case (over e t)
  then show ?thesis by (simp add: stream_finish_def)
next
  case tick
  let ?s = "s\<lparr>st_last_now := Some now\<rparr>"
  have "stream_over s (stream_close ?s)"
    using stream_ok_close [OF tick(3)] by (simp add: stream_over_def same_policy_def)
  moreover have "stream_over s (snd (stream_fail e ?s :: (_ + unit) \<times> _))" for e
    using tick(3) by (auto simp: stream_fail_def stream_over_def same_policy_def stream_close_def stream_idle_def
        stream_ok_def stream_core_def stream_sized_def)
  ultimately show ?thesis using tick(1) by (simp add: stream_finish_def)
qed

section \<open>Runs\<close>

text \<open>
  The stream as a machine: the operations of its callers, in any order, each with its own time
  and its own answers of the allocator. Beside the stream, a run keeps the bytes that the
  stream took and the records that were consumed.
\<close>

datatype stream_op =
    OpPush allocator "byte list" u64
  | OpFrame u64
  | OpConsume u64
  | OpTick u64
  | OpFinish u64
  | OpClose

type_synonym stream_run = "RecordStream \<times> byte list \<times> byte list list"

fun stream_step :: "stream_op \<Rightarrow> stream_run \<Rightarrow> stream_run" where
  "stream_step (OpPush reserve bytes now) (s, taken, delivered) =
     (case stream_push reserve bytes now s of
        (Inr n, s) \<Rightarrow> (s, taken @ take n bytes, delivered)
      | (Inl _, s) \<Rightarrow> (s, taken, delivered))"
| "stream_step (OpFrame now) (s, taken, delivered) = (snd (stream_frame now s), taken, delivered)"
| "stream_step (OpConsume now) (s, taken, delivered) =
     (case stream_consume now s of
        (Inr _, t) \<Rightarrow> (t, taken, delivered @ [st_record s])
      | (Inl _, t) \<Rightarrow> (t, taken, delivered))"
| "stream_step (OpTick now) (s, taken, delivered) = (snd (stream_tick now s), taken, delivered)"
| "stream_step (OpFinish now) (s, taken, delivered) = (snd (stream_finish now s), taken, delivered)"
| "stream_step OpClose (s, taken, delivered) = (stream_close s, taken, delivered)"

fun stream_inv :: "RecordStream \<Rightarrow> stream_run \<Rightarrow> bool" where
  "stream_inv s0 (s, taken, delivered) \<longleftrightarrow>
     stream_ok s \<and> same_policy s0 s \<and> list_all (whole_record (st_maximum s0) (st_binding s0)) delivered
     \<and> prefix (concat delivered) taken \<and> (\<not> st_closed s \<longrightarrow> taken = concat delivered @ pending s)"

lemma stream_inv_over:
  "stream_inv s0 (s, taken, delivered) \<Longrightarrow> stream_over s t \<Longrightarrow> stream_inv s0 (t, taken, delivered)"
  by (auto simp: stream_over_def intro: same_policy_trans)

lemma stream_inv_now:
  "stream_inv s0 (s, taken, delivered) \<Longrightarrow> stream_ok (s\<lparr>st_last_now := now\<rparr>) \<Longrightarrow>
     stream_inv s0 (s\<lparr>st_last_now := now\<rparr>, taken, delivered)"
  by (auto simp: same_policy_def pending_def)

lemma stream_step_inv:
  assumes "stream_inv s0 (s, taken, delivered)"
  shows "stream_inv s0 (stream_step op (s, taken, delivered))"
proof -
  have ok: "stream_ok s" and policy: "same_policy s0 s" using assms by simp_all
  show ?thesis
  proof (cases op)
    case (OpPush reserve bytes now)
    from ok show ?thesis
    proof (cases rule: stream_push_cases [where reserve = reserve and bytes = bytes and now = now])
      case (took n t)
      have taken: "taken = concat delivered @ pending s" and whole: "list_all (whole_record (st_maximum s0) (st_binding s0)) delivered"
        using assms took(3) by simp_all
      have "stream_step op (s, taken, delivered) = (t, taken @ take n bytes, delivered)"
        using OpPush took(1) by simp
      moreover have "prefix (concat delivered) (taken @ take n bytes)" "taken @ take n bytes = concat delivered @ pending t"
        by (simp_all add: taken took(7))
      ultimately show ?thesis
        using took(2) whole same_policy_trans [OF policy took(5)] by (simp only: stream_inv.simps simp_thms)
    next
      case (over e t)
      then show ?thesis using assms OpPush stream_inv_over by (simp del: stream_inv.simps)
    qed
  next
    case (OpFrame now)
    from ok show ?thesis
      using OpFrame assms stream_inv_over stream_inv_now
      by (cases rule: stream_frame_cases [where now = now]) (simp_all del: stream_inv.simps)
  next
    case (OpConsume now)
    from ok show ?thesis
    proof (cases rule: stream_consume_cases [where now = now])
      case (consumed t)
      then show ?thesis
        using assms OpConsume ready_whole [OF ok] policy same_policy_trans [OF policy] by (auto simp: same_policy_def)
    next
      case (waiting e)
      then show ?thesis using OpConsume assms stream_inv_now by (simp del: stream_inv.simps)
    next
      case (over e t)
      then show ?thesis using OpConsume assms stream_inv_over by (simp del: stream_inv.simps)
    qed
  next
    case (OpTick now)
    from ok show ?thesis
      using OpTick assms stream_inv_over stream_inv_now
      by (cases rule: stream_tick_cases [where now = now]) (simp_all del: stream_inv.simps)
  next
    case (OpFinish now)
    then show ?thesis using assms stream_finish_over [OF ok] stream_inv_over by (simp del: stream_inv.simps)
  next
    case OpClose
    have "stream_over s (stream_close s)"
      using stream_ok_close [OF ok] by (simp add: stream_over_def same_policy_def)
    then show ?thesis using OpClose assms stream_inv_over by (simp del: stream_inv.simps)
  qed
qed

interpretation stream_machine: kept_invariant stream_step "stream_inv s0" for s0
proof
  show "stream_inv s0 run \<Longrightarrow> stream_inv s0 (stream_step op run)" for op run
    by (cases run) (simp add: stream_step_inv del: stream_inv.simps)
qed

lemma stream_inv_new:
  assumes "stream_new_inner maximum binding lifetime = Inr s0"
  shows "stream_inv s0 (s0, [], [])" "st_maximum s0 = maximum" "st_binding s0 = binding" "st_lifetime s0 = lifetime"
    "\<not> st_closed s0" "maximum \<le> 65536" "unat lifetime \<le> 5000000"
proof -
  have "stream_idle s0" "stream_sized s0" "st_capacity s0 = 0" "st_failure s0 = None" "pending s0 = []"
    and rest: "st_maximum s0 = maximum" "st_binding s0 = binding" "st_lifetime s0 = lifetime" "\<not> st_closed s0"
    "maximum \<le> 65536" "unat lifetime \<le> 5000000"
    using assms
    by (auto simp: stream_new_inner_def stream_idle_def stream_sized_def pending_def absolute_simps word_le_nat_alt
        word_less_nat_alt split: if_splits)
  then show "stream_inv s0 (s0, [], [])" by (auto intro: stream_ok_idle)
  show "st_maximum s0 = maximum" "st_binding s0 = binding" "st_lifetime s0 = lifetime" "\<not> st_closed s0"
    "maximum \<le> 65536" "unat lifetime \<le> 5000000"
    using rest by simp_all
qed

lemma stream_run_inv:
  assumes "stream_new_inner maximum binding lifetime = Inr s0"
    and "fold stream_step ops (s0, [], []) = (s, taken, delivered)"
  shows "stream_inv s0 (s, taken, delivered)"
  using stream_machine.run_kept [OF stream_inv_new(1) [OF assms(1)], of ops] assms(2) by simp

section \<open>Bounds\<close>

lemma buffered_pending: "stream_ok s \<Longrightarrow> buffered_bytes s = length (pending s)"
  by (auto simp: buffered_bytes_def pending_def stream_ok_def stream_core_def stream_sized_def split: option.splits)

lemma buffered_maximum: "stream_ok s \<Longrightarrow> buffered_bytes s \<le> st_maximum s"
  by (auto simp: buffered_bytes_def stream_ok_def stream_core_def stream_sized_def validate_header_def
      dest!: header_total_bounds split: option.splits)

lemma buffered_deadline: "stream_ok s \<Longrightarrow> st_until s = None \<longleftrightarrow> buffered_bytes s = 0"
proof -
  assume ok: "stream_ok s"
  have "HEADER_BYTES \<le> length (st_record s)" if "st_total s = Some tot" for tot
  proof -
    have "take HEADER_BYTES (st_record s) = st_header s" "length (st_header s) = HEADER_BYTES"
      using ok that by (simp_all add: stream_ok_def stream_core_def stream_sized_def)
    then show ?thesis by (metis length_take min_def nle_le)
  qed
  then show ?thesis
    using ok by (cases "st_total s") (auto simp: buffered_bytes_def stream_ok_def stream_core_def HEADER_BYTES_def)
qed

lemma fail_until [simp]: "st_until (snd (stream_fail e s)) = None" "stream_fail e s \<noteq> (Inr x, t)"
  by (simp_all add: stream_fail_def stream_close_def)

lemma tick_until: "st_until (snd (stream_tick now s)) \<in> {st_until s, None}"
  by (auto simp: stream_tick_def Let_def split: option.split)

lemma extend_until: "st_until (snd (extend_record consumed bytes s)) = st_until s"
  by (auto simp: extend_record_def Let_def split: option.split)

lemma accept_until: "st_until (snd (accept_header reserve s)) \<in> {st_until s, None}"
  by (auto simp: accept_header_def Let_def split: option.split sum.split)

lemma fill_until: "st_until (snd (fill_header bytes s)) = st_until s"
  by (simp add: fill_header_def Let_def)

lemma tick_InrD: "stream_tick now s = (Inr x, t) \<Longrightarrow> t = s\<lparr>st_last_now := Some now\<rparr>"
  by (auto simp: stream_tick_def Let_def split: option.splits if_splits)

lemma push_until:
  assumes "st_until s = Some until"
  shows "st_until (snd (stream_push reserve bytes now s)) \<in> {Some until, None}"
proof (cases "stream_tick now s")
  case (Pair r t)
  show ?thesis
  proof (cases r)
    case (Inl e)
    then show ?thesis using Pair tick_until [of now s] assms by (simp add: stream_push_def)
  next
    case (Inr x)
    then have t: "st_until t = Some until" using Pair tick_InrD assms by fastforce
    then have start: "start_deadline now t = (Inr (), t)" by (simp add: start_deadline_def)
    obtain n u where fill: "fill_header bytes t = (n, u)" by (cases "fill_header bytes t")
    have "st_until u = Some until" using fill_until [of bytes t] fill t by simp
    then have "st_until (snd (try_then (fails (accept_header reserve u)) (\<lambda>_ s. extend_record n bytes s))) \<in> {Some until, None}"
      using accept_until [of reserve u]
      by (cases "accept_header reserve u"; cases "fst (accept_header reserve u)") (auto simp: extend_until)
    then show ?thesis
      using Pair Inr t start fill \<open>st_until u = Some until\<close> extend_until [of 0 bytes t] by (simp add: stream_push_def)
  qed
qed

lemma push_new_until:
  assumes "st_until s = None"
  shows "st_until (snd (stream_push reserve bytes now s)) \<in> {None, checked_add now (st_lifetime s)}"
proof (cases "stream_tick now s")
  case (Pair r t)
  show ?thesis
  proof (cases r)
    case (Inl e)
    then show ?thesis using Pair tick_until [of now s] assms by (simp add: stream_push_def)
  next
    case (Inr x)
    then have t: "t = s\<lparr>st_last_now := Some now\<rparr>" using Pair tick_InrD by blast
    let ?a = "checked_add now (st_lifetime s)"
    have after: "st_until (snd (try_then (fails (start_deadline now t)) k)) \<in> {None, ?a}"
      if "\<And>u. st_until u \<in> {None, ?a} \<Longrightarrow> st_until (snd (k () u)) \<in> {None, ?a}" for k :: "unit \<Rightarrow> RecordStream \<Rightarrow> (RecordStream, stream_stop, nat) outcome"
      using that assms t by (cases ?a) (auto simp: start_deadline_def stream_fail_def stream_close_def)
    have accept: "st_until (snd (try_then (fails (accept_header reserve u)) (\<lambda>_ s. extend_record n bytes s))) \<in> {None, ?a}"
      if "st_until u \<in> {None, ?a}" for n u
      using that accept_until [of reserve u]
      by (cases "accept_header reserve u"; cases "fst (accept_header reserve u)") (auto simp: extend_until)
    show ?thesis
    proof (cases "bytes = [] \<or> stream_ready t")
      case True
      then show ?thesis using Pair Inr t assms by (auto simp: stream_push_def)
    next
      case False
      let ?rest = "\<lambda>(_ :: unit) s. if st_header_len s < HEADER_BYTES
        then let (consumed, s) = fill_header bytes s in
             if st_header_len s < HEADER_BYTES then (Inr consumed, s)
             else try_then (fails (accept_header reserve s)) (\<lambda>_ s. extend_record consumed bytes s)
        else extend_record 0 bytes s"
      have push: "stream_push reserve bytes now s = try_then (fails (start_deadline now t)) ?rest"
        using False Pair Inr by (simp add: stream_push_def)
      have "st_until (snd (?rest () u)) \<in> {None, ?a}" if u: "st_until u \<in> {None, ?a}" for u
        using u fill_until [of bytes u] extend_until [of 0 bytes u]
          accept [of "snd (fill_header bytes u)" "fst (fill_header bytes u)"]
        by (simp add: Let_def case_prod_beta)
      then show ?thesis unfolding push by (rule after)
    qed
  qed
qed

lemma step_until:
  assumes "st_until s = Some until"
  shows "st_until (fst (stream_step op (s, taken, delivered))) \<in> {Some until, None}"
proof (cases op)
  case (OpPush reserve bytes now)
  then show ?thesis using push_until [OF assms, of reserve bytes now]
    by (auto split: prod.splits sum.splits)
next
  case (OpFrame now)
  then show ?thesis
    using tick_until [of now s] assms by (auto simp: stream_frame_def split: try_then_split)
next
  case (OpConsume now)
  then show ?thesis
    using tick_until [of now s] assms by (auto simp: stream_consume_def split: prod.split sum.split try_then_split)
next
  case (OpTick now)
  then show ?thesis using tick_until [of now s] assms by auto
next
  case (OpFinish now)
  then show ?thesis
    using tick_until [of now s] assms by (auto simp: stream_finish_def stream_close_def split: try_then_split)
next
  case OpClose
  then show ?thesis by (simp add: stream_close_def)
qed

lemma tick_expired:
  assumes "stream_ok s" "st_until s = Some until" "until \<le> now"
  shows "fst (stream_tick now s) \<noteq> Inr () \<and> stream_over s (snd (stream_tick now s))"
  using assms(1)
proof (cases rule: stream_tick_cases [where now = now])
  case tick
  then have "now < until" using assms(2) by (simp add: stream_ok_def stream_core_def)
  then show ?thesis using assms(3) by simp
next
  case (over e t)
  then show ?thesis by simp
qed

section \<open>Progress\<close>

text \<open>The time of a call is in order and before the deadline, and a new deadline can be set.\<close>

definition timely :: "u64 \<Rightarrow> RecordStream \<Rightarrow> bool" where
  "timely now s \<longleftrightarrow> is_none_or (\<lambda>old. old \<le> now) (st_last_now s) \<and> is_none_or (\<lambda>until. now < until) (st_until s)
     \<and> unat now + unat (st_lifetime s) < 2 ^ 64"

text \<open>An allocator that grants every growth up to the maximum, with a capacity up to the maximum.\<close>

definition grants_within :: "nat \<Rightarrow> allocator \<Rightarrow> bool" where
  "grants_within maximum reserve \<longleftrightarrow> (\<forall>n \<le> maximum. is_some_and (\<lambda>c. c \<le> maximum) (reserve n))"

lemma try_reserve_within:
  assumes "grants_within maximum reserve" "wanted \<le> maximum" "capacity \<le> maximum"
  obtains c where "try_reserve_exact reserve capacity wanted = Some c" "c \<le> maximum"
proof (cases "wanted \<le> capacity")
  case True
  then show ?thesis using that assms(3) by (simp add: try_reserve_exact_def)
next
  case False
  moreover have "is_some_and (\<lambda>c. c \<le> maximum) (reserve wanted)" using assms(1,2) by (simp add: grants_within_def)
  ultimately show ?thesis
    using that assms(2) by (cases "reserve wanted") (auto simp: try_reserve_exact_def)
qed

definition exact_allocator :: allocator where
  "exact_allocator wanted = Some wanted"

lemma exact_within: "grants_within maximum exact_allocator"
  by (simp add: grants_within_def exact_allocator_def)

lemma tick_timely:
  assumes "stream_ok s" "\<not> st_closed s" "timely now s"
  shows "stream_tick now s = (Inr (), s\<lparr>st_last_now := Some now\<rparr>)"
proof -
  have "st_failure s = None" using assms(1,2) by (cases "st_failure s") (simp_all add: stream_ok_def stream_core_def)
  then show ?thesis
    using assms(2,3)
    by (auto simp: stream_tick_def timely_def is_some_and_def is_none_or_def Let_def split: option.splits)
qed

text \<open>
  A stream whose bytes so far and to come begin a whole record takes them without an error.
\<close>

lemma push_timely:
  assumes "stream_ok s" "\<not> st_closed s" "timely now s" "\<not> stream_ready s"
    and f: "whole_record (st_maximum s) (st_binding s) f" "pending s @ bytes = f @ later \<or> prefix (pending s @ bytes) f"
    and grants: "grants_within (st_maximum s) reserve"
  obtains n t where "stream_push reserve bytes now s = (Inr n, t)"
  using assms(1)
proof (cases rule: stream_push_cases [where reserve = reserve and bytes = bytes and now = now])
  case (took n t)
  then show ?thesis by (intro that)
next
  case (over e t)
  let ?s = "s\<lparr>st_last_now := Some now\<rparr>"
  note tick = tick_timely [OF assms(1-3)]
  have nonempty: "bytes \<noteq> []" using over tick by (auto simp: stream_push_def)
  obtain u where start: "start_deadline now ?s = (Inr (), u)" and u: "st_header u = st_header s"
    "st_header_len u = st_header_len s" "st_record u = st_record s" "st_total u = st_total s"
    "st_capacity u = st_capacity s" "same_policy s u"
  proof (cases "st_until s")
    case None
    then obtain until where "checked_add now (st_lifetime s) = Some until"
      using assms(3) by (auto simp: timely_def checked_add_def)
    then show ?thesis
      using None by (intro that [of "?s\<lparr>st_until := Some until\<rparr>"]) (simp_all add: start_deadline_def same_policy_def)
  next
    case (Some until)
    then show ?thesis by (intro that [of ?s]) (simp_all add: start_deadline_def same_policy_def)
  qed
  have push: "stream_push reserve bytes now s =
      (if st_header_len u < HEADER_BYTES then
         let (consumed, s) = fill_header bytes u in
         if st_header_len s < HEADER_BYTES then (Inr consumed, s)
         else try_then (fails (accept_header reserve s)) (\<lambda>_ s. extend_record consumed bytes s)
       else extend_record 0 bytes u)"
    using tick start nonempty assms(4) by (simp add: stream_push_def stream_ready_def)
  show ?thesis
  proof (cases "st_total s")
    case (Some tot)
    then have "st_header_len u = HEADER_BYTES" "length (st_record u) \<le> tot"
      using assms(1) u by (simp_all add: stream_ok_def stream_core_def)
    then show ?thesis using over(1) u(4) Some by (simp add: push extend_record_def Let_def)
  next
    case None
    have s: "st_header_len s < HEADER_BYTES" "st_record s = []" "length (st_header s) = HEADER_BYTES"
      "st_capacity s \<le> st_maximum s"
      using assms(1) None by (simp_all add: stream_ok_def stream_core_def stream_sized_def)
    define n where "n = min (HEADER_BYTES - st_header_len s) (length bytes)"
    define v where "v = snd (fill_header bytes u)"
    have fill: "fill_header bytes u = (n, v)" by (simp add: v_def fill_header_def n_def u(2) Let_def)
    have v: "st_header_len v = st_header_len s + n" "st_record v = []" "st_capacity v = st_capacity s" "same_policy s v"
      "st_header v = take (st_header_len s) (st_header s) @ take n bytes @ drop (st_header_len s + n) (st_header s)"
      using u s(2) by (simp_all add: v_def fill_header_def n_def Let_def same_policy_def)
    have full: "st_header_len s + n = HEADER_BYTES"
      using over(1) fill v(1) u(2) s(1) by (auto simp: push n_def min_def split: if_splits)
    have "HEADER_BYTES \<le> length (pending s @ bytes)" using full None s(1,3) by (simp add: pending_def n_def)
    then have "take HEADER_BYTES (pending s @ bytes) = take HEADER_BYTES f"
      using f by (auto simp: whole_record_def prefix_def simp del: take_append length_append)
        (simp_all add: take_append)
    moreover have "st_header v = take HEADER_BYTES (pending s @ bytes)"
      using v(5) full s None by (simp add: pending_def min_def n_def)
    ultimately have "validate_header v = Inr (length f)"
      using f(1) v(4) by (simp add: validate_header_def whole_record_def same_policy_def)
    moreover have "length f \<le> st_maximum s" "HEADER_BYTES \<le> length f" "n \<le> length bytes"
      using f(1) header_total_bounds by (auto simp: whole_record_def n_def)
    moreover have "length (st_header v) = HEADER_BYTES" using v(5) full s by (simp add: n_def)
    moreover obtain c where "try_reserve_exact reserve (st_capacity s) (length f) = Some c" "c \<le> st_maximum s"
      using try_reserve_within [OF grants calculation(2) s(4)] .
    ultimately show ?thesis
      using over(1) fill v(1-4) u(2) s full
      by (simp add: push accept_header_def extend_record_def same_policy_def Let_def)
  qed
qed

section \<open>An example\<close>

definition example_stream :: RecordStream where
  "example_stream = \<lparr>st_maximum = 4096, st_lifetime = 1000, st_binding = 7, st_header = replicate HEADER_BYTES 0,
     st_header_len = 0, st_record = [], st_capacity = 0, st_total = None, st_until = None, st_last_now = None,
     st_failure = None, st_closed = False\<rparr>"

definition example_record :: "byte list" where
  "example_record = frame KText 7 [1, 2] []"

lemma example_stream_new: "stream_new_inner 4096 7 1000 = Inr example_stream"
  by (simp add: stream_new_inner_def example_stream_def absolute_simps HEADER_BYTES_def)

lemma example_record_whole: "whole_record 4096 7 example_record"
  unfolding example_record_def by (rule frame_whole) (simp_all add: HEADER_BYTES_def)

text \<open>The whole record in one chunk.\<close>

lemma example_push:
  obtains s where "stream_push exact_allocator example_record 1 example_stream = (Inr 26, s)"
    "fold stream_step [OpPush exact_allocator example_record 1] (example_stream, [], []) = (s, example_record, [])"
    "\<not> st_closed s"
proof -
  note new = stream_inv_new [OF example_stream_new]
  have start: "stream_ok example_stream" "\<not> stream_ready example_stream" "pending example_stream = []"
    "timely 1 example_stream" "st_maximum example_stream = 4096" "st_binding example_stream = 7"
    using new(1) by (simp_all add: example_stream_def stream_ready_def pending_def timely_def is_none_or_def)
  have len: "length example_record = 26" by (simp add: example_record_def length_frame)
  obtain k t where push: "stream_push exact_allocator example_record 1 example_stream = (Inr k, t)"
    using push_timely [OF start(1) new(5) start(4,2), of example_record example_record "[]", OF _ _ exact_within] start example_record_whole
    by auto
  from start(1) show ?thesis
  proof (cases rule: stream_push_cases [where reserve = exact_allocator and bytes = example_record and now = 1])
    case (took n s)
    have "n = 26"
    proof (cases "n = length example_record")
      case False
      then have ready: "stream_ready s" using took(8) start(2) by simp
      have "whole_record 4096 7 (take n example_record)"
        using ready_whole [OF took(2) ready] took(5,7) start by (simp add: same_policy_def)
      then have "split_records 4096 7 example_record = take n example_record # split_records 4096 7 (drop n example_record)"
        using split_records_Cons [of 4096 7 "take n example_record" "drop n example_record"] by simp
      then have "take n example_record = example_record"
        using split_records_Cons [OF example_record_whole, of "[]"] by simp
      then have "length (take n example_record) = length example_record" by (rule arg_cong)
      then show ?thesis using took(6) len by simp
    qed (use len in simp)
    then show ?thesis using took len by (intro that [of s]) simp_all
  next
    case (over e s)
    then show ?thesis using push by simp
  qed
qed

section \<open>Properties\<close>

text \<open>
  C36. Framing does not depend on how the bytes arrive. Whatever its callers do, in whatever
  chunks and at whatever times, as long as the stream is open, the records consumed so far and
  the one that is waiting are exactly the records of the bytes it took, cut as a whole. After an
  error or the end, what was consumed is still a prefix of them: no byte was lost, repeated or
  reordered, and no record was made up.
\<close>

theorem framing_is_independent_of_chunks:
  assumes "stream_new_inner maximum binding lifetime = Inr s0"
    and "fold stream_step ops (s0, [], []) = (s, taken, delivered)"
  shows "(\<not> st_closed s \<longrightarrow>
      delivered @ (if stream_ready s then [st_record s] else []) = split_records maximum binding taken
      \<and> taken = concat delivered @ pending s)
    \<and> prefix delivered (split_records maximum binding taken)"
proof -
  note inv = stream_run_inv [OF assms] and new = stream_inv_new [OF assms(1)]
  have policy: "st_maximum s = maximum" "st_binding s = binding" using inv new by (simp_all add: same_policy_def)
  have whole: "list_all (whole_record maximum binding) delivered" using inv new by simp
  obtain rest where "taken = concat delivered @ rest" using inv by (auto simp: prefix_def)
  then have "split_records maximum binding taken = delivered @ split_records maximum binding rest"
    using split_records_concat [OF whole] by simp
  moreover have "delivered @ (if stream_ready s then [st_record s] else []) = split_records maximum binding taken"
    "taken = concat delivered @ pending s" if "\<not> st_closed s"
    using that inv split_records_concat [OF whole, of "pending s"] split_pending [of s] policy by simp_all
  ultimately show ?thesis by auto
qed

theorem framing_is_independent_of_chunks_witness:
  "\<exists>s. fold stream_step [OpPush exact_allocator example_record 1] (example_stream, [], []) = (s, example_record, [])
     \<and> stream_ready s \<and> st_record s = example_record"
proof -
  obtain s where "stream_push exact_allocator example_record 1 example_stream = (Inr 26, s)"
    and s: "fold stream_step [OpPush exact_allocator example_record 1] (example_stream, [], []) = (s, example_record, [])"
    "\<not> st_closed s"
    by (rule example_push)
  have "(if stream_ready s then [st_record s] else []) = split_records 4096 7 example_record"
    using framing_is_independent_of_chunks [OF example_stream_new s(1)] s(2) by simp
  then have "(if stream_ready s then [st_record s] else []) = [example_record]"
    using split_records_Cons [OF example_record_whole, of "[]"] by (simp add: split_records.simps [of _ _ "[]"])
  then show ?thesis using s(1) by (auto split: if_splits)
qed

text \<open>
  C37. A stream is bounded in space and time. It never holds or allocates more than its
  maximum, at most 64 KiB, and no push panics. As long as bytes of a record are held, a
  deadline is set that lies ahead of the last time it was told, by at most 5 seconds; it does not move while the record is held, and once it has passed every operation
  is refused and nothing is held any more.
\<close>

theorem stream_is_bounded:
  assumes "stream_new_inner maximum binding lifetime = Inr s0"
    and "fold stream_step ops (s0, [], []) = (s, taken, delivered)"
  shows "buffered_bytes s \<le> maximum \<and> st_capacity s \<le> maximum \<and> maximum \<le> 65536
    \<and> fst (stream_push reserve bytes now s) \<noteq> Inl Panics
    \<and> (st_until s = None \<longleftrightarrow> buffered_bytes s = 0)
    \<and> (\<forall>until. st_until s = Some until \<longrightarrow>
         (\<exists>last. st_last_now s = Some last \<and> last < until \<and> unat until \<le> unat last + 5000000)
         \<and> st_until (fst (stream_step op (s, taken, delivered))) \<in> {Some until, None}
         \<and> (until \<le> now \<longrightarrow> (let t = snd (stream_tick now s) in
              fst (stream_tick now s) \<noteq> Inr () \<and> st_closed t \<and> buffered_bytes t = 0 \<and> st_capacity t = 0)))"
proof -
  note inv = stream_run_inv [OF assms] and new = stream_inv_new [OF assms(1)]
  have ok: "stream_ok s" and policy: "st_maximum s = maximum" "st_lifetime s = lifetime"
    using inv new by (simp_all add: same_policy_def)
  have push: "fst (stream_push reserve bytes now s) \<noteq> Inl Panics"
    using ok by (cases rule: stream_push_cases [where reserve = reserve and bytes = bytes and now = now]) simp_all
  have deadline: "\<exists>last. st_last_now s = Some last \<and> last < until \<and> unat until \<le> unat last + 5000000"
    if "st_until s = Some until" for until
    using ok that policy(2) new(7)
    by (auto simp: stream_ok_def stream_core_def is_some_and_def split: option.splits)
  have over: "buffered_bytes t = 0" "st_capacity t = 0" "st_closed t" if "stream_over s t" for t
    using that by (auto simp: stream_over_def stream_ok_def stream_core_def stream_idle_def buffered_bytes_def)
  show ?thesis
    using buffered_maximum [OF ok] buffered_deadline [OF ok] policy new(6) ok push deadline step_until
      tick_expired [OF ok] over
    by (auto simp: stream_ok_def stream_core_def Let_def)
qed

theorem stream_is_bounded_witness:
  "\<exists>s. fold stream_step [OpPush exact_allocator example_record 1] (example_stream, [], []) = (s, example_record, [])
     \<and> buffered_bytes s \<le> 4096 \<and> st_capacity s \<le> 4096 \<and> fst (stream_push exact_allocator [0] 2 s) \<noteq> Inl Panics"
proof -
  obtain s where "stream_push exact_allocator example_record 1 example_stream = (Inr 26, s)"
    and s: "fold stream_step [OpPush exact_allocator example_record 1] (example_stream, [], []) = (s, example_record, [])"
    and "\<not> st_closed s"
    by (rule example_push)
  show ?thesis
    using stream_is_bounded [OF example_stream_new s, of exact_allocator "[0]" 2] s by blast
qed

end
