(* ===== verification/Inspection.thy ===== *)
theory Inspection
  imports Ticket_Profile Record_Stream
begin

text \<open>
  Capability inspection, after \<open>fr-wire/src/inspection.rs\<close>: a client that only asks what a host offers
  marks its offer with a required capability, gets the common offer with the same mark, and ends with
  two fixed records that need no session.
\<close>

section \<open>Offers\<close>

definition INSPECTION_CAPABILITY :: "byte list" where
  "INSPECTION_CAPABILITY = name_of ''native-capability-inspection''"

definition INSPECTION_VERSION :: u16 where
  "INSPECTION_VERSION = 1"

definition prepare_offer :: "memory \<Rightarrow> Offer \<Rightarrow> NegotiationError + Offer" where
  "prepare_offer mem offer =
     try_res (offer_validate offer) (\<lambda>_.
     if of_role offer \<noteq> Observe then Inl NInvalid
     else case find (\<lambda>c. cap_name c = INSPECTION_CAPABILITY) (of_capabilities offer) of
         Some marker \<Rightarrow>
           if cap_version marker = INSPECTION_VERSION \<and> cap_required marker then Inr offer else Inl NRequiredCapability
       | None \<Rightarrow>
           if length (of_capabilities offer) \<ge> MAX_CAPABILITIES then Inl NInvalid
           else if \<not> mem ReserveMark then Inl NAllocation
           else
             let offer = offer\<lparr>of_capabilities := sort_key cap_name (of_capabilities offer
                   @ [\<lparr>cap_name = INSPECTION_CAPABILITY, cap_version = INSPECTION_VERSION, cap_required = True\<rparr>])\<rparr>
             in try_res (offer_validate offer) (\<lambda>_. Inr offer))"

definition requested :: "Offer \<Rightarrow> bool" where
  "requested offer \<longleftrightarrow> of_role offer = Observe
     \<and> list_ex (\<lambda>c. cap_name c = INSPECTION_CAPABILITY \<and> cap_version c = INSPECTION_VERSION \<and> cap_required c)
         (of_capabilities offer)"

definition inspection_intersect :: "memory \<Rightarrow> Offer \<Rightarrow> Offer \<Rightarrow> NegotiationError + Offer" where
  "inspection_intersect mem host peer =
     try_res (offer_validate host) (\<lambda>_.
     try_res (offer_validate peer) (\<lambda>_.
     if \<not> requested peer then Inl NRequiredCapability
     else
       let diagnostic = peer\<lparr>of_capabilities :=
             filter (\<lambda>c. cap_name c \<noteq> INSPECTION_CAPABILITY) (of_capabilities peer)\<rparr>
       in try_res (intersect mem host diagnostic) (prepare_offer mem)))"

section \<open>Terminal records\<close>

text \<open>The terminal records of an inspection, \<open>CloseRequest\<close> and \<open>Closed\<close> with their only admitted payloads.\<close>

definition inspection_header :: "nat \<Rightarrow> Kind \<Rightarrow> byte \<Rightarrow> byte list" where
  "inspection_header len kind payload =
     (let bytes = replicate len 0;
          bytes = bytes[0 := 0x46, 1 := 0x52, 2 := 0x44, 3 := 0x30];
          code = to_be_bytes (kind_code kind)
      in bytes[6 := code ! 0, 7 := code ! 1, 15 := payload])"

definition INSPECTION_REQUEST :: "byte list" where
  "INSPECTION_REQUEST =
     (let reason = to_be_bytes (4 :: u16) in
      (inspection_header CLOSE_REQUEST_BYTES KCloseRequest 19)
        [HEADER_BYTES + 16 := 1, HEADER_BYTES + 17 := reason ! 0, HEADER_BYTES + 18 := reason ! 1])"

definition INSPECTION_CLOSED :: "byte list" where
  "INSPECTION_CLOSED =
     (let reason = to_be_bytes (1 :: u16) in
      (inspection_header CLOSED_BYTES KClosed 28)
        [HEADER_BYTES + 16 := reason ! 0, HEADER_BYTES + 17 := reason ! 1, HEADER_BYTES + 18 := 2, HEADER_BYTES + 19 := 1])"

definition inspection_encode :: "byte list \<Rightarrow> nat \<Rightarrow> byte list \<Rightarrow> (byte list, WireError, nat) outcome" where
  "inspection_encode bytes maximum out =
     (if length bytes > min maximum MAX_RECORD then (Inl ResourceLimit, out)
      else if length out < length bytes then (Inl BufferTooSmall, out)
      else (Inr (length bytes), bytes @ drop (length bytes) out))"

definition inspection_decode :: "byte list \<Rightarrow> nat \<Rightarrow> byte list \<Rightarrow> WireError + unit" where
  "inspection_decode bytes maximum expected =
     (if length bytes > min maximum MAX_RECORD then Inl ResourceLimit
      else if bytes \<noteq> expected then Inl InvalidValue
      else Inr ())"

section \<open>Lemmas\<close>

definition marker :: NamedCapability where
  "marker = \<lparr>cap_name = INSPECTION_CAPABILITY, cap_version = INSPECTION_VERSION, cap_required = True\<rparr>"

definition unmarked :: "Offer \<Rightarrow> Offer" where
  "unmarked offer = offer\<lparr>of_capabilities := filter (\<lambda>c. cap_name c \<noteq> INSPECTION_CAPABILITY) (of_capabilities offer)\<rparr>"

lemma marker_valid: "capability_valid marker"
  by (simp add: capability_valid_def marker_def INSPECTION_CAPABILITY_def INSPECTION_VERSION_def name_of_def name_byte_def)

lemma requested_iff: "requested offer \<longleftrightarrow> of_role offer = Observe \<and> marker \<in> set (of_capabilities offer)"
proof -
  have "(\<lambda>c. cap_name c = INSPECTION_CAPABILITY \<and> cap_version c = INSPECTION_VERSION \<and> cap_required c) = (\<lambda>c. c = marker)"
    by (auto simp: marker_def fun_eq_iff)
  then show ?thesis by (simp add: requested_def list_ex_iff)
qed

lemma capabilities_valid_insert:
  assumes "capabilities_valid caps" "cap_name c \<notin> cap_name ` set caps" "capability_valid c" "length caps < 24"
  shows "capabilities_valid (sort_key cap_name (caps @ [c]))"
proof -
  have "sorted (map cap_name (sort_key cap_name (caps @ [c])))" by (rule sorted_sort_key)
  moreover have "distinct (map cap_name (caps @ [c]))" using assms(1,2) by (simp add: capabilities_valid_def strict_sorted_iff)
  then have "distinct (map cap_name (sort_key cap_name (caps @ [c])))"
    unfolding distinct_map distinct_sort set_sort .
  ultimately show ?thesis
    using assms by (simp add: capabilities_valid_def strict_sorted_iff list_all_iff)
qed

text \<open>An offer without the mark gets it, in its place, whenever one of the 24 slots is free.\<close>

lemma prepare_unmarked:
  assumes "mem ReserveMark" "offer_validate offer = Inr ()" "of_role offer = Observe" "length (of_capabilities offer) < 24"
    and "INSPECTION_CAPABILITY \<notin> cap_name ` set (of_capabilities offer)"
  obtains caps where "prepare_offer mem offer = Inr (offer\<lparr>of_capabilities := caps\<rparr>)"
    "offer_validate (offer\<lparr>of_capabilities := caps\<rparr>) = Inr ()" "set caps = insert marker (set (of_capabilities offer))"
proof
  let ?caps = "sort_key cap_name (of_capabilities offer @ [marker])"
  have "capabilities_valid ?caps"
    using assms marker_valid by (intro capabilities_valid_insert) (auto simp: offer_validate_iff marker_def image_iff)
  then show valid: "offer_validate (offer\<lparr>of_capabilities := ?caps\<rparr>) = Inr ()" using assms(2) by (simp add: offer_validate_iff)
  have "find (\<lambda>c. cap_name c = INSPECTION_CAPABILITY) (of_capabilities offer) = None"
    using assms(5) by (auto simp: find_None_iff image_iff)
  then show "prepare_offer mem offer = Inr (offer\<lparr>of_capabilities := ?caps\<rparr>)"
    using assms valid by (simp add: prepare_offer_def MAX_CAPABILITIES_def Let_def marker_def)
  show "set ?caps = insert marker (set (of_capabilities offer))" by simp
qed

lemma names_subset_length:
  assumes "capabilities_valid a" "capabilities_valid b" "cap_name ` set a \<subseteq> cap_name ` set b"
  shows "length a \<le> length b"
proof -
  have "length caps = card (cap_name ` set caps)" if "capabilities_valid caps" for caps
    using that distinct_card [of "map cap_name caps"] by (simp add: capabilities_valid_def strict_sorted_iff)
  then show ?thesis using assms card_mono [OF _ assms(3)] by simp
qed

text \<open>The client's check of an answer holds with the mark on both sides as it does without.\<close>

lemma check_host_marked:
  assumes "check_host (unmarked peer) common = Inr ()" "offer_validate peer = Inr ()" "marker \<in> set (of_capabilities peer)"
    and "offer_validate (common\<lparr>of_capabilities := new\<rparr>) = Inr ()" "set new = insert marker (set (of_capabilities common))"
  shows "check_host peer (common\<lparr>of_capabilities := new\<rparr>) = Inr ()"
proof -
  have mark: "c = marker" if "c \<in> set (of_capabilities peer)" "cap_name c = INSPECTION_CAPABILITY" for c
    using that assms(2,3) same_name [of "of_capabilities peer" c marker] by (simp add: offer_validate_iff marker_def)
  have own: "\<exists>x \<in> set (of_capabilities peer). same_capability marker x" using assms(3) by (auto intro: bexI [of _ marker])
  have "\<not> list_ex (\<lambda>c. \<not> list_ex (same_capability c) (of_capabilities peer)) new"
    using assms(1,5) own by (auto simp: check_host_def try_res_Inr_iff unmarked_def list_ex_iff split: if_splits)
  moreover have "\<not> list_ex (\<lambda>c. cap_required c \<and> \<not> list_ex (\<lambda>p. same_capability c p \<and> cap_required p) new) (of_capabilities peer)"
    using assms(1,5) mark by (auto simp: check_host_def try_res_Inr_iff unmarked_def list_ex_iff marker_def split: if_splits)
  ultimately show ?thesis
    using assms(1,2,4) by (auto simp: check_host_def try_res_Inr_iff unmarked_def split: if_splits)
qed

lemma names_of_common:
  assumes "intersect mem host peer = Inr common"
  shows "cap_name ` set (of_capabilities common) \<subseteq> cap_name ` set (of_capabilities peer)"
proof
  have valid: "capabilities_valid (of_capabilities peer)"
    and caps: "of_capabilities common = common_capabilities (of_capabilities host) (of_capabilities peer)"
    using assms by (auto simp: intersect_iff offer_validate_iff)
  fix name assume "name \<in> cap_name ` set (of_capabilities common)"
  then show "name \<in> cap_name ` set (of_capabilities peer)"
    unfolding caps by (auto simp: in_common_capabilities [OF valid] same_capability_def image_iff) (metis)
qed

lemma unmarked_common:
  assumes "intersect mem host (unmarked peer) = Inr common"
  shows "find (\<lambda>c. cap_name c = INSPECTION_CAPABILITY) (of_capabilities common) = None"
    and "INSPECTION_CAPABILITY \<notin> cap_name ` set (of_capabilities common)"
proof -
  show free: "INSPECTION_CAPABILITY \<notin> cap_name ` set (of_capabilities common)"
    using names_of_common [OF assms] by (auto simp: unmarked_def)
  then show "find (\<lambda>c. cap_name c = INSPECTION_CAPABILITY) (of_capabilities common) = None"
    by (auto simp: find_None_iff image_iff)
qed

text \<open>
  An inspection is answered exactly when it was asked for and the offers without the mark have
  common ground: the mark never lacks one of the 24 slots, only the memory for it can be lacking. The answer is marked, and the client's ordinary check of
  it succeeds.
\<close>

theorem inspection_is_answered:
  "(is_ok (inspection_intersect mem host peer) \<longleftrightarrow>
      offer_validate peer = Inr () \<and> requested peer \<and> is_ok (intersect mem host (unmarked peer)) \<and> mem ReserveMark)
   \<and> (inspection_intersect mem host peer = Inr offer \<longrightarrow> requested offer \<and> check_host peer offer = Inr ())"
proof -
  let ?common = "intersect mem host (unmarked peer)"
  have answer: "inspection_intersect mem host peer =
      try_res (offer_validate host) (\<lambda>_. try_res (offer_validate peer) (\<lambda>_.
        if \<not> requested peer then Inl NRequiredCapability else try_res ?common (prepare_offer mem)))"
    by (simp add: inspection_intersect_def unmarked_def Let_def)
  have step: "\<exists>offer. prepare_offer mem common = Inr offer \<and> requested offer \<and> check_host peer offer = Inr ()"
    if mark: "mem ReserveMark" and peer: "offer_validate peer = Inr ()" "requested peer" and common: "?common = Inr common" for common
  proof -
    have caps: "of_role common = Observe" "capabilities_valid (of_capabilities (unmarked peer))"
      using common peer(2) by (auto simp: intersect_iff offer_validate_iff unmarked_def requested_def)
    note names = names_of_common [OF common] and free = unmarked_common(2) [OF common]
    have "length (of_capabilities common) \<le> length (of_capabilities (unmarked peer))"
      using intersect_valid [OF common] caps(2) by (intro names_subset_length names) (simp_all add: offer_validate_iff)
    also have "\<dots> < length (of_capabilities peer)"
      using peer(2) by (auto simp: requested_iff unmarked_def marker_def intro!: length_filter_less)
    finally have fewer: "length (of_capabilities common) < 24"
      using peer(1) by (simp add: offer_validate_iff capabilities_valid_def)
    obtain new where new: "prepare_offer mem common = Inr (common\<lparr>of_capabilities := new\<rparr>)"
      "offer_validate (common\<lparr>of_capabilities := new\<rparr>) = Inr ()" "set new = insert marker (set (of_capabilities common))"
      by (rule prepare_unmarked [where mem = mem, OF mark intersect_valid [OF common] caps(1) fewer free])
    have "check_host peer (common\<lparr>of_capabilities := new\<rparr>) = Inr ()"
      using peer new by (intro check_host_marked [OF intersect_checked [OF common]]) (simp_all add: requested_iff)
    then show ?thesis using new caps(1) by (auto simp: requested_iff)
  qed
  have needed: "mem ReserveMark"
    if peer: "requested peer" and common: "?common = Inr common" and prepared: "prepare_offer mem common = Inr offer" for common offer
    using prepared unmarked_common [OF common] by (auto simp: prepare_offer_def try_res_Inr_iff split: option.splits if_splits)
  show ?thesis
    using step needed by (auto simp: answer is_ok_iff try_res_Inr_iff intersect_iff split: if_splits)
qed

text \<open>
  The terminal records are frames without extensions that framing accepts on the bootstrap stream. Of each
  kind exactly one record decodes, the one the encoder writes.
\<close>

lemma inspection_records_are_frames:
  "INSPECTION_REQUEST = frame KCloseRequest 0 (replicate 16 0 @ [1, 0, 4]) []"
  "INSPECTION_CLOSED = frame KClosed 0 (replicate 16 0 @ [0, 1, 2, 1] @ replicate 8 0) []"
  by code_simp+

lemma inspection_records_whole:
  assumes "52 \<le> maximum"
  shows "whole_record maximum 0 INSPECTION_REQUEST \<and> whole_record maximum 0 INSPECTION_CLOSED"
proof -
  let ?request = "replicate 16 0 @ [1, 0, 4] :: byte list" and ?closed = "replicate 16 0 @ [0, 1, 2, 1] @ replicate 8 0 :: byte list"
  show ?thesis
    using assms header_fields [of KCloseRequest 0 ?request "[]"] header_fields [of KClosed 0 ?closed "[]"]
    by (simp add: inspection_records_are_frames whole_record_def header_total_def length_frame HEADER_BYTES_def Let_def
        bootstrap_code_def fixed_payload_def CLOSE_REQUEST_BYTES_def CLOSED_BYTES_def is_some_and_def)
qed

lemma inspection_codec:
  assumes "inspection_encode bytes maximum out = (r, out')"
  shows "case r of
      Inr n \<Rightarrow> inspection_decode (take n out') maximum bytes = Inr () \<and> drop n out' = drop n out
    | Inl e \<Rightarrow> out' = out"
  using assms by (auto simp: inspection_encode_def inspection_decode_def split: if_splits)

lemma inspection_decode_unique: "inspection_decode bytes maximum expected = Inr () \<Longrightarrow> bytes = expected"
  by (simp add: inspection_decode_def split: if_splits)

end
