(* ===== verification/Peer_Close.thy ===== *)
theory Peer_Close
  imports Wire_Record
begin

text \<open>
  Why a peer closed a connection, after \<open>fr-transport/src/quic/peer_close.rs\<close>: one application error code
  for each reason of \<open>fr-wire/src/closure.rs\<close> (\<open>ClosedReason\<close>) and of \<open>fr-wire/src/lease_revoked.rs\<close>
  (\<open>Reason\<close>, here \<open>RevokedReason\<close>). Reading the code off a closed connection is a query to the QUIC
  library and not modelled.
\<close>

datatype ClosedReason =
    ClosedClientRequested | ClosedHostStopping | ClosedAuthorityExpired | ClosedPermissionLost | ClosedViewInvalidated
  | ClosedProtocolError | ClosedHostFailure | ClosedSessionReplaced | ClosedGeometryChanged

fun closed_reason_code :: "ClosedReason \<Rightarrow> u16" where
  "closed_reason_code ClosedClientRequested = 1"
| "closed_reason_code ClosedHostStopping = 2"
| "closed_reason_code ClosedAuthorityExpired = 3"
| "closed_reason_code ClosedPermissionLost = 4"
| "closed_reason_code ClosedViewInvalidated = 5"
| "closed_reason_code ClosedProtocolError = 6"
| "closed_reason_code ClosedHostFailure = 7"
| "closed_reason_code ClosedSessionReplaced = 8"
| "closed_reason_code ClosedGeometryChanged = 9"

definition closed_reason_arms :: "(u16 \<times> ClosedReason) list" where
  "closed_reason_arms =
     [(1, ClosedClientRequested), (2, ClosedHostStopping), (3, ClosedAuthorityExpired), (4, ClosedPermissionLost),
      (5, ClosedViewInvalidated), (6, ClosedProtocolError), (7, ClosedHostFailure), (8, ClosedSessionReplaced),
      (9, ClosedGeometryChanged)]"

datatype RevokedReason =
    RevokedLocalRevoke | RevokedLeaseExpired | RevokedObservationEnded | RevokedViewInvalidated | RevokedSessionEnded
  | RevokedPermissionLost | RevokedHostFailure | RevokedClientRequested | RevokedSuspended | RevokedGeometryChanged

fun revoked_reason_code :: "RevokedReason \<Rightarrow> u16" where
  "revoked_reason_code RevokedLocalRevoke = 1"
| "revoked_reason_code RevokedLeaseExpired = 2"
| "revoked_reason_code RevokedObservationEnded = 3"
| "revoked_reason_code RevokedViewInvalidated = 4"
| "revoked_reason_code RevokedSessionEnded = 5"
| "revoked_reason_code RevokedPermissionLost = 6"
| "revoked_reason_code RevokedHostFailure = 7"
| "revoked_reason_code RevokedClientRequested = 8"
| "revoked_reason_code RevokedSuspended = 9"
| "revoked_reason_code RevokedGeometryChanged = 10"

definition revoked_reason_arms :: "(u16 \<times> RevokedReason) list" where
  "revoked_reason_arms =
     [(1, RevokedLocalRevoke), (2, RevokedLeaseExpired), (3, RevokedObservationEnded), (4, RevokedViewInvalidated),
      (5, RevokedSessionEnded), (6, RevokedPermissionLost), (7, RevokedHostFailure), (8, RevokedClientRequested),
      (9, RevokedSuspended), (10, RevokedGeometryChanged)]"

definition CLOSED_REASON_BASE :: u64 where
  "CLOSED_REASON_BASE = 0x46520100"

definition REVOKED_REASON_BASE :: u64 where
  "REVOKED_REASON_BASE = 0x46520200"

datatype PeerClose = PeerSession ClosedReason | PeerLease RevokedReason

fun peer_close_code :: "PeerClose \<Rightarrow> u64" where
  "peer_close_code (PeerSession reason) = CLOSED_REASON_BASE + ucast (closed_reason_code reason)"
| "peer_close_code (PeerLease reason) = REVOKED_REASON_BASE + ucast (revoked_reason_code reason)"

definition reason_of :: "u64 \<Rightarrow> u64 \<Rightarrow> u16 option" where
  "reason_of code base =
     (case checked_sub code base of
        None \<Rightarrow> None
      | Some v \<Rightarrow> if v < 0x100 then Some (ucast v) else None)"

definition peer_close_from_code :: "u64 \<Rightarrow> PeerClose option" where
  "peer_close_from_code code =
     (case reason_of code CLOSED_REASON_BASE of
        Some v \<Rightarrow> map_option PeerSession (map_of closed_reason_arms v)
      | None \<Rightarrow>
          (case reason_of code REVOKED_REASON_BASE of
             None \<Rightarrow> None
           | Some v \<Rightarrow> map_option PeerLease (map_of revoked_reason_arms v)))"

lemma closed_reason_arms_iff: "map_of closed_reason_arms v = Some reason \<longleftrightarrow> v = closed_reason_code reason"
  by (cases reason) (auto simp: closed_reason_arms_def split: if_splits)

lemma revoked_reason_arms_iff: "map_of revoked_reason_arms v = Some reason \<longleftrightarrow> v = revoked_reason_code reason"
  by (cases reason) (auto simp: revoked_reason_arms_def split: if_splits)

lemma reason_of_iff: "reason_of code base = Some v \<longleftrightarrow> unat code = unat base + unat v \<and> unat v < 256"
proof -
  have cast: "unat (ucast w :: u16) = unat w" if "unat w < 256" for w :: u64
    using that by (simp add: unsigned_ucast_eq unsigned_take_bit_eq take_bit_nat_eq_self_iff)
  have "reason_of code base = Some v \<longleftrightarrow> (\<exists>w :: u64. unat code = unat w + unat base \<and> unat w < 256 \<and> v = ucast w)"
    by (auto simp: reason_of_def checked_sub_Some_iff [symmetric] word_less_nat_alt split: option.splits if_splits)
  also have "\<dots> \<longleftrightarrow> (\<exists>w :: u64. unat code = unat w + unat base \<and> unat w < 256 \<and> unat v = unat w)"
    using cast by (metis word_eq_iff_unsigned)
  also have "\<dots> \<longleftrightarrow> unat code = unat base + unat v \<and> unat v < 256"
    by (auto intro!: exI [of _ "ucast v"] simp: unat_ucast_up)
  finally show ?thesis .
qed

lemma reason_of_None: "reason_of code base = None \<longleftrightarrow> \<not> (unat base \<le> unat code \<and> unat code < unat base + 256)"
  by (auto simp: reason_of_def checked_sub_def word_le_nat_alt word_less_nat_alt unat_sub)

text \<open>Every reason has its own code, which reads back as that reason, and no other code is a reason.\<close>

lemma peer_close_round_trip: "peer_close_from_code code = Some reason \<longleftrightarrow> code = peer_close_code reason"
proof -
  have codes: "unat (closed_reason_code c) < 256" "unat (revoked_reason_code r) < 256" for c r
    by (cases c; simp) (cases r; simp)
  have add: "code = base + ucast v \<longleftrightarrow> unat code = unat base + unat v" if "unat base \<le> 0x46520200" "unat v < 256"
    for base :: u64 and v :: u16
  proof -
    have "unat (base + ucast v) = unat base + unat v" using that by (simp add: unat_word_ariths(1) unat_ucast_up)
    then show ?thesis by (metis word_eq_iff_unsigned)
  qed
  have bases: "unat CLOSED_REASON_BASE = 0x46520100" "unat REVOKED_REASON_BASE = 0x46520200"
    by (simp_all add: CLOSED_REASON_BASE_def REVOKED_REASON_BASE_def)
  show ?thesis
  proof (cases reason)
    case (PeerSession c)
    have "peer_close_from_code code = Some reason \<longleftrightarrow> reason_of code CLOSED_REASON_BASE = Some (closed_reason_code c)"
      using PeerSession by (auto simp: peer_close_from_code_def closed_reason_arms_iff split: option.splits)
    then show ?thesis using PeerSession codes add bases by (simp add: reason_of_iff)
  next
    case (PeerLease r)
    have "peer_close_from_code code = Some reason \<longleftrightarrow> reason_of code CLOSED_REASON_BASE = None
        \<and> reason_of code REVOKED_REASON_BASE = Some (revoked_reason_code r)"
      using PeerLease by (auto simp: peer_close_from_code_def revoked_reason_arms_iff split: option.splits)
    then show ?thesis using PeerLease codes add bases by (auto simp: reason_of_iff reason_of_None)
  qed
qed

end
