(* ===== verification/Receive_Lane.thy ===== *)
theory Receive_Lane
  imports Inspection Peer_Close "HOL-Library.While_Combinator"
begin

text \<open>
  The receiving end of one reliable stream, after \<open>fr-transport/src/quic.rs\<close>: what a visit to an
  inbound lane does with the bytes the native connection has, and the checks a framed record passes
  before its handler sees it.
  The native connection belongs to another library: it is a parameter, as is the handler.
\<close>

section \<open>Records of a lane\<close>

datatype Messages =
    NoApplication | Exact u16 | InputActions | InputFeedback | ClipboardMessages | FileMessages | DecoderReplies
  | MediaConfiguration | AudioControl | AudioReplies | NegotiationMessages | SessionControl

fun messages_contains :: "Messages \<Rightarrow> u16 \<Rightarrow> bool" where
  "messages_contains NoApplication kind = False"
| "messages_contains (Exact expected) kind = (kind = expected)"
| "messages_contains InputFeedback kind = (kind \<in> {0x17, 0x48})"
| "messages_contains ClipboardMessages kind = (0x50 \<le> kind \<and> kind \<le> 0x53)"
| "messages_contains FileMessages kind = (0x70 \<le> kind \<and> kind \<le> 0x74)"
| "messages_contains DecoderReplies kind = (kind \<in> {0x31, 0x33})"
| "messages_contains MediaConfiguration kind = (kind \<in> {0x30, 0x38})"
| "messages_contains AudioControl kind = (kind \<in> {0x60, 0x63})"
| "messages_contains AudioReplies kind = (kind \<in> {0x61, 0x63})"
| "messages_contains NegotiationMessages kind = ((0x01 \<le> kind \<and> kind \<le> 0x04) \<or> kind \<in> {0x10, 0x11, 0x1d, 0x1e})"
| "messages_contains SessionControl kind =
     (kind = 0x04 \<or> (0x12 \<le> kind \<and> kind \<le> 0x1e) \<or> kind \<in> {0x20, 0x22, 0x36, 0x54, 0x80, 0x82, 0x83, 0x84, 0x85})"
| "messages_contains InputActions kind = (kind \<in> {0x40, 0x41} \<or> (0x43 \<le> kind \<and> kind \<le> 0x47))"

datatype QuicError =
    QuicInvalidPolicy | QuicNotEstablished | QuicAlpn | QuicWrongRoute | QuicMalformed | QuicTooLarge | QuicBackpressure
  | QuicExpired | QuicOptionalRetirementDuringIo | QuicRetainedMicrophoneOutput | QuicUnauthorized | QuicCancelled
  | QuicClosed | QuicStream StreamError | QuicNative | QuicHandler | QuicClock | QuicAllocation
  | QuicPeerClosed PeerClose

definition validate_record :: "byte list \<Rightarrow> nat \<Rightarrow> u32 \<Rightarrow> Messages \<Rightarrow> QuicError + unit" where
  "validate_record bytes maximum binding messages =
     (let code = from_be_bytes (take 2 (drop 6 bytes)) in
      if length bytes < HEADER_BYTES then Inl QuicMalformed
      else if length bytes > maximum then Inl QuicTooLarge
      else if take 6 bytes \<noteq> MAGIC @ [0, 0] \<or> take 4 (drop 8 bytes) \<noteq> [0, 0, 0, 0]
        \<or> \<not> messages_contains messages code \<or> header_word bytes 16 \<noteq> binding
      then Inl QuicWrongRoute
      else try_res
        (if messages = NegotiationMessages then
           map_sum (\<lambda>_. QuicMalformed) id
             (if code = 0x1d then inspection_decode bytes maximum INSPECTION_REQUEST
              else if code = 0x1e then inspection_decode bytes maximum INSPECTION_CLOSED
              else Inr ())
         else Inr ()) (\<lambda>_.
      if header_word bytes 20 > header_word bytes 12 \<or> unat (header_word bytes 12) + HEADER_BYTES \<noteq> length bytes
      then Inl QuicMalformed
      else Inr ()))"

section \<open>A visit\<close>

text \<open>
  Of a route, the fields that a visit uses. \<open>ready\<close> and the readiness of an attachment reservation
  are decided elsewhere: a visit is told whether the lane may be read.
\<close>

record StreamRoute =
  sr_binding :: u32
  sr_messages :: Messages
  sr_maximum :: nat

record Inbound =
  in_route :: StreamRoute
  in_framing :: RecordStream
  in_remainder :: "byte list"
  in_fin :: bool

datatype Disposition = Consumed | Blocked

text \<open>
  The native connection: reading at most so many bytes of the stream, and whether it has ended. Its
  errors are those the visit makes of them, \<open>Native\<close> when the library fails and \<open>Closed\<close> when the connection
  was given up.
\<close>

record 'c native =
  nt_read_stream :: "nat \<Rightarrow> 'c \<Rightarrow> (QuicError + byte list) \<times> 'c"
  nt_is_stream_eof :: "'c \<Rightarrow> QuicError + bool"

type_synonym 'h handler = "byte list \<Rightarrow> 'h \<Rightarrow> (unit + Disposition) \<times> 'h"

record ('c, 'h) Receiver =
  rv_lane :: Inbound
  rv_read_bytes :: u64
  rv_native :: 'c
  rv_handler :: 'h

datatype lane_stop = LaneFails QuicError | LanePanics

fun stream_lane_stop :: "stream_stop \<Rightarrow> lane_stop" where
  "stream_lane_stop (Fails e) = LaneFails (QuicStream e)"
| "stream_lane_stop Panics = LanePanics"

definition framing :: "(RecordStream \<Rightarrow> (RecordStream, stream_stop, 'a) outcome) \<Rightarrow> ('c, 'h) Receiver \<Rightarrow>
    (('c, 'h) Receiver, lane_stop, 'a) outcome" where
  "framing f v =
     (case f (in_framing (rv_lane v)) of
        (r, s) \<Rightarrow> (map_sum stream_lane_stop id r, v\<lparr>rv_lane := (rv_lane v)\<lparr>in_framing := s\<rparr>\<rparr>))"

definition remain :: "byte list \<Rightarrow> ('c, 'h) Receiver \<Rightarrow> ('c, 'h) Receiver" where
  "remain bytes v = v\<lparr>rv_lane := (rv_lane v)\<lparr>in_remainder := bytes\<rparr>\<rparr>"

definition read_lane :: "'c native \<Rightarrow> ('c, 'h) Receiver \<Rightarrow> (('c, 'h) Receiver, lane_stop, unit) outcome" where
  "read_lane n v =
     (if in_remainder (rv_lane v) \<noteq> [] then (Inr (), v)
      else case nt_read_stream n (sr_maximum (in_route (rv_lane v))) (rv_native v) of
          (Inl e, c) \<Rightarrow> (Inl (LaneFails e), v\<lparr>rv_native := c\<rparr>)
        | (Inr bytes, c) \<Rightarrow>
            let v = remain bytes (v\<lparr>rv_native := c\<rparr>) in
            (case checked_add (rv_read_bytes v) (of_nat (length bytes)) of
               None \<Rightarrow> (Inl (LaneFails QuicClock), v)
             | Some m \<Rightarrow> (Inr (), v\<lparr>rv_read_bytes := m\<rparr>)))"

definition fill_lane :: "'c native \<Rightarrow> allocator \<Rightarrow> u64 \<Rightarrow> ('c, 'h) Receiver \<Rightarrow> (('c, 'h) Receiver, lane_stop, unit) outcome" where
  "fill_lane n reserve current v =
     try_then (read_lane n v) (\<lambda>_ v.
     try_then (framing (stream_push reserve (in_remainder (rv_lane v)) current) v) (\<lambda>k v.
     if k > length (in_remainder (rv_lane v)) then (Inl LanePanics, v)
     else (Inr (), remain (drop k (in_remainder (rv_lane v))) v)))"

definition hand_over :: "'h handler \<Rightarrow> byte list \<Rightarrow> u64 \<Rightarrow> ('c, 'h) Receiver \<Rightarrow> (('c, 'h) Receiver, lane_stop, nat) outcome" where
  "hand_over handler bytes current v =
     (let route = in_route (rv_lane v) in
      case validate_record bytes (sr_maximum route) (sr_binding route) (sr_messages route) of
        Inl e \<Rightarrow> (Inl (LaneFails e), v)
      | Inr _ \<Rightarrow>
          (case handler bytes (rv_handler v) of
             (Inl _, h) \<Rightarrow> (Inl (LaneFails QuicHandler), v\<lparr>rv_handler := h\<rparr>)
           | (Inr Consumed, h) \<Rightarrow>
               try_then (framing (fails \<circ> stream_consume current) (v\<lparr>rv_handler := h\<rparr>)) (\<lambda>_ v. (Inr 1, v))
           | (Inr Blocked, h) \<Rightarrow> (Inr 0, v\<lparr>rv_handler := h\<rparr>)))"

definition end_lane :: "'c native \<Rightarrow> u64 \<Rightarrow> ('c, 'h) Receiver \<Rightarrow> (('c, 'h) Receiver, lane_stop, unit) outcome" where
  "end_lane n current v =
     (if in_remainder (rv_lane v) \<noteq> [] then (Inr (), v) else
      try_then (framing (fails \<circ> stream_frame current) v) (\<lambda>frame v.
      if frame \<noteq> None then (Inr (), v) else
      case nt_is_stream_eof n (rv_native v) of
        Inl e \<Rightarrow> (Inl (LaneFails e), v)
      | Inr False \<Rightarrow> (Inr (), v)
      | Inr True \<Rightarrow>
          try_then (framing (fails \<circ> stream_finish current) v) (\<lambda>_ v.
          (Inr (), v\<lparr>rv_lane := (rv_lane v)\<lparr>in_fin := True\<rparr>\<rparr>))))"

definition receive_stream :: "'c native \<Rightarrow> allocator \<Rightarrow> bool \<Rightarrow> 'h handler \<Rightarrow> u64 \<Rightarrow> ('c, 'h) Receiver \<Rightarrow>
    (('c, 'h) Receiver, lane_stop, nat) outcome" where
  "receive_stream n reserve readable handler current v =
     (if in_fin (rv_lane v) \<or> \<not> readable then (Inr 0, v) else
      try_then (framing (fails \<circ> stream_frame current) v) (\<lambda>frame v.
      try_then (if frame = None then fill_lane n reserve current v else (Inr (), v)) (\<lambda>_ v.
      try_then (framing (fails \<circ> stream_frame current) v) (\<lambda>frame v.
      try_then (case frame of None \<Rightarrow> (Inr 0, v) | Some bytes \<Rightarrow> hand_over handler bytes current v) (\<lambda>count v.
      try_then (end_lane n current v) (\<lambda>_ v. (Inr count, v)))))))"

section \<open>Order and family of the records handed over\<close>

text \<open>
  What is documented of the connection: a read returns the next bytes of the stream. \<open>rest c\<close> are
  the bytes that were sent and not read.
\<close>

definition reads_in_order :: "'c native \<Rightarrow> ('c \<Rightarrow> byte list) \<Rightarrow> bool" where
  "reads_in_order n rest \<longleftrightarrow>
     (\<forall>m c. case nt_read_stream n m c of
        (Inr bytes, d) \<Rightarrow> rest c = bytes @ rest d
      | (Inl _, d) \<Rightarrow> rest d = rest c)"

text \<open>A handler that decides in any way and remembers what it consumed.\<close>

definition logged :: "(byte list \<Rightarrow> unit + Disposition) \<Rightarrow> byte list list handler" where
  "logged decide bytes log = (decide bytes, if decide bytes = Inr Consumed then log @ [bytes] else log)"

abbreviation lane_framing :: "('c, 'h) Receiver \<Rightarrow> RecordStream" where
  "lane_framing v \<equiv> in_framing (rv_lane v)"

abbreviation lane_unread :: "('c \<Rightarrow> byte list) \<Rightarrow> ('c, 'h) Receiver \<Rightarrow> byte list" where
  "lane_unread rest v \<equiv> in_remainder (rv_lane v) @ rest (rv_native v)"

definition admitted_record :: "StreamRoute \<Rightarrow> byte list \<Rightarrow> bool" where
  "admitted_record route bytes \<longleftrightarrow> validate_record bytes (sr_maximum route) (sr_binding route) (sr_messages route) = Inr ()"

definition lane_inv :: "('c \<Rightarrow> byte list) \<Rightarrow> StreamRoute \<Rightarrow> nat \<Rightarrow> byte list \<Rightarrow> ('c, byte list list) Receiver \<Rightarrow> bool" where
  "lane_inv rest route maximum sent v \<longleftrightarrow>
     stream_ok (lane_framing v) \<and> in_route (rv_lane v) = route
     \<and> st_maximum (lane_framing v) = maximum \<and> st_binding (lane_framing v) = sr_binding route
     \<and> list_all (\<lambda>r. whole_record maximum (sr_binding route) r \<and> admitted_record route r) (rv_handler v)
     \<and> prefix (concat (rv_handler v)) sent
     \<and> (\<not> st_closed (lane_framing v) \<longrightarrow>
          sent = concat (rv_handler v) @ pending (lane_framing v) @ lane_unread rest v)"

lemma framing_eq:
  "f (lane_framing v) = (r, s) \<Longrightarrow>
     framing f v = (map_sum stream_lane_stop id r, v\<lparr>rv_lane := (rv_lane v)\<lparr>in_framing := s\<rparr>\<rparr>)"
  by (simp add: framing_def)

lemma lane_inv_over:
  assumes "lane_inv rest route maximum sent v" "stream_over (lane_framing v) s"
  shows "lane_inv rest route maximum sent (v\<lparr>rv_lane := (rv_lane v)\<lparr>in_framing := s\<rparr>\<rparr>)"
  using assms by (simp add: lane_inv_def stream_over_def same_policy_def)

lemma lane_inv_now:
  assumes "lane_inv rest route maximum sent v" "stream_ok ((lane_framing v)\<lparr>st_last_now := t\<rparr>)"
  shows "lane_inv rest route maximum sent (v\<lparr>rv_lane := (rv_lane v)\<lparr>in_framing := (lane_framing v)\<lparr>st_last_now := t\<rparr>\<rparr>\<rparr>)"
  using assms by (simp add: lane_inv_def pending_def)

lemma framing_frame_inv:
  assumes "lane_inv rest route maximum sent v" "framing (fails \<circ> stream_frame current) v = (r, w)"
  shows "lane_inv rest route maximum sent w"
    "r = Inr (Some bytes) \<Longrightarrow> \<not> st_closed (lane_framing w) \<and> stream_ready (lane_framing w) \<and> st_record (lane_framing w) = bytes"
proof -
  have ok: "stream_ok (lane_framing v)" using assms(1) by (simp add: lane_inv_def)
  have "lane_inv rest route maximum sent w \<and> (r = Inr (Some bytes) \<longrightarrow>
      \<not> st_closed (lane_framing w) \<and> stream_ready (lane_framing w) \<and> st_record (lane_framing w) = bytes)"
    using ok
  proof (cases rule: stream_frame_cases [where now = current])
    case frame
    then show ?thesis
      using assms(2) lane_inv_now [OF assms(1) frame(3)]
      by (auto simp: framing_def stream_ready_def split: if_splits)
  next
    case (over e s)
    then show ?thesis using assms(2) lane_inv_over [OF assms(1) over(2)] by (auto simp: framing_def)
  qed
  then show "lane_inv rest route maximum sent w"
    "r = Inr (Some bytes) \<Longrightarrow> \<not> st_closed (lane_framing w) \<and> stream_ready (lane_framing w) \<and> st_record (lane_framing w) = bytes"
    by simp_all
qed

lemma read_lane_inv:
  assumes "lane_inv rest route maximum sent v" "reads_in_order n rest"
  shows "lane_inv rest route maximum sent (snd (read_lane n v))"
proof (cases "nt_read_stream n (sr_maximum (in_route (rv_lane v))) (rv_native v)")
  case (Pair r c)
  then have "case r of Inr bytes \<Rightarrow> rest (rv_native v) = bytes @ rest c | Inl _ \<Rightarrow> rest c = rest (rv_native v)"
    using assms(2) by (simp add: reads_in_order_def) (metis (no_types, lifting) old.prod.case sum.case_eq_if)
  then show ?thesis
    using assms(1) Pair
    by (auto simp: lane_inv_def read_lane_def remain_def Let_def split: sum.splits option.splits)
qed

lemma fill_lane_inv:
  assumes "lane_inv rest route maximum sent v" "reads_in_order n rest"
  shows "lane_inv rest route maximum sent (snd (fill_lane n reserve current v))"
  unfolding fill_lane_def
proof (rule try_then_keeps [where P = "lane_inv rest route maximum sent", OF read_lane_inv [OF assms]])
  fix x and w :: "('a, byte list list) Receiver"
  assume inv: "lane_inv rest route maximum sent w"
  then have ok: "stream_ok (lane_framing w)" by (simp add: lane_inv_def)
  let ?bytes = "in_remainder (rv_lane w)"
  show "lane_inv rest route maximum sent (snd (try_then (framing (stream_push reserve ?bytes current) w) (\<lambda>k v.
      if k > length (in_remainder (rv_lane v)) then (Inl LanePanics, v)
      else (Inr (), remain (drop k (in_remainder (rv_lane v))) v))))"
    using ok
  proof (cases rule: stream_push_cases [where reserve = reserve and bytes = ?bytes and now = current])
    case (took k s)
    then have "sent = concat (rv_handler w) @ pending (lane_framing w) @ lane_unread rest w"
      using inv by (simp add: lane_inv_def)
    then show ?thesis
      using took inv
      by (simp add: framing_def lane_inv_def remain_def same_policy_def)
  next
    case (over e s)
    then show ?thesis using lane_inv_over [OF inv over(2)] by (simp add: framing_def)
  qed
qed

lemma hand_over_inv:
  assumes "lane_inv rest route maximum sent v" "\<not> st_closed (lane_framing v)" "stream_ready (lane_framing v)"
    "st_record (lane_framing v) = bytes"
  shows "lane_inv rest route maximum sent (snd (hand_over (logged decide) bytes current v))"
proof -
  have ok: "stream_ok (lane_framing v)" and route: "in_route (rv_lane v) = route"
    using assms(1) by (simp_all add: lane_inv_def)
  show ?thesis
  proof (cases "admitted_record route bytes \<and> decide bytes = Inr Consumed")
    case False
    then show ?thesis
      using assms(1) route
      by (auto simp: hand_over_def logged_def admitted_record_def lane_inv_def Let_def
          split: sum.split Disposition.split)
  next
    case True
    let ?v = "v\<lparr>rv_handler := rv_handler v @ [bytes]\<rparr>"
    have hand: "hand_over (logged decide) bytes current v
        = try_then (framing (fails \<circ> stream_consume current) ?v) (\<lambda>_ v. (Inr 1, v))"
      using True route by (simp add: hand_over_def logged_def admitted_record_def)
    have sent: "sent = concat (rv_handler v @ [bytes]) @ lane_unread rest v"
      using assms ready_whole(2) [OF ok assms(3)] by (simp add: lane_inv_def)
    have "list_all (\<lambda>r. whole_record maximum (sr_binding route) r \<and> admitted_record route r) (rv_handler v @ [bytes])"
      using assms True ready_whole(1) [OF ok assms(3)] by (simp add: lane_inv_def)
    moreover have "prefix (concat (rv_handler v @ [bytes])) sent" using sent by simp
    ultimately have closed: "lane_inv rest route maximum sent (?v\<lparr>rv_lane := (rv_lane v)\<lparr>in_framing := s\<rparr>\<rparr>)"
      if "stream_ok s" "same_policy (lane_framing v) s" "st_closed s \<or> pending s = []" for s
      using that assms(1) sent by (auto simp: lane_inv_def same_policy_def)
    from ok show ?thesis
    proof (cases rule: stream_consume_cases [where now = current])
      case (consumed s)
      then show ?thesis using closed [of s] by (simp add: hand framing_def)
    next
      case (waiting e)
      then show ?thesis using assms(3) by simp
    next
      case (over e s)
      then show ?thesis using closed [of s] by (simp add: hand framing_def stream_over_def)
    qed
  qed
qed

lemma end_lane_inv:
  assumes "lane_inv rest route maximum sent v"
  shows "lane_inv rest route maximum sent (snd (end_lane n current v))"
proof (cases "in_remainder (rv_lane v) = []")
  case False
  then show ?thesis using assms by (simp add: end_lane_def)
next
  case True
  have fin: "lane_inv rest route maximum sent (w\<lparr>rv_lane := (rv_lane w)\<lparr>in_fin := True\<rparr>\<rparr>)"
    if "lane_inv rest route maximum sent w" for w
    using that by (simp add: lane_inv_def)
  have finish: "lane_inv rest route maximum sent (snd (framing (fails \<circ> stream_finish current) w))"
    if "lane_inv rest route maximum sent w" for w
  proof -
    have ok: "stream_ok (lane_framing w)" using that by (simp add: lane_inv_def)
    show ?thesis
      using lane_inv_over [OF that stream_finish_over [OF ok, of current]]
      by (simp add: framing_def fails_def case_prod_beta)
  qed
  have empty: "\<not> in_remainder (rv_lane v) \<noteq> []" using True by simp
  show ?thesis
    unfolding end_lane_def if_not_P [OF empty]
  proof (rule try_then_keeps [where P = "lane_inv rest route maximum sent"])
    show "lane_inv rest route maximum sent (snd (framing (fails \<circ> stream_frame current) v))"
      using framing_frame_inv(1) [OF assms] by (metis prod.collapse)
  next
    fix frame w
    assume "lane_inv rest route maximum sent w"
    note inv = this finish [OF this]
    have "lane_inv rest route maximum sent (snd (try_then (framing (fails \<circ> stream_finish current) w) (\<lambda>_ v.
        (Inr (), v\<lparr>rv_lane := (rv_lane v)\<lparr>in_fin := True\<rparr>\<rparr>))))"
      by (rule try_then_keeps [where P = "lane_inv rest route maximum sent", OF inv(2)]) (simp add: fin)
    then show "lane_inv rest route maximum sent (snd
       (if frame \<noteq> None then (Inr (), w)
        else case nt_is_stream_eof n (rv_native w) of
            Inl e \<Rightarrow> (Inl (LaneFails e), w)
          | Inr False \<Rightarrow> (Inr (), w)
          | Inr True \<Rightarrow>
              try_then (framing (fails \<circ> stream_finish current) w) (\<lambda>_ v.
              (Inr (), v\<lparr>rv_lane := (rv_lane v)\<lparr>in_fin := True\<rparr>\<rparr>))))"
      using inv(1) by (auto split: sum.split bool.split)
  qed
qed

lemma receive_stream_inv:
  assumes "lane_inv rest route maximum sent v" "reads_in_order n rest"
  shows "lane_inv rest route maximum sent (snd (receive_stream n reserve readable (logged decide) current v))"
proof (cases "in_fin (rv_lane v) \<or> \<not> readable")
  case True
  then show ?thesis using assms by (simp add: receive_stream_def)
next
  case False
  let ?P = "lane_inv rest route maximum sent"
  have frame: "?P (snd (framing (fails \<circ> stream_frame current) w))" if "?P w" for w
    using framing_frame_inv(1) [OF that] by (metis prod.collapse)
  show ?thesis
    unfolding receive_stream_def if_not_P [OF False]
  proof (rule try_then_keeps [where P = ?P, OF frame [OF assms(1)]], rule try_then_keeps [where P = ?P])
    fix first w
    assume w: "?P w"
    then show "?P (snd (if first = None then fill_lane n reserve current w else (Inr (), w)))"
      using fill_lane_inv [OF w assms(2)] by simp
  next
    fix u w
    assume w: "?P w"
    show "?P (snd (try_then (framing (fails \<circ> stream_frame current) w) (\<lambda>frame v.
      try_then (case frame of None \<Rightarrow> (Inr 0, v) | Some bytes \<Rightarrow> hand_over (logged decide) bytes current v) (\<lambda>count v.
      try_then (end_lane n current v) (\<lambda>_ v. (Inr count, v))))))"
    proof (rule try_then_keeps [where P = ?P, OF frame [OF w]])
      fix second x
      assume x: "framing (fails \<circ> stream_frame current) w = (Inr second, x)" "?P x"
      have "?P (snd (case second of None \<Rightarrow> (Inr 0, x) | Some bytes \<Rightarrow> hand_over (logged decide) bytes current x))"
        using x framing_frame_inv(2) [OF w x(1)] hand_over_inv [OF x(2)] by (auto split: option.split)
      then show "?P (snd (try_then (case second of None \<Rightarrow> (Inr 0, x) | Some bytes \<Rightarrow> hand_over (logged decide) bytes current x)
          (\<lambda>count v. try_then (end_lane n current v) (\<lambda>_ v. (Inr count, v)))))"
        by (rule try_then_keeps [where P = ?P]) (auto intro!: try_then_keeps [where P = ?P] end_lane_inv)
    qed
  qed
qed

text \<open>Visits in any number, each with its own time, allocator, readiness and decisions of the handler.\<close>

datatype lane_visit = Visit allocator bool "byte list \<Rightarrow> unit + Disposition" u64

fun visit_lane :: "'c native \<Rightarrow> lane_visit \<Rightarrow> ('c, byte list list) Receiver \<Rightarrow> ('c, byte list list) Receiver" where
  "visit_lane n (Visit reserve readable decide current) v =
     snd (receive_stream n reserve readable (logged decide) current v)"

interpretation lane_machine: kept_invariant "visit_lane n"
  "\<lambda>v. reads_in_order n rest \<and> lane_inv rest route maximum sent v" for n rest route maximum sent
proof
  show "reads_in_order n rest \<and> lane_inv rest route maximum sent v \<Longrightarrow>
      reads_in_order n rest \<and> lane_inv rest route maximum sent (visit_lane n x v)" for v x
    using receive_stream_inv by (cases x) auto
qed

definition lane_new :: "StreamRoute \<Rightarrow> RecordStream \<Rightarrow> 'c \<Rightarrow> ('c, byte list list) Receiver" where
  "lane_new route s c = \<lparr>rv_lane = \<lparr>in_route = route, in_framing = s, in_remainder = [], in_fin = False\<rparr>,
     rv_read_bytes = 0, rv_native = c, rv_handler = []\<rparr>"

lemma lane_inv_new:
  assumes "stream_new_inner maximum (sr_binding route) lifetime = Inr s"
  shows "lane_inv rest route maximum (rest c) (lane_new route s c)"
  using stream_inv_new [OF assms] by (simp add: lane_inv_def lane_new_def)

lemma lane_run_inv:
  assumes "stream_new_inner maximum (sr_binding route) lifetime = Inr s" "reads_in_order n rest"
  shows "lane_inv rest route maximum (rest c) (fold (visit_lane n) visits (lane_new route s c))"
  using lane_machine.run_kept [of n rest route maximum "rest c" "lane_new route s c" visits]
    lane_inv_new [OF assms(1), of rest c] assms(2) by simp

section \<open>Delivery\<close>

text \<open>
  A connection that is alive: a read succeeds, and returns something as long as bytes are left;
  the stream has ended when none are.
\<close>

definition live_source :: "'c native \<Rightarrow> ('c \<Rightarrow> byte list) \<Rightarrow> bool" where
  "live_source n rest \<longleftrightarrow>
     reads_in_order n rest
     \<and> (\<forall>m c. 0 < m \<longrightarrow> (\<exists>bytes d. nt_read_stream n m c = (Inr bytes, d) \<and> (rest c \<noteq> [] \<longrightarrow> bytes \<noteq> [])))
     \<and> (\<forall>c. nt_is_stream_eof n c = Inr (rest c = []))"

definition consume_all :: "byte list \<Rightarrow> unit + Disposition" where
  "consume_all bytes = Inr Consumed"

definition deliver_visit :: "'c native \<Rightarrow> allocator \<Rightarrow> u64 \<Rightarrow> ('c, byte list list) Receiver \<Rightarrow> ('c, byte list list) Receiver" where
  "deliver_visit n reserve current = visit_lane n (Visit reserve True consume_all current)"

text \<open>
  The pace of the visits: visit \<open>i\<close> is at time \<open>t i\<close>, times do not go back, and between a visit and any of
  the next \<open>maximum\<close> ones less than the lifetime of a record passes.
\<close>

definition paced :: "nat \<Rightarrow> nat \<Rightarrow> u64 \<Rightarrow> (nat \<Rightarrow> u64) \<Rightarrow> bool" where
  "paced visits maximum lifetime t \<longleftrightarrow>
     (\<forall>i < visits. unat (t i) + unat lifetime < 2 ^ 64)
     \<and> (\<forall>j < visits. \<forall>i \<le> j. t i \<le> t j \<and> (j \<le> i + maximum \<longrightarrow> unat (t j) < unat (t i) + unat lifetime))"

text \<open>
  Before visit \<open>i\<close>: the deadline of the record in progress was set at an earlier visit, and
  every visit since has added a byte to it.
\<close>

definition awaited :: "(nat \<Rightarrow> u64) \<Rightarrow> nat \<Rightarrow> RecordStream \<Rightarrow> bool" where
  "awaited t i s \<longleftrightarrow> is_none_or (\<lambda>old. \<exists>j<i. old = t j) (st_last_now s)
     \<and> is_none_or (\<lambda>until. \<exists>j<i. unat until = unat (t j) + unat (st_lifetime s) \<and> i \<le> j + length (pending s)) (st_until s)"

lemma awaited_timely:
  assumes "paced visits (st_maximum s) (st_lifetime s) t" "awaited t i s" "i < visits" "stream_ok s"
  shows "timely (t i) s"
proof -
  have "length (pending s) \<le> st_maximum s" using buffered_maximum [OF assms(4)] buffered_pending [OF assms(4)] by simp
  moreover have "t j \<le> t i" "i \<le> j + st_maximum s \<Longrightarrow> unat (t i) < unat (t j) + unat (st_lifetime s)" if "j < i" for j
    using assms(1,3) that by (auto simp: paced_def)
  ultimately show ?thesis
    using assms(1-3)
    by (fastforce simp: timely_def awaited_def paced_def is_none_or_def word_less_nat_alt split: option.splits)
qed

text \<open>A deadline after a visit is the one before it, or set at that visit.\<close>

definition deadline_from :: "u64 \<Rightarrow> RecordStream \<Rightarrow> RecordStream \<Rightarrow> bool" where
  "deadline_from current s t \<longleftrightarrow>
     is_none_or (\<lambda>until. st_until s = Some until \<or> unat until = unat current + unat (st_lifetime s)) (st_until t)"

lemma push_deadline_from: "deadline_from current s (snd (stream_push reserve bytes current s))"
proof (cases "st_until s")
  case None
  have "st_until (snd (stream_push reserve bytes current s)) \<in> {None, checked_add current (st_lifetime s)}"
    by (rule push_new_until [OF None])
  then show ?thesis by (auto simp: deadline_from_def is_none_or_def checked_add_Some_iff split: option.splits)
next
  case (Some until)
  then show ?thesis using push_until [OF Some, of reserve bytes current] by (auto simp: deadline_from_def is_none_or_def)
qed

lemma awaited_next:
  assumes "awaited t i s" "deadline_from (t i) s u" "st_last_now u = Some (t i)" "same_policy s u" "stream_ok u"
    and "st_until u = None \<or> length (pending s) < length (pending u)"
  shows "awaited t (Suc i) u"
proof (cases "st_until u")
  case None
  then show ?thesis using assms(3) by (auto simp: awaited_def is_none_or_def)
next
  case (Some until)
  then have longer: "length (pending s) < length (pending u)" using assms(6) by simp
  have "\<exists>j<Suc i. unat until = unat (t j) + unat (st_lifetime s) \<and> Suc i \<le> j + length (pending u)"
  proof (cases "st_until s = Some until")
    case True
    then obtain j where "j < i" "unat until = unat (t j) + unat (st_lifetime s)" "i \<le> j + length (pending s)"
      using assms(1) by (auto simp: awaited_def is_none_or_def)
    then show ?thesis using longer by (intro exI [of _ j]) simp
  next
    case False
    then have "unat until = unat (t i) + unat (st_lifetime s)" using assms(2) Some by (simp add: deadline_from_def is_none_or_def)
    then show ?thesis using longer by (intro exI [of _ i]) simp
  qed
  then show ?thesis using assms(3,4) Some by (auto simp: awaited_def is_none_or_def same_policy_def)
qed

text \<open>Between visits, \<open>todo\<close> are the records that are still to come.\<close>

definition delivering :: "('c \<Rightarrow> byte list) \<Rightarrow> StreamRoute \<Rightarrow> nat \<Rightarrow> byte list list \<Rightarrow> ('c, byte list list) Receiver \<Rightarrow>
    byte list list \<Rightarrow> bool" where
  "delivering rest route maximum rs v todo \<longleftrightarrow>
     (let s = lane_framing v in
      in_route (rv_lane v) = route \<and> stream_ok s \<and> st_maximum s = maximum \<and> st_binding s = sr_binding route
      \<and> \<not> st_closed s \<and> \<not> stream_ready s \<and> rs = rv_handler v @ todo
      \<and> concat todo = pending s @ lane_unread rest v
      \<and> unat (rv_read_bytes v) + length (rest (rv_native v)) < 2 ^ 64)"

lemma push_last:
  assumes "stream_push reserve bytes now s = (Inr k, t)"
  shows "st_last_now t = Some now"
proof -
  let ?s = "s\<lparr>st_last_now := Some now\<rparr>"
  have tick: "stream_tick now s = (Inr (), ?s)"
    using assms tick_InrD [of now s]
    by (cases "stream_tick now s"; cases "fst (stream_tick now s)") (auto simp: stream_push_def)
  show ?thesis
  proof (cases "bytes = [] \<or> stream_ready ?s")
    case True
    then show ?thesis using assms tick by (auto simp: stream_push_def)
  next
    case False
    obtain u where start: "start_deadline now ?s = (Inr (), u)"
      using assms tick False by (cases "start_deadline now ?s"; cases "fst (start_deadline now ?s)") (auto simp: stream_push_def)
    then have u: "st_last_now u = Some now" by (auto simp: start_deadline_def split: if_splits option.splits)
    have extend: "st_last_now y = st_last_now x" if "extend_record c bytes x = (Inr m, y)" for c x y m
      using that by (auto simp: extend_record_def Let_def split: if_splits option.splits)
    show ?thesis
    proof (cases "st_header_len u < HEADER_BYTES")
      case False': False
      then show ?thesis using assms tick False start extend u by (auto simp: stream_push_def)
    next
      case True
      obtain m x where fill: "fill_header bytes u = (m, x)" by (cases "fill_header bytes u")
      then have x: "st_last_now x = Some now" using u by (auto simp: fill_header_def Let_def)
      show ?thesis
      proof (cases "accept_header reserve x")
        case (Pair r y)
        have "st_last_now y = Some now" if "r = Inr ()"
          using Pair that x by (auto simp: accept_header_def Let_def split: if_splits option.splits sum.splits)
        then show ?thesis
          using assms tick False start True fill x Pair extend
          by (cases r) (auto simp: stream_push_def split: if_splits)
      qed
    qed
  qed
qed

lemma timely_after:
  "stream_ok s \<Longrightarrow> st_last_now s = Some now \<Longrightarrow> unat now + unat (st_lifetime s) < 2 ^ 64 \<Longrightarrow> timely now s"
  by (auto simp: timely_def stream_ok_def stream_core_def is_none_or_def is_some_and_def split: option.splits)

lemma todo_record:
  assumes "list_all (whole_record maximum binding) todo" "concat todo = r @ later" "whole_record maximum binding r"
  obtains todo' where "todo = r # todo'" "concat todo' = later"
proof -
  have "todo = split_records maximum binding (r @ later)"
    using split_records_concat [OF assms(1), of "[]"] assms(2) by (simp add: split_records.simps [of _ _ "[]"])
  then have "todo = r # split_records maximum binding later" using split_records_Cons [OF assms(3)] by simp
  then show ?thesis using that assms(2) by (cases todo) auto
qed

lemma todo_pending:
  assumes "list_all (whole_record (st_maximum s) (st_binding s)) todo" "concat todo = pending s" "stream_ok s" "\<not> stream_ready s"
  shows "todo = []"
  using split_records_concat [OF assms(1), of "[]"] split_pending [OF assms(3)] assms(2,4)
  by (simp add: split_records.simps [of _ _ "[]"])

text \<open>A read keeps the bytes that are left, and finds some if there are any.\<close>

lemma read_delivering:
  assumes "live_source n rest" "0 < sr_maximum (in_route (rv_lane v))"
    and "unat (rv_read_bytes v) + length (rest (rv_native v)) < 2 ^ 64"
  obtains u where "read_lane n v = (Inr (), u)" "in_route (rv_lane u) = in_route (rv_lane v)"
    "in_fin (rv_lane u) = in_fin (rv_lane v)" "lane_framing u = lane_framing v" "rv_handler u = rv_handler v"
    "lane_unread rest u = lane_unread rest v" "unat (rv_read_bytes u) + length (rest (rv_native u)) < 2 ^ 64"
    "lane_unread rest v \<noteq> [] \<longrightarrow> in_remainder (rv_lane u) \<noteq> []"
proof (cases "in_remainder (rv_lane v) = []")
  case False
  then show ?thesis using assms by (intro that [of v]) (simp_all add: read_lane_def)
next
  case True
  obtain bytes d where read: "nt_read_stream n (sr_maximum (in_route (rv_lane v))) (rv_native v) = (Inr bytes, d)"
    "rest (rv_native v) \<noteq> [] \<longrightarrow> bytes \<noteq> []"
    using assms(1,2) unfolding live_source_def by blast
  then have rest: "rest (rv_native v) = bytes @ rest d"
    using assms(1) by (auto simp: live_source_def reads_in_order_def split: prod.splits sum.splits)
  then obtain m where "checked_add (rv_read_bytes v) (of_nat (length bytes)) = Some m"
    "unat m = unat (rv_read_bytes v) + length bytes"
    using assms(3) by (auto simp: checked_add_def unat_of_nat_less unat_word_ariths)
  then show ?thesis
    using True read rest assms(3)
    by (intro that [of "(remain bytes (v\<lparr>rv_native := d\<rparr>))\<lparr>rv_read_bytes := m\<rparr>"]) (auto simp: read_lane_def remain_def Let_def)
qed

text \<open>A push of bytes that continue the records to come takes some of them, up to the end of a record.\<close>

lemma push_delivering:
  assumes "stream_ok s" "\<not> st_closed s" "\<not> stream_ready s" "timely current s"
    and "list_all (whole_record (st_maximum s) (st_binding s)) todo" "concat todo = pending s @ bytes @ later"
    and grants: "grants_within (st_maximum s) reserve"
  obtains k t where "stream_push reserve bytes current s = (Inr k, t)" "stream_ok t" "\<not> st_closed t"
    "same_policy s t" "k \<le> length bytes" "pending t = pending s @ take k bytes" "st_last_now t = Some current"
    "concat todo = pending t @ drop k bytes @ later" "k = length bytes \<or> stream_ready t" "bytes \<noteq> [] \<longrightarrow> 0 < k"
    "deadline_from current s t"
proof -
  have "\<exists>k t. stream_push reserve bytes current s = (Inr k, t)"
  proof (cases "bytes = []")
    case True
    then show ?thesis using tick_timely [OF assms(1,2,4)] by (simp add: stream_push_def)
  next
    case False
    then obtain f fs where fs: "todo = f # fs" using assms(6) by (cases todo) simp_all
    have "(pending s @ bytes) @ later = f @ concat fs" using assms(6) fs by simp
    then have "(\<exists>z. pending s @ bytes = f @ z) \<or> prefix (pending s @ bytes) f"
      by (auto simp: prefix_def append_eq_append_conv2)
    then show ?thesis
      using push_timely [OF assms(1,2,4,3) _ _ grants, of f bytes] assms(5) fs by (metis list.pred_inject(2))
  qed
  then obtain k t where push: "stream_push reserve bytes current s = (Inr k, t)" by blast
  from assms(1) show ?thesis
  proof (cases rule: stream_push_cases [where reserve = reserve and bytes = bytes and now = current])
    case (took k' t')
    then have "concat todo = pending t' @ drop k' bytes @ later" using assms(6) by simp
    then show ?thesis using took push_last [OF took(1)] push_deadline_from [of current s reserve bytes] assms(3) by (intro that) auto
  next
    case (over e t')
    then show ?thesis using push by simp
  qed
qed

lemma fill_delivering:
  assumes "delivering rest route maximum rs v todo" "live_source n rest" "0 < sr_maximum route"
    and "list_all (whole_record maximum (sr_binding route)) todo"
    and timely: "timely current (lane_framing v)" and grants: "grants_within maximum reserve"
  obtains w where "fill_lane n reserve current v = (Inr (), w)" "in_route (rv_lane w) = route"
    "in_fin (rv_lane w) = in_fin (rv_lane v)" "stream_ok (lane_framing w)" "\<not> st_closed (lane_framing w)"
    "same_policy (lane_framing v) (lane_framing w)" "st_last_now (lane_framing w) = Some current"
    "rv_handler w = rv_handler v" "concat todo = pending (lane_framing w) @ lane_unread rest w"
    "unat (rv_read_bytes w) + length (rest (rv_native w)) < 2 ^ 64"
    "stream_ready (lane_framing w) \<or> in_remainder (rv_lane w) = []"
    "length (lane_unread rest w) \<le> length (lane_unread rest v)"
    "lane_unread rest v \<noteq> [] \<longrightarrow> length (lane_unread rest w) < length (lane_unread rest v)"
    "deadline_from current (lane_framing v) (lane_framing w)"
proof -
  have v: "in_route (rv_lane v) = route" "stream_ok (lane_framing v)" "\<not> st_closed (lane_framing v)"
    "\<not> stream_ready (lane_framing v)" "timely current (lane_framing v)"
    "concat todo = pending (lane_framing v) @ lane_unread rest v" "st_maximum (lane_framing v) = maximum"
    "st_binding (lane_framing v) = sr_binding route"
    "unat (rv_read_bytes v) + length (rest (rv_native v)) < 2 ^ 64"
    using assms(1) timely by (simp_all add: delivering_def Let_def)
  obtain u where u: "read_lane n v = (Inr (), u)" "in_route (rv_lane u) = in_route (rv_lane v)"
    "in_fin (rv_lane u) = in_fin (rv_lane v)" "lane_framing u = lane_framing v" "rv_handler u = rv_handler v"
    "lane_unread rest u = lane_unread rest v" "unat (rv_read_bytes u) + length (rest (rv_native u)) < 2 ^ 64"
    "lane_unread rest v \<noteq> [] \<longrightarrow> in_remainder (rv_lane u) \<noteq> []"
    using read_delivering [OF assms(2) _ v(9)] assms(3) v(1) by blast
  let ?R = "in_remainder (rv_lane u)"
  have whole: "list_all (whole_record (st_maximum (lane_framing v)) (st_binding (lane_framing v))) todo"
    using assms(4) v(7,8) by simp
  have todo: "concat todo = pending (lane_framing v) @ ?R @ rest (rv_native u)" using v(6) u(6) by simp
  obtain k t where t: "stream_push reserve ?R current (lane_framing v) = (Inr k, t)" "stream_ok t" "\<not> st_closed t"
    "same_policy (lane_framing v) t" "k \<le> length ?R" "pending t = pending (lane_framing v) @ take k ?R"
    "st_last_now t = Some current" "concat todo = pending t @ drop k ?R @ rest (rv_native u)"
    "k = length ?R \<or> stream_ready t" "?R \<noteq> [] \<longrightarrow> 0 < k"
    "deadline_from current (lane_framing v) t"
    using push_delivering [OF v(2-5) whole todo] grants v(7) by blast
  have len: "length (lane_unread rest v) = length ?R + length (rest (rv_native u))" using u(6) by (metis length_append)
  let ?w = "remain (drop k ?R) (u\<lparr>rv_lane := (rv_lane u)\<lparr>in_framing := t\<rparr>\<rparr>)"
  have "fill_lane n reserve current v = (Inr (), ?w)"
    using u(1,4) t(1,5) by (simp add: fill_lane_def framing_def)
  then show ?thesis
    using t(2-4,7-11) u(2,3,5,7,8) v(1) len
    by (intro that [of ?w]) (auto simp: remain_def simp del: append_is_Nil_conv)
qed

lemma same_last: "st_last_now s = t \<Longrightarrow> s\<lparr>st_last_now := t\<rparr> = s"
  by (cases s) simp

lemma same_framing: "v\<lparr>rv_lane := (rv_lane v)\<lparr>in_framing := lane_framing v\<rparr>\<rparr> = v"
  by (cases v; cases "rv_lane v") simp

lemma frame_again:
  assumes "stream_ok (lane_framing v)" "\<not> st_closed (lane_framing v)" "timely current (lane_framing v)"
    "st_last_now (lane_framing v) = Some current"
  shows "framing (fails \<circ> stream_frame current) v =
     (Inr (if stream_ready (lane_framing v) then Some (st_record (lane_framing v)) else None), v)"
  using tick_timely [OF assms(1-3)] same_last [OF assms(4)] same_framing [of v]
  by (simp add: framing_def stream_frame_def)

text \<open>The end of a visit: the stream is finished when nothing is left, and then every record was delivered.\<close>

lemma end_delivering:
  assumes "delivering rest route maximum rs v todo" "live_source n rest"
    and "list_all (whole_record maximum (sr_binding route)) todo" "st_last_now (lane_framing v) = Some current"
    and timely: "timely current (lane_framing v)"
  shows "if lane_unread rest v = [] then \<exists>w. end_lane n current v = (Inr (), w) \<and> in_fin (rv_lane w) \<and> rv_handler w = rs
    else end_lane n current v = (Inr (), v)"
proof -
  have v: "stream_ok (lane_framing v)" "\<not> st_closed (lane_framing v)" "\<not> stream_ready (lane_framing v)"
    "timely current (lane_framing v)" "concat todo = pending (lane_framing v) @ lane_unread rest v"
    "st_maximum (lane_framing v) = maximum" "st_binding (lane_framing v) = sr_binding route" "rs = rv_handler v @ todo"
    using assms(1) timely by (simp_all add: delivering_def Let_def)
  have eof: "nt_is_stream_eof n (rv_native v) = Inr (rest (rv_native v) = [])"
    using assms(2) by (simp add: live_source_def)
  show ?thesis
  proof (cases "lane_unread rest v = []")
    case False
    then show ?thesis
      using eof frame_again [OF v(1,2,4) assms(4)] v(3) by (auto simp: end_lane_def)
  next
    case True
    then have "todo = []" using todo_pending [of "lane_framing v" todo] v assms(3) by simp
    then have "pending (lane_framing v) = []" using v(5) by simp
    then have "st_header_len (lane_framing v) = 0"
      using v(1) by (auto simp: pending_def stream_ok_def stream_core_def stream_sized_def HEADER_BYTES_def split: option.splits if_splits)
    then show ?thesis
      using True eof frame_again [OF v(1,2,4) assms(4)] v(3,8) \<open>todo = []\<close> tick_timely [OF v(1,2,4)]
      by (auto simp: end_lane_def framing_def stream_finish_def)
  qed
qed

lemma hand_over_delivering:
  assumes v: "in_route (rv_lane v) = route" "stream_ok (lane_framing v)" "\<not> st_closed (lane_framing v)"
    "st_last_now (lane_framing v) = Some current" "timely current (lane_framing v)" "stream_ready (lane_framing v)"
    "st_maximum (lane_framing v) = maximum" "st_binding (lane_framing v) = sr_binding route"
    and rs: "rs = rv_handler v @ todo" "concat todo = pending (lane_framing v) @ lane_unread rest v"
    "list_all (whole_record maximum (sr_binding route)) todo" "list_all (admitted_record route) todo"
    and bytes: "unat (rv_read_bytes v) + length (rest (rv_native v)) < 2 ^ 64"
  obtains w todo' where "hand_over (logged consume_all) (st_record (lane_framing v)) current v = (Inr 1, w)"
    "delivering rest route maximum rs w todo'" "st_last_now (lane_framing w) = Some current"
    "lane_unread rest w = lane_unread rest v" "in_fin (rv_lane w) = in_fin (rv_lane v)"
    "list_all (whole_record maximum (sr_binding route)) todo'" "list_all (admitted_record route) todo'"
    "timely current (lane_framing w)" "same_policy (lane_framing v) (lane_framing w)" "st_until (lane_framing w) = None"
proof -
  let ?r = "st_record (lane_framing v)"
  have r: "whole_record maximum (sr_binding route) ?r" "pending (lane_framing v) = ?r"
    using ready_whole [OF v(2,6)] v(7,8) by simp_all
  obtain todo' where todo': "todo = ?r # todo'" "concat todo' = lane_unread rest v"
    using todo_record [OF rs(3) _ r(1)] rs(2) r(2) by metis
  from v(2) show ?thesis
  proof (cases rule: stream_consume_cases [where now = current])
    case (consumed s)
    let ?w = "v\<lparr>rv_handler := rv_handler v @ [?r], rv_lane := (rv_lane v)\<lparr>in_framing := s\<rparr>\<rparr>"
    have "hand_over (logged consume_all) ?r current v = (Inr 1, ?w)"
      using consumed(1) rs(4) todo'(1) v(1)
      by (simp add: hand_over_def logged_def consume_all_def admitted_record_def framing_def)
    moreover have "timely current s"
      using timely_after [OF consumed(4,9)] consumed(6) v(5) by (simp add: timely_def same_policy_def)
    moreover have "\<not> stream_ready s" "st_until s = None" using consumed(8) by (simp_all add: stream_idle_def stream_ready_def)
    ultimately show ?thesis
      using consumed v rs bytes todo'
      by (intro that [of ?w todo']) (simp_all add: delivering_def Let_def same_policy_def)
  next
    case (waiting e)
    then show ?thesis using v(6) by simp
  next
    case (over e s)
    then show ?thesis using tick_timely [OF v(2,3,5)] v(6) by (simp add: stream_consume_def stream_ready_def)
  qed
qed

lemma settle_delivering:
  assumes v: "in_route (rv_lane v) = route" "stream_ok (lane_framing v)" "\<not> st_closed (lane_framing v)"
    "st_last_now (lane_framing v) = Some current" "timely current (lane_framing v)"
    "st_maximum (lane_framing v) = maximum" "st_binding (lane_framing v) = sr_binding route"
    and rs: "rs = rv_handler v @ todo" "concat todo = pending (lane_framing v) @ lane_unread rest v"
    "list_all (whole_record maximum (sr_binding route)) todo" "list_all (admitted_record route) todo"
    and bytes: "unat (rv_read_bytes v) + length (rest (rv_native v)) < 2 ^ 64"
  obtains w count todo' where "(if stream_ready (lane_framing v)
        then hand_over (logged consume_all) (st_record (lane_framing v)) current v else (Inr 0, v)) = (Inr count, w)"
    "delivering rest route maximum rs w todo'" "st_last_now (lane_framing w) = Some current"
    "lane_unread rest w = lane_unread rest v" "in_fin (rv_lane w) = in_fin (rv_lane v)"
    "list_all (whole_record maximum (sr_binding route)) todo'" "list_all (admitted_record route) todo'"
    "timely current (lane_framing w)" "same_policy (lane_framing v) (lane_framing w)"
    "st_until (lane_framing w) = None \<or> w = v"
proof (cases "stream_ready (lane_framing v)")
  case True
  obtain u t where "hand_over (logged consume_all) (st_record (lane_framing v)) current v = (Inr 1, u)"
    "delivering rest route maximum rs u t" "st_last_now (lane_framing u) = Some current"
    "lane_unread rest u = lane_unread rest v" "in_fin (rv_lane u) = in_fin (rv_lane v)"
    "list_all (whole_record maximum (sr_binding route)) t" "list_all (admitted_record route) t"
    "timely current (lane_framing u)" "same_policy (lane_framing v) (lane_framing u)" "st_until (lane_framing u) = None"
    by (rule hand_over_delivering [where rest = rest, OF v(1-5) True v(6,7) rs bytes])
  then show ?thesis using True by (intro that [of 1 u t]) simp_all
next
  case False
  then have "delivering rest route maximum rs v todo" using v rs bytes by (simp add: delivering_def Let_def)
  then show ?thesis using False that [of 0 v todo] v rs by (simp add: same_policy_def)
qed

lemma deliver_visit_step:
  assumes "delivering rest route maximum rs v todo" "live_source n rest" "0 < sr_maximum route" "\<not> in_fin (rv_lane v)"
    and "list_all (whole_record maximum (sr_binding route)) todo" "list_all (admitted_record route) todo"
    and timely: "timely current (lane_framing v)" and grants: "grants_within maximum reserve"
  defines "w \<equiv> deliver_visit n reserve current v"
  shows "(in_fin (rv_lane w) \<and> rv_handler w = rs)
    \<or> (\<not> in_fin (rv_lane w) \<and> length (lane_unread rest w) < length (lane_unread rest v)
       \<and> (\<exists>todo'. delivering rest route maximum rs w todo' \<and> list_all (whole_record maximum (sr_binding route)) todo'
          \<and> list_all (admitted_record route) todo')
       \<and> same_policy (lane_framing v) (lane_framing w) \<and> st_last_now (lane_framing w) = Some current
       \<and> deadline_from current (lane_framing v) (lane_framing w)
       \<and> (st_until (lane_framing w) = None \<or> length (pending (lane_framing v)) < length (pending (lane_framing w))))"
proof -
  let ?s = "lane_framing v"
  have v: "in_route (rv_lane v) = route" "stream_ok ?s" "\<not> st_closed ?s" "\<not> stream_ready ?s" "timely current ?s"
    "rs = rv_handler v @ todo" "st_maximum ?s = maximum" "st_binding ?s = sr_binding route"
    "concat todo = pending ?s @ lane_unread rest v"
    using assms(1) timely by (simp_all add: delivering_def Let_def)
  define v1 where "v1 = v\<lparr>rv_lane := (rv_lane v)\<lparr>in_framing := ?s\<lparr>st_last_now := Some current\<rparr>\<rparr>\<rparr>"
  have frame1: "framing (fails \<circ> stream_frame current) v = (Inr None, v1)"
    using tick_timely [OF v(2,3,5)] v(4) by (simp add: framing_def stream_frame_def stream_ready_def v1_def)
  have "stream_ok (?s\<lparr>st_last_now := Some current\<rparr>)"
    using v(2) by (cases rule: stream_tick_cases [where now = current]) (use tick_timely [OF v(2,3,5)] in simp_all)
  then have v1: "delivering rest route maximum rs v1 todo" "in_fin (rv_lane v1) = in_fin (rv_lane v)"
    "lane_unread rest v1 = lane_unread rest v" "rv_handler v1 = rv_handler v" "same_policy ?s (lane_framing v1)"
    "timely current (lane_framing v1)" "pending (lane_framing v1) = pending ?s"
    using assms(1) timely
    by (auto simp: delivering_def v1_def Let_def pending_def stream_ready_def timely_def same_policy_def is_none_or_def)
  obtain x where x: "fill_lane n reserve current v1 = (Inr (), x)" "in_route (rv_lane x) = route"
    "in_fin (rv_lane x) = in_fin (rv_lane v1)" "stream_ok (lane_framing x)" "\<not> st_closed (lane_framing x)"
    "same_policy (lane_framing v1) (lane_framing x)" "st_last_now (lane_framing x) = Some current"
    "rv_handler x = rv_handler v1" "concat todo = pending (lane_framing x) @ lane_unread rest x"
    "unat (rv_read_bytes x) + length (rest (rv_native x)) < 2 ^ 64"
    "stream_ready (lane_framing x) \<or> in_remainder (rv_lane x) = []"
    "length (lane_unread rest x) \<le> length (lane_unread rest v1)"
    "lane_unread rest v1 \<noteq> [] \<longrightarrow> length (lane_unread rest x) < length (lane_unread rest v1)"
    "deadline_from current (lane_framing v1) (lane_framing x)"
    by (rule fill_delivering [OF v1(1) assms(2,3,5) v1(6) grants])
  have policy: "same_policy ?s (lane_framing x)" using same_policy_trans [OF v1(5) x(6)] .
  have since: "deadline_from current ?s (lane_framing x)" using x(14) by (simp add: v1_def deadline_from_def)
  have timely': "timely current (lane_framing x)"
    using timely_after [OF x(4,7)] v(5) policy by (simp add: timely_def same_policy_def)
  have visit: "w = snd (try_then (if stream_ready (lane_framing x)
        then hand_over (logged consume_all) (st_record (lane_framing x)) current x else (Inr 0, x))
      (\<lambda>count v. try_then (end_lane n current v) (\<lambda>_ v. (Inr count, v))))"
    using frame1 x(1) frame_again [OF x(4,5) timely' x(7)] assms(4)
    by (simp add: w_def deliver_visit_def receive_stream_def)
  have prem: "st_maximum (lane_framing x) = maximum" "st_binding (lane_framing x) = sr_binding route" "rs = rv_handler x @ todo"
    using v(6-8) policy v1(4) x(8) by (simp_all add: same_policy_def)
  obtain y count todo' where y: "(if stream_ready (lane_framing x)
        then hand_over (logged consume_all) (st_record (lane_framing x)) current x else (Inr 0, x)) = (Inr count, y)"
    "delivering rest route maximum rs y todo'" "st_last_now (lane_framing y) = Some current"
    "lane_unread rest y = lane_unread rest x" "in_fin (rv_lane y) = in_fin (rv_lane x)"
    "list_all (whole_record maximum (sr_binding route)) todo'" "list_all (admitted_record route) todo'"
    "timely current (lane_framing y)" "same_policy (lane_framing x) (lane_framing y)"
    "st_until (lane_framing y) = None \<or> y = x"
    by (rule settle_delivering [where rest = rest, OF x(2,4,5,7) timely' prem x(9) assms(5,6) x(10)])
  have w: "w = snd (try_then (end_lane n current y) (\<lambda>_ v. (Inr count, v)))" using visit y(1) by simp
  show ?thesis
  proof (cases "lane_unread rest y = []")
    case True
    then show ?thesis using end_delivering [OF y(2) assms(2) y(6,3,8)] w by auto
  next
    case False
    then have wy: "w = y" using end_delivering [OF y(2) assms(2) y(6,3,8)] w by simp
    have less: "length (lane_unread rest x) < length (lane_unread rest v)"
      using False x(12,13) y(4) v1(3) by (metis le_zero_eq length_0_conv)
    have "length (pending ?s) + length (lane_unread rest v) = length (pending (lane_framing x)) + length (lane_unread rest x)"
      using v(9) x(9) by (metis length_append)
    then have "length (pending ?s) < length (pending (lane_framing x))" using less by linarith
    then have "deadline_from current ?s (lane_framing y)"
      "st_until (lane_framing y) = None \<or> length (pending ?s) < length (pending (lane_framing y))"
      using y(10) since by (auto simp: deadline_from_def is_none_or_def)
    then show ?thesis using wy less y same_policy_trans [OF policy y(9)] v1(2) x(3) assms(4) by auto
  qed
qed

text \<open>
  Visit \<open>i\<close> is with the allocator \<open>memory i\<close> at time \<open>t i\<close>. Each visit finishes the lane or takes some of the
  bytes to come, so visiting it until it has finished terminates.
\<close>

definition visit_at :: "'c native \<Rightarrow> (nat \<Rightarrow> allocator) \<Rightarrow> (nat \<Rightarrow> u64) \<Rightarrow> nat \<times> ('c, byte list list) Receiver \<Rightarrow>
    nat \<times> ('c, byte list list) Receiver" where
  "visit_at n memory t = (\<lambda>(i, v). (Suc i, visit_lane n (Visit (memory i) True (\<lambda>_. Inr Consumed) (t i)) v))"

definition deliver_all :: "'c native \<Rightarrow> (nat \<Rightarrow> allocator) \<Rightarrow> (nat \<Rightarrow> u64) \<Rightarrow> ('c, byte list list) Receiver \<Rightarrow>
    (nat \<times> ('c, byte list list) Receiver) option" where
  "deliver_all n memory t v = while_option (\<lambda>(i, v). \<not> in_fin (rv_lane v)) (visit_at n memory t) (0, v)"

lemma visit_at_deliver: "visit_at n memory t (i, v) = (Suc i, deliver_visit n (memory i) (t i) v)"
  by (simp add: visit_at_def deliver_visit_def consume_all_def [abs_def])

text \<open>Before visit \<open>i\<close> of an unfinished lane: every visit so far has taken a byte.\<close>

definition underway :: "('c \<Rightarrow> byte list) \<Rightarrow> StreamRoute \<Rightarrow> nat \<Rightarrow> u64 \<Rightarrow> byte list list \<Rightarrow> (nat \<Rightarrow> u64) \<Rightarrow> nat \<Rightarrow>
    ('c, byte list list) Receiver \<Rightarrow> bool" where
  "underway rest route maximum lifetime rs t i v \<longleftrightarrow>
     (\<exists>todo. delivering rest route maximum rs v todo \<and> list_all (whole_record maximum (sr_binding route)) todo
        \<and> list_all (admitted_record route) todo)
     \<and> st_lifetime (lane_framing v) = lifetime \<and> awaited t i (lane_framing v)
     \<and> i + length (lane_unread rest v) \<le> length (concat rs)"

lemma underway_new:
  assumes "stream_new_inner maximum (sr_binding route) lifetime = Inr s" "rest c = concat rs"
    and "list_all (whole_record maximum (sr_binding route)) rs" "list_all (admitted_record route) rs" "length (concat rs) < 2 ^ 64"
  shows "underway rest route maximum lifetime rs t 0 (lane_new route s c)"
proof -
  have "stream_idle s" "st_last_now s = None" "st_lifetime s = lifetime"
    using assms(1) by (auto simp: stream_new_inner_def stream_idle_def split: if_splits)
  then have s: "awaited t 0 s" "\<not> stream_ready s" "pending s = []" "st_lifetime s = lifetime"
    by (simp_all add: awaited_def stream_idle_def stream_ready_def pending_def is_none_or_def)
  then have "delivering rest route maximum rs (lane_new route s c) rs"
    using stream_inv_new [OF assms(1)] assms(2,5) by (simp add: delivering_def lane_new_def Let_def)
  then show ?thesis using s assms(2-4) by (auto simp: underway_def lane_new_def)
qed

lemma underway_step:
  assumes "underway rest route maximum lifetime rs t i v" "live_source n rest" "0 < sr_maximum route" "\<not> in_fin (rv_lane v)"
    and "grants_within maximum reserve" "paced (Suc (length (concat rs))) maximum lifetime t"
  defines "w \<equiv> deliver_visit n reserve (t i) v"
  shows "if in_fin (rv_lane w) then rv_handler w = rs \<and> Suc i \<le> Suc (length (concat rs))
    else underway rest route maximum lifetime rs t (Suc i) w \<and> length (lane_unread rest w) < length (lane_unread rest v)"
proof -
  obtain todo where todo: "delivering rest route maximum rs v todo"
    "list_all (whole_record maximum (sr_binding route)) todo" "list_all (admitted_record route) todo"
    and i: "st_lifetime (lane_framing v) = lifetime" "awaited t i (lane_framing v)"
      "i + length (lane_unread rest v) \<le> length (concat rs)"
    using assms(1) by (auto simp: underway_def)
  have v: "stream_ok (lane_framing v)" "st_maximum (lane_framing v) = maximum"
    using todo(1) by (simp_all add: delivering_def Let_def)
  have timely: "timely (t i) (lane_framing v)" using awaited_timely [OF _ i(2) _ v(1)] assms(6) i v(2) by simp
  note visit = deliver_visit_step [OF todo(1) assms(2-4) todo(2,3) timely assms(5), folded w_def]
  show ?thesis
  proof (cases "in_fin (rv_lane w)")
    case True
    then have "rv_handler w = rs" using visit by blast
    then show ?thesis using True i(3) by simp
  next
    case False
    then obtain todo' where w: "length (lane_unread rest w) < length (lane_unread rest v)"
      "delivering rest route maximum rs w todo'" "list_all (whole_record maximum (sr_binding route)) todo'"
      "list_all (admitted_record route) todo'" "same_policy (lane_framing v) (lane_framing w)"
      "st_last_now (lane_framing w) = Some (t i)" "deadline_from (t i) (lane_framing v) (lane_framing w)"
      "st_until (lane_framing w) = None \<or> length (pending (lane_framing v)) < length (pending (lane_framing w))"
      using visit by blast
    have "awaited t (Suc i) (lane_framing w)"
      using awaited_next [OF i(2) w(7,6,5) _ w(8)] w(2) by (simp add: delivering_def Let_def)
    moreover have "st_lifetime (lane_framing w) = lifetime" "Suc i + length (lane_unread rest w) \<le> length (concat rs)"
      using i(1,3) w(1,5) by (simp_all add: same_policy_def)
    ultimately have "underway rest route maximum lifetime rs t (Suc i) w" unfolding underway_def using w(2-4) by blast
    then show ?thesis using False w(1) by simp
  qed
qed

lemma lane_delivers:
  assumes "stream_new_inner maximum (sr_binding route) lifetime = Inr s" "live_source n rest"
    and "rest c = concat rs" "list_all (whole_record maximum (sr_binding route)) rs"
    and "list_all (\<lambda>r. validate_record r (sr_maximum route) (sr_binding route) (sr_messages route) = Inr ()) rs"
    and "0 < sr_maximum route" "length (concat rs) < 2 ^ 64"
    and grants: "\<forall>i. grants_within maximum (memory i)"
    and paced: "paced (Suc (length (concat rs))) maximum lifetime t"
  shows "\<exists>k v. deliver_all n memory t (lane_new route s c) = Some (k, v) \<and> in_fin (rv_lane v)
    \<and> rv_handler v = rs \<and> k \<le> Suc (length (concat rs))"
proof -
  let ?P = "\<lambda>(i, v). if in_fin (rv_lane v) then rv_handler v = rs \<and> i \<le> Suc (length (concat rs))
    else underway rest route maximum lifetime rs t i v"
  let ?b = "\<lambda>(i :: nat, v). \<not> in_fin (rv_lane v)"
  let ?m = "\<lambda>(i :: nat, v). if in_fin (rv_lane v) then 0 else Suc (length (lane_unread rest v))"
  have "list_all (admitted_record route) rs" using assms(5) by (simp add: admitted_record_def [abs_def])
  then have init: "?P (0, lane_new route s c)"
    using underway_new [where rest = rest and c = c, OF assms(1,3,4) _ assms(7)] by (simp add: lane_new_def)
  have step: "?P (visit_at n memory t x)" "?m (visit_at n memory t x) < ?m x" if P: "?P x" and going: "?b x" for x
  proof -
    obtain i v where x: "x = (i, v)" by (cases x)
    then show "?P (visit_at n memory t x)" "?m (visit_at n memory t x) < ?m x"
      using P going underway_step [of rest route maximum lifetime rs t i v n "memory i"] assms(2,6) grants paced
      by (simp_all add: visit_at_deliver del: length_append split: if_splits)
  qed
  have "\<exists>x. while_option ?b (visit_at n memory t) (0, lane_new route s c) = Some x"
    by (rule measure_while_option_Some [where P = ?P and f = ?m, OF _ init]) (intro conjI step)
  then obtain x where x: "while_option ?b (visit_at n memory t) (0, lane_new route s c) = Some x" by (rule exE)
  have "?P x" by (rule while_option_rule [where P = ?P, OF step(1) x init])
  moreover have "\<not> ?b x" using while_option_stop [OF x] .
  ultimately show ?thesis using x by (cases x) (simp add: deliver_all_def)
qed

section \<open>An example\<close>

text \<open>What the encoders write is admitted by a route of its family.\<close>

lemma frame_admitted:
  assumes "messages_contains messages (kind_code kind)" "messages \<noteq> NegotiationMessages"
    and "length payload + length extensions < 2 ^ 32" "HEADER_BYTES + length payload + length extensions \<le> maximum"
  shows "validate_record (frame kind binding payload extensions) maximum binding messages = Inr ()"
proof -
  let ?f = "frame kind binding payload extensions"
  note h = header_fields [of kind binding payload extensions]
  have cut: "take m (drop i (take HEADER_BYTES ?f)) = take m (drop i ?f)" if "m + i \<le> HEADER_BYTES" for m i
    using that by (simp add: drop_take min_absorb1)
  have "take 6 ?f = MAGIC @ [0, 0]"
    using h(1,2) cut [of 4 0] cut [of 2 4] take_add [of 4 2 ?f] by (simp add: HEADER_BYTES_def)
  moreover have "take 4 (drop 8 ?f) = [0, 0, 0, 0]" "take 2 (drop 6 ?f) = to_be_bytes (kind_code kind)"
    "header_word ?f 16 = binding" "header_word ?f 12 = of_nat (length payload + length extensions)"
    "header_word ?f 20 = of_nat (length extensions)"
    using h(3-7) cut [of 4 8] cut [of 2 6] cut [of 4 16] cut [of 4 12] cut [of 4 20]
    by (simp_all add: header_word_def HEADER_BYTES_def)
  moreover have "unat (of_nat (length payload + length extensions) :: u32) = length payload + length extensions"
    "unat (of_nat (length extensions) :: u32) = length extensions"
    using assms(3) by (simp_all add: unat_of_nat_less del: of_nat_add)
  ultimately show ?thesis
    using assms by (simp add: validate_record_def length_frame HEADER_BYTES_def Let_def word_less_nat_alt)
qed

text \<open>A connection that returns at most five bytes at a time.\<close>

definition example_native :: "byte list native" where
  "example_native = \<lparr>nt_read_stream = (\<lambda>m c. (Inr (take (min m 5) c), drop (min m 5) c)),
     nt_is_stream_eof = (\<lambda>c. Inr (c = []))\<rparr>"

definition example_route :: StreamRoute where
  "example_route = \<lparr>sr_binding = 7, sr_messages = InputActions, sr_maximum = 4096\<rparr>"

lemma example_live: "live_source example_native id"
  by (auto simp: live_source_def reads_in_order_def example_native_def)

text \<open>Visits with five in every unit of time.\<close>

definition example_clock :: "nat \<Rightarrow> u64" where
  "example_clock i = of_nat (i div 5)"

lemma example_paced:
  assumes "visits \<le> 4096"
  shows "paced visits maximum 1000 example_clock"
proof -
  have clock: "unat (example_clock i) = i div 5" if "i < visits" for i
    unfolding example_clock_def by (rule unat_of_nat_less) (use that assms in simp)
  show ?thesis
  proof (unfold paced_def, intro conjI allI impI)
    fix i
    assume "i < visits"
    then show "unat (example_clock i) + unat (1000 :: u64) < 2 ^ 64" using clock [of i] assms by simp
  next
    fix j i
    assume ij: "j < visits" "i \<le> j"
    then show "example_clock i \<le> example_clock j" using clock [of i] clock [of j] by (simp add: word_le_nat_alt div_le_mono)
    show "unat (example_clock j) < unat (example_clock i) + unat (1000 :: u64)"
      using clock [of i] clock [of j] ij assms by simp
  qed
qed

lemma example_admitted_record: "validate_record example_record 4096 7 InputActions = Inr ()"
  unfolding example_record_def by (rule frame_admitted) (simp_all add: HEADER_BYTES_def)

section \<open>Properties\<close>

text \<open>
  C38. A lane hands over the records that were sent, in order and of its own family. Whatever
  chunks the connection returns, whenever the lane is visited and whatever its handler decides,
  the records the handler consumed are a prefix of the records of the bytes sent, each admitted
  by the lane's route; as long as the stream is open, every byte sent is in a consumed record,
  held, or still unread.
\<close>

theorem lane_hands_over_in_order:
  assumes "stream_new_inner maximum (sr_binding route) lifetime = Inr s" "reads_in_order n rest"
    and "v = fold (visit_lane n) visits (lane_new route s c)"
  shows "prefix (rv_handler v) (split_records maximum (sr_binding route) (rest c))
    \<and> list_all (\<lambda>r. validate_record r (sr_maximum route) (sr_binding route) (sr_messages route) = Inr ()) (rv_handler v)
    \<and> (\<not> st_closed (in_framing (rv_lane v)) \<longrightarrow>
         rest c = concat (rv_handler v) @ pending (in_framing (rv_lane v)) @ in_remainder (rv_lane v) @ rest (rv_native v))"
proof -
  have inv: "lane_inv rest route maximum (rest c) v" using lane_run_inv [OF assms(1,2)] assms(3) by simp
  have whole: "list_all (whole_record maximum (sr_binding route)) (rv_handler v)"
    using inv by (auto simp: lane_inv_def list_all_iff)
  obtain z where "rest c = concat (rv_handler v) @ z" using inv by (auto simp: lane_inv_def prefix_def)
  then have "prefix (rv_handler v) (split_records maximum (sr_binding route) (rest c))"
    using split_records_concat [OF whole] by simp
  then show ?thesis using inv by (auto simp: lane_inv_def admitted_record_def list_all_iff)
qed

theorem lane_hands_over_in_order_witness:
  "\<exists>visits v. length visits = 20
     \<and> v = fold (visit_lane example_native) visits (lane_new example_route example_stream (example_record @ example_record))
     \<and> prefix (rv_handler v) [example_record, example_record]"
proof -
  define visits where "visits = replicate 20 (Visit exact_allocator True (\<lambda>_. Inr Consumed) 1)"
  define v where "v = fold (visit_lane example_native) visits (lane_new example_route example_stream (example_record @ example_record))"
  have new: "stream_new_inner 4096 (sr_binding example_route) 1000 = Inr example_stream" "reads_in_order example_native id"
    using example_stream_new example_live by (simp_all add: example_route_def live_source_def)
  have "prefix (rv_handler v) (split_records 4096 7 (example_record @ example_record))"
    using lane_hands_over_in_order [OF new v_def] by (simp add: example_route_def)
  then have "prefix (rv_handler v) [example_record, example_record]"
    using split_records_concat [of 4096 7 "[example_record, example_record]" "[]"] example_record_whole
    by (simp add: split_records.simps [of _ _ "[]"])
  moreover have "length visits = 20" by (simp add: visits_def)
  ultimately show ?thesis using v_def by blast
qed

text \<open>
  C39. Delivery terminates. The peer sent whole records that the route admits and then ended the stream;
  the connection is alive; the handler consumes; the allocator grants growths up to the maximum
  within the maximum; and time passes from visit to visit, at a pace at which less than a record's
  lifetime passes in any \<open>maximum\<close> visits, while the whole delivery may take as long as it likes. Then visiting
  the lane until it has finished terminates after at most one visit more than bytes were sent,
  however the connection cuts them, and the handler has consumed exactly the records sent, in order.
\<close>

theorem delivery_terminates:
  assumes "stream_new_inner maximum (sr_binding route) lifetime = Inr s" "live_source n rest"
    and "rest c = concat rs" "list_all (whole_record maximum (sr_binding route)) rs"
    and "list_all (\<lambda>r. validate_record r (sr_maximum route) (sr_binding route) (sr_messages route) = Inr ()) rs"
    and "0 < sr_maximum route" "length (concat rs) < 2 ^ 64"
    and "\<forall>i. grants_within maximum (memory i)" "paced (Suc (length (concat rs))) maximum lifetime t"
  shows "\<exists>k v. deliver_all n memory t (lane_new route s c) = Some (k, v) \<and> in_fin (rv_lane v)
    \<and> rv_handler v = rs \<and> k \<le> Suc (length (concat rs))"
  using assms by (rule lane_delivers)

theorem delivery_terminates_witness:
  "\<exists>k v. deliver_all example_native (\<lambda>_. exact_allocator) example_clock
      (lane_new example_route example_stream (example_record @ example_record)) = Some (k, v)
     \<and> rv_handler v = [example_record, example_record]"
proof -
  have "length (concat [example_record, example_record]) \<le> 1000" by (simp add: example_record_def length_frame HEADER_BYTES_def)
  then show ?thesis
    using delivery_terminates [of 4096 example_route 1000 example_stream example_native id
        "example_record @ example_record" "[example_record, example_record]" "\<lambda>_. exact_allocator" example_clock]
      example_stream_new example_live example_record_whole example_admitted_record exact_within
      example_paced [of "Suc (length (concat [example_record, example_record]))"]
    by (auto simp: example_route_def)
qed

end
